(* ===== verification/Prelude.thy ===== *)
theory Prelude
  imports Complex_Main "HOL-Library.Char_ord" "HOL-Library.List_Lexorder"
begin

text \<open>
  What every component of the model shares: the lemma collections, the error and
  result types, the JavaScript string operations the sources call (on strings of
  8-bit characters, with case mapping on the ASCII letters), fixed-width and free
  decimal numerals, and \<open>join\<close>.
\<close>

section \<open>Lemma collections\<close>

named_theorems fl_simps \<open>rounding to binary64\<close>
named_theorems db_simps \<open>tables: lookups after updates\<close>
named_theorems shot_defs \<open>unfolding of the shot pipeline\<close>

section \<open>Strings\<close>

type_synonym js_string = string

definition is_digit :: "char \<Rightarrow> bool" where
  "is_digit c \<longleftrightarrow> CHR ''0'' \<le> c \<and> c \<le> CHR ''9''"

definition is_upper :: "char \<Rightarrow> bool" where
  "is_upper c \<longleftrightarrow> CHR ''A'' \<le> c \<and> c \<le> CHR ''Z''"

definition is_lower :: "char \<Rightarrow> bool" where
  "is_lower c \<longleftrightarrow> CHR ''a'' \<le> c \<and> c \<le> CHR ''z''"

definition upper_char :: "char \<Rightarrow> char" where
  "upper_char c = (if is_lower c then char_of (of_char c - 32 :: nat) else c)"

definition lower_char :: "char \<Rightarrow> char" where
  "lower_char c = (if is_upper c then char_of (of_char c + 32 :: nat) else c)"

definition toUpperCase :: "js_string \<Rightarrow> js_string" where
  "toUpperCase s = map upper_char s"

definition toLowerCase :: "js_string \<Rightarrow> js_string" where
  "toLowerCase s = map lower_char s"

text \<open>White space that \<open>String.prototype.trim\<close> strips, among the 8-bit characters.\<close>

definition is_space :: "char \<Rightarrow> bool" where
  "is_space c \<longleftrightarrow> (let n = (of_char c :: nat) in (9 \<le> n \<and> n \<le> 13) \<or> n = 32 \<or> n = 160)"

definition trim :: "js_string \<Rightarrow> js_string" where
  "trim s = rev (dropWhile is_space (rev (dropWhile is_space s)))"

text \<open>\<open>s.slice(a, b)\<close> for \<open>0 \<le> a \<le> b\<close>.\<close>

definition slice :: "nat \<Rightarrow> nat \<Rightarrow> 'a list \<Rightarrow> 'a list" where
  "slice a b s = take (b - a) (drop a s)"

definition startsWith :: "js_string \<Rightarrow> js_string \<Rightarrow> bool" where
  "startsWith p s \<longleftrightarrow> take (length p) s = p"

fun join :: "'a list \<Rightarrow> 'a list list \<Rightarrow> 'a list" where
  "join sep [] = []"
| "join sep [x] = x"
| "join sep (x # y # zs) = x @ sep @ join sep (y # zs)"

lemma trim_Nil [simp]: "trim [] = []"
  by (simp add: trim_def)

lemma length_trim: "length (trim s) \<le> length s"
proof -
  have "length (dropWhile is_space (rev (dropWhile is_space s))) \<le> length (rev (dropWhile is_space s))"
    by (rule length_dropWhile_le)
  also have "\<dots> \<le> length s" by (simp add: length_dropWhile_le)
  finally show ?thesis by (simp add: trim_def)
qed

lemma trim_trim [simp]: "trim (trim s) = trim s"
proof -
  define m where "m = dropWhile is_space s"
  have head: "dropWhile is_space (rev (dropWhile is_space (rev m))) = rev (dropWhile is_space (rev m))"
  proof (cases "dropWhile is_space (rev m)")
    case Nil
    show ?thesis unfolding Nil by simp
  next
    case (Cons c cs)
    obtain pre where pre: "rev m = pre @ dropWhile is_space (rev m)"
      by (metis takeWhile_dropWhile_id)
    then have m: "m = rev (dropWhile is_space (rev m)) @ rev pre"
      by (metis rev_append rev_rev_ident)
    obtain d ds where d: "rev (dropWhile is_space (rev m)) = d # ds"
      using Cons by (cases "rev (dropWhile is_space (rev m))") auto
    with m have "m = d # (ds @ rev pre)" by simp
    then have "\<not> is_space d"
      unfolding m_def by (metis dropWhile_eq_Cons_conv)
    with d show ?thesis by simp
  qed
  show ?thesis
    unfolding trim_def using head by (simp add: m_def)
qed

section \<open>Decimal numerals\<close>

definition digit_char :: "nat \<Rightarrow> char" where
  "digit_char n = char_of (48 + n mod 10)"

definition digit_val :: "char \<Rightarrow> nat" where
  "digit_val c = of_char c - 48"

lemma of_char_digit_char: "(of_char (digit_char n) :: nat) = 48 + n mod 10"
proof -
  have "48 + n mod 10 < (256::nat)" using mod_less_divisor [of 10 n] by simp
  then show ?thesis by (simp add: digit_char_def del: mod_less_divisor)
qed

lemma digit_val_char [simp]: "digit_val (digit_char n) = n mod 10"
  by (simp add: digit_val_def of_char_digit_char)

lemma less_eq_char_nat: "(c :: char) \<le> d \<longleftrightarrow> (of_char c :: nat) \<le> of_char d"
  by (simp add: less_eq_char_def)

lemma less_char_nat: "(c :: char) < d \<longleftrightarrow> (of_char c :: nat) < of_char d"
  by (simp add: less_char_def)

lemma is_digit_digit_char [simp]: "is_digit (digit_char n)"
proof -
  have "n mod 10 \<le> 9" using mod_less_divisor [of 10 n] by simp
  then show ?thesis by (simp add: is_digit_def less_eq_char_nat of_char_digit_char)
qed

text \<open>The last \<open>w\<close> decimal digits of \<open>n\<close>, with leading zeros.\<close>

fun pad_dec :: "nat \<Rightarrow> nat \<Rightarrow> js_string" where
  "pad_dec 0 n = []"
| "pad_dec (Suc w) n = pad_dec w (n div 10) @ [digit_char n]"

fun undec :: "js_string \<Rightarrow> nat" where
  "undec [] = 0"
| "undec (c # cs) = digit_val c * 10 ^ length cs + undec cs"

lemma length_pad_dec [simp]: "length (pad_dec w n) = w"
  by (induction w arbitrary: n) auto

lemma undec_append: "undec (xs @ ys) = undec xs * 10 ^ length ys + undec ys"
  by (induction xs) (auto simp: algebra_simps power_add)

lemma undec_pad_dec [simp]: "undec (pad_dec w n) = n mod 10 ^ w"
proof (induction w arbitrary: n)
  case 0
  then show ?case by simp
next
  case (Suc w)
  have "undec (pad_dec (Suc w) n) = (n div 10 mod 10 ^ w) * 10 + n mod 10"
    by (simp add: undec_append Suc.IH)
  also have "\<dots> = n mod 10 ^ Suc w"
    by (simp add: mod_mult2_eq [of n 10 "10 ^ w"] mult.commute)
  finally show ?case .
qed

lemma pad_dec_digits: "c \<in> set (pad_dec w n) \<Longrightarrow> is_digit c"
  by (induction w arbitrary: n) auto

lemma pad_dec_inj: "m < 10 ^ w \<Longrightarrow> n < 10 ^ w \<Longrightarrow> pad_dec w m = pad_dec w n \<longleftrightarrow> m = n"
  by (metis mod_less undec_pad_dec)

text \<open>Decimal numerals without leading zeros, as \<open>String(n)\<close> prints an integer.\<close>

fun show_nat :: "nat \<Rightarrow> js_string" where
  "show_nat n = (if n < 10 then [digit_char n] else show_nat (n div 10) @ [digit_char n])"

declare show_nat.simps [simp del]

definition show_int :: "int \<Rightarrow> js_string" where
  "show_int i = (if i < 0 then CHR ''-'' # show_nat (nat (- i)) else show_nat (nat i))"

lemma undec_show_nat [simp]: "undec (show_nat n) = n"
proof (induction n rule: show_nat.induct)
  case (1 n)
  then show ?case
    by (cases "n < 10") (simp_all add: show_nat.simps [of n] undec_append)
qed

lemma show_nat_digits: "c \<in> set (show_nat n) \<Longrightarrow> is_digit c"
proof (induction n rule: show_nat.induct)
  case (1 n)
  then show ?case
    by (cases "n < 10") (auto simp: show_nat.simps [of n])
qed

lemma show_nat_not_Nil [simp]: "show_nat n \<noteq> []"
  by (subst show_nat.simps) simp

lemma show_nat_inj [simp]: "show_nat m = show_nat n \<longleftrightarrow> m = n"
  by (metis undec_show_nat)

lemma minus_not_digit [simp]: "\<not> is_digit (CHR ''-'')" "\<not> is_digit (CHR ''.'')"
  "\<not> is_digit (CHR ''|'')" "\<not> is_digit (CHR ''T'')" "\<not> is_digit (CHR '':'')"
  "\<not> is_digit (CHR ''Z'')" "\<not> is_digit (CHR ''+'')"
  by (simp_all add: is_digit_def less_eq_char_nat)

lemma show_nat_no_minus: "CHR ''-'' \<notin> set (show_nat n)"
  using show_nat_digits by fastforce

lemma show_nat_head [simp]: "show_nat n \<noteq> CHR ''-'' # s" "CHR ''-'' # s \<noteq> show_nat n"
  by (metis list.set_intros(1) show_nat_no_minus)+

lemma show_int_inj [simp]: "show_int i = show_int j \<longleftrightarrow> i = j"
  by (auto simp: show_int_def split: if_splits)

text \<open>Evaluation on numerals: \<open>simp add: dec_eval\<close>.\<close>

lemma digit_char_eval:
  "digit_char 0 = CHR ''0''" "digit_char (Suc 0) = CHR ''1''" "digit_char 2 = CHR ''2''"
  "digit_char 3 = CHR ''3''" "digit_char 4 = CHR ''4''" "digit_char 5 = CHR ''5''"
  "digit_char 6 = CHR ''6''" "digit_char 7 = CHR ''7''" "digit_char 8 = CHR ''8''"
  "digit_char 9 = CHR ''9''"
  by code_simp+

lemma digit_char_mod: "digit_char (n mod 10) = digit_char n"
  by (simp only: digit_char_def mod_mod_trivial)

lemma show_nat_eval:
  "show_nat 0 = ''0''" "show_nat (Suc 0) = ''1''"
  "show_nat (numeral k) =
     (if (numeral k :: nat) < 10 then [digit_char (numeral k)]
      else show_nat (numeral k div 10) @ [digit_char (numeral k mod 10)])"
proof -
  show "show_nat 0 = ''0''" "show_nat (Suc 0) = ''1''"
    by (simp_all add: show_nat.simps digit_char_eval(1,2))
  show "show_nat (numeral k) =
     (if (numeral k :: nat) < 10 then [digit_char (numeral k)]
      else show_nat (numeral k div 10) @ [digit_char (numeral k mod 10)])"
    unfolding digit_char_mod by (rule show_nat.simps)
qed

lemma pad_dec_eval: "pad_dec (numeral k) n = pad_dec (pred_numeral k) (n div 10) @ [digit_char (n mod 10)]"
  unfolding digit_char_mod numeral_eq_Suc [of k] by (rule pad_dec.simps)

lemmas dec_eval = digit_char_eval show_nat_eval show_int_def pad_dec_eval

section \<open>Joins\<close>

lemma join_Cons: "xs \<noteq> [] \<Longrightarrow> join sep (x # xs) = x @ sep @ join sep xs"
  by (cases xs) auto

text \<open>
  A separator that occurs in no field but the first lets a join be taken apart from
  the right: only the first field may hold it.
\<close>

lemma split_at_last:
  assumes "a @ [c] @ b = a' @ [c] @ b'" and "c \<notin> set b" and "c \<notin> set b'"
  shows "a = a' \<and> b = b'"
  using assms
proof (induction b arbitrary: b' rule: rev_induct)
  case Nil
  then show ?case by (cases b' rule: rev_exhaust) auto
next
  case (snoc x xs)
  from snoc.prems obtain ys where ys: "b' = ys @ [x]"
    by (cases b' rule: rev_exhaust) auto
  with snoc.prems have "a @ [c] @ xs = a' @ [c] @ ys" and "c \<notin> set xs" "c \<notin> set ys"
    by auto
  from snoc.IH [OF this] ys show ?case by simp
qed

lemma join_inj_tail:
  assumes "length xs = length ys"
    and "join [c] (x # xs) = join [c] (y # ys)"
    and "\<forall>z \<in> set xs. c \<notin> set z" and "\<forall>z \<in> set ys. c \<notin> set z"
  shows "x = y \<and> xs = ys"
  using assms
proof (induction xs ys arbitrary: x y rule: list_induct2)
  case Nil
  then show ?case by simp
next
  case (Cons a as b bs)
  have inner: "join [c] ((x @ [c] @ a) # as) = join [c] ((y @ [c] @ b) # bs)"
  proof (cases "as = []")
    case True
    with Cons.hyps Cons.prems show ?thesis by simp
  next
    case False
    with Cons.hyps have "bs \<noteq> []" by auto
    with False Cons.prems show ?thesis by (simp add: join_Cons)
  qed
  with Cons.IH [of "x @ [c] @ a" "y @ [c] @ b"] Cons.prems
  have "x @ [c] @ a = y @ [c] @ b" and "as = bs" by auto
  moreover have "x = y \<and> a = b"
    using split_at_last [OF calculation(1)] Cons.prems by auto
  ultimately show ?case by simp
qed

end
