(* ===== verification/Js_Number.thy ===== *)
theory Js_Number
  imports Prelude
begin

text \<open>
  JavaScript numbers. A finite binary64 value is the rational it denotes, and every
  arithmetic operation of the sources is the exact rational operation followed by
  \<open>fl\<close>, rounding to the nearest binary64 value with ties to even, subnormals
  included. NaN and infinities are not numbers of the model: where the sources can meet
  NaN the model has \<open>None\<close>. The sign of zero is dropped; nothing the sources print
  or compare depends on it. \<open>Math.round\<close>, \<open>toFixed\<close> and \<open>parseInt\<close>
  follow the language specification.
\<close>

type_synonym number = rat

section \<open>Binary exponent\<close>

fun nlog2 :: "nat \<Rightarrow> nat" where
  "nlog2 n = (if n < 2 then 0 else Suc (nlog2 (n div 2)))"

declare nlog2.simps [simp del]

lemma nlog2_bounds: "0 < n \<Longrightarrow> 2 ^ nlog2 n \<le> n \<and> n < 2 ^ Suc (nlog2 n)"
proof (induction n rule: nlog2.induct)
  case (1 n)
  show ?case
  proof (cases "n < 2")
    case True
    with "1.prems" show ?thesis by (simp add: nlog2.simps [of n])
  next
    case False
    then have "2 ^ nlog2 (n div 2) \<le> n div 2 \<and> n div 2 < 2 ^ Suc (nlog2 (n div 2))"
      by (intro "1.IH") auto
    with False show ?thesis by (auto simp: nlog2.simps [of n])
  qed
qed

text \<open>Evaluation on numerals, for closed instances.\<close>

lemma nlog2_numeral [simp]:
  "nlog2 0 = 0" "nlog2 1 = 0" "nlog2 (Suc 0) = 0"
  "nlog2 (numeral (Num.Bit0 n)) = Suc (nlog2 (numeral n))"
  "nlog2 (numeral (Num.Bit1 n)) = Suc (nlog2 (numeral n))"
proof -
  have one: "(1::nat) \<le> numeral n" by (rule one_le_numeral)
  have two: "\<not> numeral (Num.Bit0 n) < (2::nat)" "\<not> numeral (Num.Bit1 n) < (2::nat)"
    unfolding numeral.simps using one by arith+
  show "nlog2 0 = 0" "nlog2 1 = 0" "nlog2 (Suc 0) = 0" by (simp_all add: nlog2.simps)
  show "nlog2 (numeral (Num.Bit0 n)) = Suc (nlog2 (numeral n))"
    and "nlog2 (numeral (Num.Bit1 n)) = Suc (nlog2 (numeral n))"
    using two by (simp_all add: nlog2.simps [of "numeral (Num.Bit0 n)"] nlog2.simps [of "numeral (Num.Bit1 n)"])
qed

definition flog2 :: "rat \<Rightarrow> int" where
  "flog2 q = (if 1 \<le> q then int (nlog2 (nat \<lfloor>q\<rfloor>)) else - int (nlog2 (nat (\<lceil>1 / q\<rceil> - 1))) - 1)"

lemma pow2_pos [simp]: "0 < (2::rat) powi k"
  by (simp add: zero_less_power_int)

lemma pow2_nat: "(2::rat) powi int n = 2 ^ n"
  by (simp add: power_int_def)

lemma nlog2_int_bounds:
  assumes "1 \<le> i"
  shows "2 ^ nlog2 (nat i) \<le> (of_int i :: rat)" and "(of_int i :: rat) + 1 \<le> 2 ^ Suc (nlog2 (nat i))"
proof -
  have "2 ^ nlog2 (nat i) \<le> nat i \<and> nat i < 2 ^ Suc (nlog2 (nat i))"
    using assms by (intro nlog2_bounds) simp
  then have "2 ^ nlog2 (nat i) \<le> i" and "i + 1 \<le> 2 ^ Suc (nlog2 (nat i))"
    using assms by (simp_all add: le_nat_iff nat_less_iff)
  then have "of_int (2 ^ nlog2 (nat i)) \<le> (of_int i :: rat)"
    and "of_int (i + 1) \<le> (of_int (2 ^ Suc (nlog2 (nat i))) :: rat)"
    by (simp_all only: of_int_le_iff)
  then show "2 ^ nlog2 (nat i) \<le> (of_int i :: rat)"
    and "(of_int i :: rat) + 1 \<le> 2 ^ Suc (nlog2 (nat i))" by simp_all
qed

lemma flog2_bounds:
  assumes "0 < q"
  shows "2 powi flog2 q \<le> q" and "q < 2 powi (flog2 q + 1)"
proof -
  have "2 powi flog2 q \<le> q \<and> q < 2 powi (flog2 q + 1)"
  proof (cases "1 \<le> q")
    case True
    let ?k = "nlog2 (nat \<lfloor>q\<rfloor>)"
    have "1 \<le> \<lfloor>q\<rfloor>" using True by simp
    note b = nlog2_int_bounds [OF this]
    have "2 ^ ?k \<le> q" using b(1) by linarith
    moreover have "q < 2 ^ Suc ?k" using b(2) by linarith
    moreover have "flog2 q = int ?k" using True by (simp add: flog2_def)
    ultimately show ?thesis using pow2_nat [of "Suc ?k"] by (simp add: pow2_nat add.commute)
  next
    case False
    let ?k = "nlog2 (nat (\<lceil>1 / q\<rceil> - 1))"
    have "1 < 1 / q" using False assms by simp
    then have "1 \<le> \<lceil>1 / q\<rceil> - 1" by linarith
    note b = nlog2_int_bounds [OF this]
    have "2 ^ ?k < 1 / q" using b(1) by linarith
    moreover have "1 / q \<le> 2 ^ Suc ?k" using b(2) by linarith
    ultimately have "1 / 2 ^ Suc ?k \<le> q" and "q < 1 / 2 ^ ?k"
      using assms by (simp_all add: field_simps)
    moreover have "flog2 q = - int (Suc ?k)" using False by (simp add: flog2_def)
    moreover have "(2::rat) powi (- int (Suc ?k)) = 1 / 2 ^ Suc ?k"
      using pow2_nat [of "Suc ?k"] by (simp only: power_int_minus inverse_eq_divide)
    moreover have "(2::rat) powi (- int (Suc ?k) + 1) = 1 / 2 ^ ?k"
      using pow2_nat [of ?k] by (simp add: power_int_minus inverse_eq_divide)
    ultimately show ?thesis by simp
  qed
  then show "2 powi flog2 q \<le> q" and "q < 2 powi (flog2 q + 1)" by auto
qed

lemma pow2_le: "i \<le> j \<Longrightarrow> (2::rat) powi i \<le> 2 powi j"
  by (rule power_int_increasing) auto

lemma pow2_less_iff: "(2::rat) powi i < 2 powi j \<longleftrightarrow> i < j"
  by (meson linorder_not_less one_less_numeral_iff pow2_le power_int_strict_increasing semiring_norm(76))

lemma flog2_mono: "0 < a \<Longrightarrow> a \<le> b \<Longrightarrow> flog2 a \<le> flog2 b"
  using flog2_bounds(1) [of a] flog2_bounds(2) [of b] pow2_less_iff [of "flog2 a" "flog2 b + 1"]
  by auto

lemma flog2_less: "0 < a \<Longrightarrow> a < 2 powi k \<Longrightarrow> flog2 a < k"
  using flog2_bounds(1) [of a] pow2_less_iff [of "flog2 a" k] by auto

lemma flog2_pow2 [simp]: "flog2 (2 powi k) = k"
proof -
  have "flog2 (2 powi k) < k + 1" by (rule flog2_less) (simp_all add: pow2_less_iff)
  moreover have "k < flog2 (2 powi k) + 1"
    using flog2_bounds(2) [of "2 powi k"] by (simp add: pow2_less_iff)
  ultimately show ?thesis by simp
qed

section \<open>Rounding half to even\<close>

definition rne :: "rat \<Rightarrow> int" where
  "rne q = (let f = \<lfloor>q\<rfloor>; r = q - of_int f in
            if r < 1 / 2 then f else if 1 / 2 < r then f + 1 else if even f then f else f + 1)"

lemma rne_of_int [simp]: "rne (of_int n) = n"
  by (simp add: rne_def)

lemma rne_err: "\<bar>of_int (rne q) - q\<bar> \<le> 1 / 2"
proof -
  have "of_int \<lfloor>q\<rfloor> \<le> q" "q < of_int \<lfloor>q\<rfloor> + 1" by linarith+
  then show ?thesis by (auto simp: rne_def Let_def)
qed

lemma rne_bounds: "\<lfloor>q\<rfloor> \<le> rne q" "rne q \<le> \<lfloor>q\<rfloor> + 1"
  by (auto simp: rne_def Let_def)

lemma rne_mono:
  assumes "a \<le> b"
  shows "rne a \<le> rne b"
proof (cases "\<lfloor>a\<rfloor> = \<lfloor>b\<rfloor>")
  case True
  with assms show ?thesis by (auto simp: rne_def Let_def)
next
  case False
  from assms have "\<lfloor>a\<rfloor> \<le> \<lfloor>b\<rfloor>" by (rule floor_mono)
  with False have "\<lfloor>a\<rfloor> + 1 \<le> \<lfloor>b\<rfloor>" by simp
  with rne_bounds(2) [of a] rne_bounds(1) [of b] show ?thesis by linarith
qed

lemma rne_minus: "rne (- q) = - rne q"
proof (cases "q = of_int \<lfloor>q\<rfloor>")
  case True
  then have "rne q = \<lfloor>q\<rfloor>" by (metis rne_of_int)
  moreover have "rne (- q) = - \<lfloor>q\<rfloor>" by (metis True of_int_minus rne_of_int)
  ultimately show ?thesis by simp
next
  case False
  have lt: "of_int \<lfloor>q\<rfloor> < q" using False by linarith
  have fm: "\<lfloor>- q\<rfloor> = - \<lfloor>q\<rfloor> - 1"
  proof (rule floor_unique)
    show "of_int (- \<lfloor>q\<rfloor> - 1) \<le> - q" by simp linarith
    show "- q < of_int (- \<lfloor>q\<rfloor> - 1) + 1" using lt by simp
  qed
  show ?thesis by (auto simp: rne_def Let_def fm)
qed

section \<open>Rounding to binary64\<close>

definition ulp_exp :: "rat \<Rightarrow> int" where
  "ulp_exp q = max (flog2 \<bar>q\<bar> - 52) (- 1074)"

definition fl :: "rat \<Rightarrow> number" where
  "fl q = (if q = 0 then 0 else of_int (rne (q / 2 powi ulp_exp q)) * 2 powi ulp_exp q)"

definition is_double :: "rat \<Rightarrow> bool" where
  "is_double q \<longleftrightarrow> fl q = q"

lemma fl_0 [simp, fl_simps]: "fl 0 = 0"
  by (simp add: fl_def)

lemma ulp_exp_minus [simp]: "ulp_exp (- q) = ulp_exp q"
  by (simp add: ulp_exp_def)

lemma fl_minus [fl_simps]: "fl (- q) = - fl q"
  by (simp add: fl_def rne_minus)

lemma fl_grid:
  assumes "q = of_int m * 2 powi e" and "ulp_exp q \<le> e"
  shows "fl q = q"
proof (cases "q = 0")
  case True
  then show ?thesis by simp
next
  case False
  define u where "u = ulp_exp q"
  define k where "k = nat (e - u)"
  have "(2::rat) powi e = 2 powi (e - u) * 2 powi u"
    by (simp add: power_int_add [symmetric])
  moreover have "(2::rat) powi (e - u) = of_int (2 ^ k)"
    using assms(2) by (simp add: power_int_def u_def k_def)
  ultimately have "q = of_int (m * 2 ^ k) * 2 powi u"
    using assms(1) by simp
  then have quot: "q / 2 powi u = of_int (m * 2 ^ k)"
    by (metis less_irrefl nonzero_mult_div_cancel_right pow2_pos)
  have "fl q = of_int (rne (q / 2 powi u)) * 2 powi u"
    using False by (simp add: fl_def u_def)
  also have "\<dots> = q / 2 powi u * 2 powi u"
    unfolding quot by (simp only: rne_of_int)
  finally show ?thesis by simp
qed

lemma fl_err: "\<bar>fl q - q\<bar> \<le> 2 powi (ulp_exp q - 1)"
proof (cases "q = 0")
  case True
  then show ?thesis by (simp add: power_int_diff)
next
  case False
  let ?p = "(2::rat) powi ulp_exp q"
  have "fl q - q = (of_int (rne (q / ?p)) - q / ?p) * ?p"
    using False by (simp add: fl_def algebra_simps)
  then have "\<bar>fl q - q\<bar> = \<bar>of_int (rne (q / ?p)) - q / ?p\<bar> * ?p"
    by (simp add: abs_mult)
  also have "\<dots> \<le> 1 / 2 * ?p" by (intro mult_right_mono rne_err) simp
  finally show ?thesis by (simp add: power_int_diff)
qed

lemma fl_le_pow2:
  assumes "0 < a" "a \<le> 2 powi k" "ulp_exp a \<le> k"
  shows "fl a \<le> 2 powi k"
proof -
  let ?u = "ulp_exp a"
  have split: "(2::rat) powi k = of_int (2 ^ nat (k - ?u)) * 2 powi ?u"
    using assms(3) power_int_add [of "2::rat" "k - ?u" ?u] by (simp add: power_int_def)
  have "a / 2 powi ?u \<le> of_int (2 ^ nat (k - ?u))"
    using assms(2) unfolding split by (simp add: pos_divide_le_eq)
  then have "rne (a / 2 powi ?u) \<le> 2 ^ nat (k - ?u)" by (metis rne_mono rne_of_int)
  then have "of_int (rne (a / 2 powi ?u)) \<le> (of_int (2 ^ nat (k - ?u)) :: rat)"
    by (simp only: of_int_le_iff)
  with assms(1) show ?thesis unfolding split by (simp add: fl_def)
qed

lemma fl_ge_pow2:
  assumes "0 < b"
  shows "2 powi ulp_exp b \<le> b \<Longrightarrow> 2 powi (max (flog2 b) (ulp_exp b)) \<le> fl b"
proof -
  assume ge: "2 powi ulp_exp b \<le> b"
  let ?u = "ulp_exp b" let ?k = "max (flog2 b) ?u"
  have split: "(2::rat) powi ?k = of_int (2 ^ nat (?k - ?u)) * 2 powi ?u"
    using power_int_add [of "2::rat" "?k - ?u" ?u] by (simp add: power_int_def)
  have "(2::rat) powi ?k \<le> b" using ge flog2_bounds(1) [OF assms] by (auto simp: max_def)
  then have "of_int (2 ^ nat (?k - ?u)) \<le> b / 2 powi ?u"
    unfolding split by (simp add: pos_le_divide_eq)
  then have "2 ^ nat (?k - ?u) \<le> rne (b / 2 powi ?u)" by (metis rne_mono rne_of_int)
  then have "(of_int (2 ^ nat (?k - ?u)) :: rat) \<le> of_int (rne (b / 2 powi ?u))"
    by (simp only: of_int_le_iff)
  with assms show "2 powi ?k \<le> fl b" unfolding split by (simp add: fl_def)
qed

lemma fl_mono_pos:
  assumes "0 < a" "a \<le> b"
  shows "fl a \<le> fl b"
proof (cases "ulp_exp a = ulp_exp b")
  case True
  have "rne (a / 2 powi ulp_exp a) \<le> rne (b / 2 powi ulp_exp a)"
    using assms by (intro rne_mono divide_right_mono) auto
  with assms True show ?thesis by (simp add: fl_def)
next
  case False
  have log: "flog2 a \<le> flog2 b" by (rule flog2_mono) (use assms in auto)
  with False assms have u: "ulp_exp b = flog2 b - 52" and lt: "flog2 a < flog2 b"
    by (auto simp: ulp_exp_def max_def split: if_splits)
  have "a < 2 powi (flog2 a + 1)" using assms by (intro flog2_bounds(2))
  also have "\<dots> \<le> 2 powi flog2 b" using lt by (intro pow2_le) simp
  finally have "fl a \<le> 2 powi flog2 b"
    using assms log u by (intro fl_le_pow2) (auto simp: ulp_exp_def)
  also have "\<dots> \<le> fl b"
  proof -
    have "2 powi ulp_exp b \<le> (2::rat) powi flog2 b" using u by (intro pow2_le) simp
    also have "\<dots> \<le> b" using assms by (intro flog2_bounds(1)) simp
    finally show ?thesis using fl_ge_pow2 [of b] u assms by simp
  qed
  finally show ?thesis .
qed

lemma fl_nonneg [fl_simps]: "0 \<le> q \<Longrightarrow> 0 \<le> fl q"
proof -
  assume "0 \<le> q"
  then have "0 \<le> rne (q / 2 powi ulp_exp q)"
    using rne_mono [of 0 "q / 2 powi ulp_exp q"] rne_of_int [of 0] by simp
  then show ?thesis by (simp add: fl_def)
qed

lemma fl_mono:
  assumes "a \<le> b"
  shows "fl a \<le> fl b"
proof -
  consider "0 < a" | "a \<le> 0" "0 \<le> b" | "b < 0" by linarith
  then show ?thesis
  proof cases
    case 1
    with assms show ?thesis by (intro fl_mono_pos)
  next
    case 2
    then show ?thesis using fl_nonneg [of b] fl_nonneg [of "- a"] by (simp add: fl_minus)
  next
    case 3
    with assms have "fl (- b) \<le> fl (- a)" by (intro fl_mono_pos) auto
    then show ?thesis by (simp add: fl_minus)
  qed
qed

text \<open>Small integers, and more generally multiples of a power of two, are exact.\<close>

lemma fl_int_small:
  assumes "\<bar>n\<bar> \<le> 2 ^ 53"
  shows "fl (of_int n) = of_int n"
proof (cases "\<bar>n\<bar> = 2 ^ 53")
  case True
  then have "\<bar>of_int n :: rat\<bar> = 2 powi 53" by (simp add: power_int_def flip: of_int_abs)
  then have "flog2 \<bar>of_int n :: rat\<bar> = 53" by (simp only: flog2_pow2)
  then have u: "ulp_exp (of_int n) \<le> 53" unfolding ulp_exp_def by simp
  have "of_int n = of_int (sgn n) * (2::rat) powi 53"
    using True by (simp add: power_int_def sgn_if split: if_splits) linarith+
  from fl_grid [OF this u] show ?thesis .
next
  case False
  show ?thesis
  proof (cases "n = 0")
    case True
    then show ?thesis by simp
  next
    case nz: False
    have "\<bar>n\<bar> < 2 ^ 53" using False assms by simp
    then have "of_int \<bar>n\<bar> < (of_int (2 ^ 53) :: rat)" by (simp only: of_int_less_iff)
    then have "\<bar>of_int n :: rat\<bar> < 2 powi 53" by (simp add: power_int_def)
    then have "flog2 \<bar>of_int n :: rat\<bar> < 53" using nz by (intro flog2_less) auto
    then show ?thesis
      by (intro fl_grid [where m = n and e = 0]) (auto simp: ulp_exp_def)
  qed
qed

lemma is_double_fl: "is_double (fl q)"
proof (cases "q = 0")
  case True
  then show ?thesis by (simp add: is_double_def)
next
  case False
  let ?u = "ulp_exp q" let ?m = "rne (q / 2 powi ulp_exp q)"
  have flq: "fl q = of_int ?m * 2 powi ?u" using False by (simp add: fl_def)
  have small: "\<bar>fl q\<bar> \<le> 2 powi (?u + 53)"
  proof -
    have "\<bar>q\<bar> < 2 powi (flog2 \<bar>q\<bar> + 1)" using False by (intro flog2_bounds(2)) simp
    also have "\<dots> \<le> 2 powi (?u + 53)" by (intro pow2_le) (simp add: ulp_exp_def)
    finally have "fl \<bar>q\<bar> \<le> 2 powi (?u + 53)"
      using False by (intro fl_le_pow2) (auto simp: ulp_exp_def)
    then show ?thesis using fl_nonneg [of "\<bar>q\<bar>"] by (cases "0 \<le> q") (auto simp: fl_minus)
  qed
  have "fl (fl q) = fl q"
  proof (cases "fl q = 0 \<or> \<bar>fl q\<bar> = 2 powi (?u + 53)")
    case True
    then consider "fl q = 0" | "\<bar>fl q\<bar> = 2 powi (?u + 53)" by blast
    then show ?thesis
    proof cases
      case 2
      then have "fl q = of_int (if 0 \<le> fl q then 1 else - 1) * 2 powi (?u + 53)" by auto
      moreover have "ulp_exp (fl q) \<le> ?u + 53" using 2 by (auto simp: ulp_exp_def)
      ultimately show ?thesis by (rule fl_grid)
    qed simp
  next
    case ne: False
    with small have "flog2 \<bar>fl q\<bar> < ?u + 53" by (intro flog2_less) auto
    then have "ulp_exp (fl q) \<le> ?u" by (simp add: ulp_exp_def [of "fl q"]) (simp add: ulp_exp_def)
    with flq show ?thesis by (rule fl_grid)
  qed
  then show ?thesis by (simp add: is_double_def)
qed

text \<open>Evaluation on closed fractions: \<open>simp add: fl_eval\<close>.\<close>

lemma floor_numeral_frac:
  "\<lfloor>numeral a / numeral b :: rat\<rfloor> = numeral a div numeral b"
  "\<lfloor>1 / numeral b :: rat\<rfloor> = 1 div numeral b"
  "\<lfloor>- (numeral a / numeral b) :: rat\<rfloor> = - numeral a div numeral b"
  "\<lfloor>- (1 / numeral b) :: rat\<rfloor> = - 1 div numeral b"
  using floor_divide_of_int_eq [of "numeral a" "numeral b", where ?'a = rat]
    floor_divide_of_int_eq [of 1 "numeral b", where ?'a = rat]
    floor_divide_of_int_eq [of "- numeral a" "numeral b", where ?'a = rat]
    floor_divide_of_int_eq [of "- 1" "numeral b", where ?'a = rat]
  by simp_all

lemma ceiling_numeral_frac:
  "\<lceil>numeral a / numeral b :: rat\<rceil> = - (- numeral a div numeral b)"
  by (simp add: ceiling_def floor_numeral_frac)

lemma fl_eval_pos:
  assumes "0 < q"
  shows "fl q = (let e = max (flog2 q - 52) (- 1074) in
                 if 0 \<le> e then of_int (rne (q / 2 ^ nat e)) * 2 ^ nat e
                 else of_int (rne (q * 2 ^ nat (- e))) / 2 ^ nat (- e))"
  using assms by (simp add: fl_def ulp_exp_def Let_def power_int_def divide_simps)

lemmas fl_eval = fl_eval_pos fl_minus flog2_def Let_def rne_def floor_numeral_frac ceiling_numeral_frac

lemma fl_fl [simp]: "fl (fl q) = fl q"
  using is_double_fl by (simp add: is_double_def)

lemma fl_err_small:
  assumes "\<bar>q\<bar> < 2 ^ 40"
  shows "\<bar>fl q - q\<bar> \<le> 1 / 2 ^ 14"
proof (cases "q = 0")
  case True
  then show ?thesis by simp
next
  case False
  with assms have "flog2 \<bar>q\<bar> < 40" by (intro flog2_less) (auto simp: power_int_def)
  then have "ulp_exp q - 1 \<le> - 14" by (simp add: ulp_exp_def)
  then have "(2::rat) powi (ulp_exp q - 1) \<le> 2 powi (- 14)" by (rule pow2_le)
  also have "(2::rat) powi (- 14) = 1 / 2 ^ 14" by (simp add: power_int_def power_one_over)
  finally show ?thesis using fl_err [of q] by simp
qed


lemma fl_err_44:
  assumes "\<bar>q\<bar> < 2 ^ 44"
  shows "\<bar>fl q - q\<bar> \<le> 1 / 2 ^ 10"
proof (cases "q = 0")
  case True
  then show ?thesis by simp
next
  case False
  with assms have "flog2 \<bar>q\<bar> < 44" by (intro flog2_less) (auto simp: power_int_def)
  then have "ulp_exp q - 1 \<le> - 10" by (simp add: ulp_exp_def)
  then have "(2::rat) powi (ulp_exp q - 1) \<le> 2 powi (- 10)" by (rule pow2_le)
  also have "(2::rat) powi (- 10) = 1 / 2 ^ 10" by (simp add: power_int_def power_one_over)
  finally show ?thesis using fl_err [of q] by simp
qed

text \<open>Dividing milliseconds by 1000 and taking the floor is exact on every time value.\<close>

lemma floor_fl_seconds:
  assumes "0 \<le> t" and "t \<le> 2 ^ 53"
  shows "\<lfloor>fl (of_int t / 1000)\<rfloor> = t div 1000"
proof -
  define q where "q = t div 1000"
  have t: "1000 * q \<le> t" "t \<le> 1000 * q + 999" by (simp_all add: q_def)
  then have q: "0 \<le> q" "q \<le> 9007199254741" using assms by simp_all
  have tr: "1000 * (of_int q :: rat) \<le> of_int t" "of_int t \<le> 1000 * (of_int q :: rat) + 999"
    using of_int_le_iff [of "1000 * q" t, where ?'a = rat] of_int_le_iff [of t "1000 * q + 999", where ?'a = rat] t
    by simp_all
  have qr: "0 \<le> (of_int q :: rat)" "(of_int q :: rat) \<le> 9007199254741"
    using q of_int_le_iff [of q 9007199254741, where ?'a = rat] by simp_all
  have lo: "of_int q \<le> fl (of_int t / 1000)"
  proof -
    have "fl (of_int q) \<le> fl (of_int t / 1000)" using tr by (intro fl_mono) simp
    moreover have "fl (of_int q) = of_int q" using q by (intro fl_int_small) simp
    ultimately show ?thesis by simp
  qed
  have x: "of_int t / 1000 \<le> (of_int q :: rat) + 999 / 1000" "0 \<le> (of_int t / 1000 :: rat)"
    using tr qr by simp_all
  then have "\<bar>of_int t / 1000 :: rat\<bar> < 2 ^ 44" using qr by simp
  from abs_le_D1 [OF fl_err_44 [OF this]] have "fl (of_int t / 1000) \<le> of_int t / 1000 + 1 / 1024"
    by simp
  with x(1) have "fl (of_int t / 1000) < of_int q + 1" by simp
  with lo show ?thesis unfolding q_def [symmetric] by (intro floor_unique) simp_all
qed

section \<open>The library functions on numbers\<close>

text \<open>
  \<open>Math.round\<close> takes the nearest integer, ties towards plus infinity, with no
  intermediate rounding; the result is a number of the same magnitude.
\<close>

definition Math_round :: "number \<Rightarrow> int" where
  "Math_round x = \<lfloor>x + 1 / 2\<rfloor>"

text \<open>
  \<open>toFixed(f)\<close> for \<open>|x| < 10^21\<close>: the integer \<open>n\<close> with \<open>n / 10^f\<close>
  nearest to \<open>|x|\<close>, the larger of two, printed with \<open>f\<close> decimals, and a minus sign when
  \<open>x < 0\<close> (so a small negative value prints as \<open>-0.0\<close>).
\<close>

definition fixed_digits :: "nat \<Rightarrow> nat \<Rightarrow> js_string" where
  "fixed_digits f n =
     (if f = 0 then show_nat n
      else show_nat (n div 10 ^ f) @ ''.'' @ pad_dec f (n mod 10 ^ f))"

definition toFixed :: "number \<Rightarrow> nat \<Rightarrow> js_string" where
  "toFixed x f =
     (if x < 0 then ''-'' else []) @ fixed_digits f (nat \<lfloor>\<bar>x\<bar> * 10 ^ f + 1 / 2\<rfloor>)"

text \<open>
  \<open>parseInt(s, 10)\<close>: leading white space, an optional sign, the longest run of digits
  (\<open>None\<close> is NaN, when there is no digit), rounded to a number.
\<close>

fun parse_sign :: "js_string \<Rightarrow> int \<times> js_string" where
  "parse_sign (c # cs) =
     (if c = CHR ''-'' then (- 1, cs) else if c = CHR ''+'' then (1, cs) else (1, c # cs))"
| "parse_sign [] = (1, [])"

definition parseInt :: "js_string \<Rightarrow> number option" where
  "parseInt s =
     (let (sg, rest) = parse_sign (dropWhile is_space s); ds = takeWhile is_digit rest
      in if ds = [] then None else Some (fl (of_int (sg * int (undec ds)))))"

lemma Math_round_of_int [simp]: "Math_round (of_int n) = n"
  unfolding Math_round_def by (rule floor_unique) auto

lemma Math_round_mono: "x \<le> y \<Longrightarrow> Math_round x \<le> Math_round y"
  unfolding Math_round_def by (intro floor_mono) simp

lemma Math_round_near: "\<bar>x - of_int n\<bar> < 1 / 2 \<Longrightarrow> Math_round x = n"
  unfolding Math_round_def by (rule floor_unique; linarith)

lemma digit_not_space: "is_digit c \<Longrightarrow> \<not> is_space c"
  by (auto simp: is_digit_def is_space_def less_eq_char_nat Let_def)

lemma parseInt_pad_dec:
  assumes "0 < w" and "w \<le> 15" and "\<not> is_digit (hd (rest @ ''x''))"
  shows "parseInt (pad_dec w n @ rest) = Some (of_nat (n mod 10 ^ w))"
proof -
  obtain c cs where c: "pad_dec w n = c # cs"
    using assms(1) by (metis length_greater_0_conv length_pad_dec list.exhaust)
  then have dc: "is_digit c" using pad_dec_digits [of c w n] by simp
  then have nc: "c \<noteq> CHR ''-''" "c \<noteq> CHR ''+''" by auto
  have dw: "dropWhile is_space (pad_dec w n @ rest) = pad_dec w n @ rest"
    using dc by (simp add: c digit_not_space)
  have sg: "parse_sign (pad_dec w n @ rest) = (1, pad_dec w n @ rest)"
    using nc by (simp add: c)
  have tw: "takeWhile is_digit (pad_dec w n @ rest) = pad_dec w n"
    using assms(3) pad_dec_digits [of _ w n]
    by (cases rest) (auto simp: takeWhile_append)
  have "n mod 10 ^ w < 10 ^ w" by simp
  also have "\<dots> \<le> (10::nat) ^ 15" using assms(2) by (intro power_increasing) auto
  finally have small: "\<bar>int (n mod 10 ^ w)\<bar> \<le> 2 ^ 53" by simp
  have "pad_dec w n \<noteq> []" using c by simp
  then show ?thesis
    using fl_int_small [OF small] by (simp add: parseInt_def dw sg tw)
qed

lemma fixed_digits_inj: "fixed_digits f m = fixed_digits f n \<longleftrightarrow> m = n"
proof
  assume eq: "fixed_digits f m = fixed_digits f n"
  show "m = n"
  proof (cases "f = 0")
    case True
    with eq show ?thesis by (simp add: fixed_digits_def)
  next
    case False
    let ?a = "show_nat (m div 10 ^ f)" and ?b = "show_nat (n div 10 ^ f)"
    have "?a @ [CHR ''.''] @ pad_dec f (m mod 10 ^ f) = ?b @ [CHR ''.''] @ pad_dec f (n mod 10 ^ f)"
      using eq False by (simp add: fixed_digits_def)
    then have "?a = ?b \<and> pad_dec f (m mod 10 ^ f) = pad_dec f (n mod 10 ^ f)"
      by (rule split_at_last) (metis minus_not_digit(2) pad_dec_digits)+
    then have "m div 10 ^ f = n div 10 ^ f" and "m mod 10 ^ f = n mod 10 ^ f"
      by (auto simp: pad_dec_inj)
    then show ?thesis by (metis div_mult_mod_eq)
  qed
qed simp

lemma fixed_digits_chars:
  "c \<in> set (fixed_digits f n) \<Longrightarrow> is_digit c \<or> c = CHR ''.''"
  by (auto simp: fixed_digits_def dest: show_nat_digits pad_dec_digits split: if_splits)

lemma toFixed_no_bar: "CHR ''|'' \<notin> set (toFixed x f)"
  using fixed_digits_chars [of "CHR ''|''" f] by (auto simp: toFixed_def)

end
