(* ===== verification/Js_Value.thy ===== *)
theory Js_Value
  imports Js_Number "HOL-Library.Monad_Syntax"
begin

text \<open>
  JavaScript values as a request body holds them, and the schema combinators of zod that the
  sources use, read as documented: a schema is a function from values to the parsed value, with
  \<open>None\<close> for a failed \<open>parse\<close> (the texts of the issues are zod's and are not modelled).
  Objects are association lists with distinct keys. Format checks that zod implements itself
  (date-time strings, e-mail addresses) are parameters of the schemas that use them.
\<close>

section \<open>Values\<close>

datatype jsval =
    JUndefined
  | JNull
  | JBool bool
  | JNum number
  | JStr js_string
  | JArr "jsval list"
  | JObj "(js_string \<times> jsval) list"

text \<open>\<open>o[k]\<close> on an object's own properties, and \<open>k in o\<close>.\<close>

definition get :: "(js_string \<times> jsval) list \<Rightarrow> js_string \<Rightarrow> jsval" where
  "get kvs k = (case map_of kvs k of Some v \<Rightarrow> v | None \<Rightarrow> JUndefined)"

definition has_key :: "(js_string \<times> jsval) list \<Rightarrow> js_string \<Rightarrow> bool" where
  "has_key kvs k \<longleftrightarrow> list_ex (\<lambda>p. fst p = k) kvs"

definition without_keys :: "js_string list \<Rightarrow> (js_string \<times> jsval) list \<Rightarrow> (js_string \<times> jsval) list" where
  "without_keys ks kvs = filter (\<lambda>(k, v). k \<notin> set ks) kvs"

text \<open>\<open>a ?? b\<close>.\<close>

definition nullish :: "jsval \<Rightarrow> jsval \<Rightarrow> jsval" where
  "nullish a b = (if a = JUndefined \<or> a = JNull then b else a)"

text \<open>JavaScript's \<open>!v\<close>.\<close>

definition falsy :: "jsval \<Rightarrow> bool" where
  "falsy v \<longleftrightarrow> v \<in> {JUndefined, JNull, JBool False, JNum 0, JStr []}"

text \<open>A key that is present only when its value is defined.\<close>

definition opt_field :: "js_string \<Rightarrow> jsval option \<Rightarrow> (js_string \<times> jsval) list" where
  "opt_field k v = (case v of Some x \<Rightarrow> [(k, x)] | None \<Rightarrow> [])"

lemma opt_field_simps [simp]:
  "opt_field k None = []" "opt_field k (Some x) = [(k, x)]"
  by (simp_all add: opt_field_def)

lemma list_all_opt_field: "list_all f (opt_field k v) \<longleftrightarrow> pred_option (\<lambda>x. f (k, x)) v"
  by (cases v) auto

text \<open>A possibly undefined value.\<close>

definition opt_val :: "('a \<Rightarrow> jsval) \<Rightarrow> 'a option \<Rightarrow> jsval" where
  "opt_val f v = (case v of Some x \<Rightarrow> f x | None \<Rightarrow> JUndefined)"

lemma opt_val_simps [simp]: "opt_val f None = JUndefined" "opt_val f (Some x) = f x"
  by (simp_all add: opt_val_def)

lemma get_opt_field:
  "get (opt_field k (map_option f v)) k' = (if k = k' then opt_val f v else JUndefined)"
  "has_key (opt_field k (map_option f v)) k' \<longleftrightarrow> k = k' \<and> v \<noteq> None"
  by (cases v; simp add: get_def has_key_def opt_val_def)+

lemma has_key_iff: "has_key kvs k \<longleftrightarrow> (\<exists>v. (k, v) \<in> set kvs)"
  by (auto simp: has_key_def list_ex_iff intro!: bexI)

lemma get_simps [simp]:
  "get [] k = JUndefined"
  "get ((k', v) # kvs) k = (if k' = k then v else get kvs k)"
  by (auto simp: get_def)

lemma has_key_simps [simp]:
  "\<not> has_key [] k" "has_key ((k', v) # kvs) k \<longleftrightarrow> k' = k \<or> has_key kvs k"
  by (auto simp: has_key_def)

lemma get_no_key: "\<not> has_key kvs k \<Longrightarrow> get kvs k = JUndefined"
  by (induction kvs) auto

lemma has_key_append [simp]: "has_key (xs @ ys) k \<longleftrightarrow> has_key xs k \<or> has_key ys k"
  by (simp add: has_key_def)

lemma get_append: "get (xs @ ys) k = (if has_key xs k then get xs k else get ys k)"
  by (induction xs) auto

section \<open>Schemas\<close>

type_synonym 'a schema = "jsval \<Rightarrow> 'a option"

definition z_string :: "nat \<Rightarrow> nat \<Rightarrow> js_string schema" where
  "z_string lo hi v =
     (case v of JStr s \<Rightarrow> if lo \<le> length s \<and> length s \<le> hi then Some s else None | _ \<Rightarrow> None)"

definition z_format :: "(js_string \<Rightarrow> bool) \<Rightarrow> js_string schema" where
  "z_format ok v = (case v of JStr s \<Rightarrow> if ok s then Some s else None | _ \<Rightarrow> None)"

definition z_number :: "number \<Rightarrow> number \<Rightarrow> number schema" where
  "z_number lo hi v =
     (case v of JNum x \<Rightarrow> if lo \<le> x \<and> x \<le> hi then Some x else None | _ \<Rightarrow> None)"

text \<open>\<open>z.number().int()\<close> accepts the safe integers; \<open>hi\<close> is at most \<open>2^53 - 1\<close>.\<close>

definition z_int :: "int \<Rightarrow> int \<Rightarrow> int schema" where
  "z_int lo hi v =
     (case v of JNum x \<Rightarrow> if x = of_int \<lfloor>x\<rfloor> \<and> lo \<le> \<lfloor>x\<rfloor> \<and> \<lfloor>x\<rfloor> \<le> hi then Some \<lfloor>x\<rfloor> else None
              | _ \<Rightarrow> None)"

definition z_enum :: "js_string list \<Rightarrow> js_string schema" where
  "z_enum options v = (case v of JStr s \<Rightarrow> if s \<in> set options then Some s else None | _ \<Rightarrow> None)"

definition z_literal :: "js_string \<Rightarrow> unit schema" where
  "z_literal l v = (if v = JStr l then Some () else None)"

definition z_optional :: "'a schema \<Rightarrow> 'a option schema" where
  "z_optional p v = (if v = JUndefined then Some None else map_option Some (p v))"

text \<open>\<open>z.object(\<dots>).strict()\<close>: an object with no key outside the shape; the fields are parsed
  by the schema that calls it.\<close>

definition z_strict :: "js_string list \<Rightarrow> (js_string \<times> jsval) list schema" where
  "z_strict ks v =
     (case v of JObj kvs \<Rightarrow> if list_all (\<lambda>(k, x). k \<in> set ks) kvs then Some kvs else None | _ \<Rightarrow> None)"

definition z_array :: "'a schema \<Rightarrow> nat \<Rightarrow> nat \<Rightarrow> 'a list schema" where
  "z_array p lo hi v =
     (case v of JArr vs \<Rightarrow> if lo \<le> length vs \<and> length vs \<le> hi then those (map p vs) else None
              | _ \<Rightarrow> None)"

definition z_refine :: "('a \<Rightarrow> bool) \<Rightarrow> 'a schema \<Rightarrow> 'a schema" where
  "z_refine ok p v = (case p v of Some x \<Rightarrow> if ok x then Some x else None | None \<Rightarrow> None)"

text \<open>The largest safe integer.\<close>

definition MAX_SAFE_INTEGER :: int where
  "MAX_SAFE_INTEGER = 2 ^ 53 - 1"

named_theorems z_accepts \<open>what an accepted value is\<close>

lemma z_string_Some [z_accepts]: "z_string lo hi v = Some s \<longleftrightarrow> v = JStr s \<and> lo \<le> length s \<and> length s \<le> hi"
  by (auto simp: z_string_def split: jsval.splits)

lemma z_format_Some [z_accepts]: "z_format ok v = Some s \<longleftrightarrow> v = JStr s \<and> ok s"
  by (auto simp: z_format_def split: jsval.splits)

lemma z_number_Some [z_accepts]: "z_number lo hi v = Some x \<longleftrightarrow> v = JNum x \<and> lo \<le> x \<and> x \<le> hi"
  by (auto simp: z_number_def split: jsval.splits)

lemma z_int_Some [z_accepts]: "z_int lo hi v = Some i \<longleftrightarrow> v = JNum (of_int i) \<and> lo \<le> i \<and> i \<le> hi"
proof
  assume "z_int lo hi v = Some i"
  then obtain x where x: "v = JNum x" "x = of_int \<lfloor>x\<rfloor>" "lo \<le> \<lfloor>x\<rfloor>" "\<lfloor>x\<rfloor> \<le> hi" "i = \<lfloor>x\<rfloor>"
    by (auto simp: z_int_def split: jsval.splits if_splits)
  then show "v = JNum (of_int i) \<and> lo \<le> i \<and> i \<le> hi" by simp
qed (simp add: z_int_def)

lemma z_enum_Some [z_accepts]: "z_enum us v = Some s \<longleftrightarrow> v = JStr s \<and> s \<in> set us"
  by (auto simp: z_enum_def split: jsval.splits)

lemma z_literal_Some [z_accepts]: "z_literal l v = Some u \<longleftrightarrow> v = JStr l"
  by (auto simp: z_literal_def)

lemma z_optional_Some [z_accepts]:
  "z_optional p v = Some r \<longleftrightarrow>
     (v = JUndefined \<and> r = None) \<or> (v \<noteq> JUndefined \<and> (\<exists>x. p v = Some x \<and> r = Some x))"
  by (auto simp: z_optional_def)

lemma z_strict_Some [z_accepts]:
  "z_strict ks v = Some kvs \<longleftrightarrow> v = JObj kvs \<and> (\<forall>k. has_key kvs k \<longrightarrow> k \<in> set ks)"
  by (auto simp: z_strict_def list_all_iff has_key_iff split: jsval.splits)

lemma those_Some: "those xs = Some ys \<longleftrightarrow> xs = map Some ys"
  by (induction xs arbitrary: ys) (auto split: option.splits)

lemma z_array_Some [z_accepts]:
  "z_array p lo hi v = Some xs \<longleftrightarrow>
     (\<exists>vs. v = JArr vs \<and> lo \<le> length vs \<and> length vs \<le> hi \<and> map p vs = map Some xs)"
  by (auto simp: z_array_def those_Some split: jsval.splits)

lemma z_refine_Some [z_accepts]: "z_refine ok p v = Some x \<longleftrightarrow> p v = Some x \<and> ok x"
  by (auto simp: z_refine_def split: option.splits)

lemma z_optional_undefined [simp]: "z_optional p JUndefined = Some None"
  by (simp add: z_optional_def)

text \<open>The bounds an accepted value satisfies, one rule for each kind of field.\<close>

named_theorems z_bounds \<open>bounds of an accepted value\<close>

lemma z_field_bounds [z_bounds]:
  "z_string lo hi v = Some s \<Longrightarrow> length s \<in> {lo..hi}"
  "z_format ok v = Some s \<Longrightarrow> ok s"
  "z_number a b v = Some x \<Longrightarrow> x \<in> {a..b}"
  "z_int c d v = Some i \<Longrightarrow> i \<in> {c..d}"
  "z_enum us v = Some s \<Longrightarrow> s \<in> set us"
  by (auto simp: z_accepts)

lemma z_optional_bounds [z_bounds]:
  "z_optional (z_string lo hi) v = Some w \<Longrightarrow> pred_option (\<lambda>s. length s \<in> {lo..hi}) w"
  "z_optional (z_number a b) v = Some w' \<Longrightarrow> pred_option (\<lambda>x. x \<in> {a..b}) w'"
  "z_optional (z_int c d) v = Some w'' \<Longrightarrow> pred_option (\<lambda>i. i \<in> {c..d}) w''"
  by (auto simp: z_accepts)

text \<open>Schemas on printed values.\<close>

lemma z_printed [simp]:
  "z_string lo hi (JStr s) = (if lo \<le> length s \<and> length s \<le> hi then Some s else None)"
  "z_format ok (JStr s) = (if ok s then Some s else None)"
  "z_number a b (JNum x) = (if a \<le> x \<and> x \<le> b then Some x else None)"
  "z_int c d (JNum (of_int i)) = (if c \<le> i \<and> i \<le> d then Some i else None)"
  "z_literal l (JStr l) = Some ()"
  "z_enum us (JStr s) = (if s \<in> set us then Some s else None)"
  by (simp_all add: z_string_def z_format_def z_number_def z_int_def z_literal_def z_enum_def)

lemma z_optional_printed:
  "z_optional (z_string lo hi) (opt_val JStr v)
     = (if pred_option (\<lambda>s. lo \<le> length s \<and> length s \<le> hi) v then Some v else None)"
  "z_optional (z_number a b) (opt_val JNum u) = (if pred_option (\<lambda>x. a \<le> x \<and> x \<le> b) u then Some u else None)"
  "z_optional (z_int c d) (opt_val (\<lambda>i. JNum (of_int i)) w)
     = (if pred_option (\<lambda>i. c \<le> i \<and> i \<le> d) w then Some w else None)"
  by (cases v; cases u; cases w; simp add: opt_val_def z_optional_def)+

lemma z_optional_printed_by:
  assumes "\<And>x. v = Some x \<Longrightarrow> f x \<noteq> JUndefined \<and> p (f x) = Some x"
  shows "z_optional p (opt_val f v) = Some v"
  using assms by (cases v) (simp_all add: opt_val_def z_optional_def)

end
