(* ===== verification/Club_Code.thy ===== *)
theory Club_Code
  imports Prelude
begin

text \<open>
  \<open>shared/domain/club-code.ts\<close>: the canonical club codes, the alias table and
  \<open>normaliseClub\<close>. The alias table is a JavaScript object literal, so indexing it also
  finds what every object inherits from \<open>Object.prototype\<close>; of the inherited names only
  \<open>constructor\<close> and \<open>__proto__\<close> survive lower-casing, and both are truthy. A result is
  therefore either a code or one of these members.
\<close>

definition VALID_CLUB_CODES :: "js_string list" where
  "VALID_CLUB_CODES =
     [''DR'', ''3W'', ''4W'', ''5W'', ''7W'', ''2H'', ''3H'', ''4H'', ''5H'',
      ''1I'', ''2I'', ''3I'', ''4I'', ''5I'', ''6I'', ''7I'', ''8I'', ''9I'',
      ''PW'', ''GW'', ''AW'', ''SW'', ''LW'', ''PT'', ''UNKNOWN'']"

datatype club_code = Club js_string | Inherited js_string

definition ALIAS_MAP :: "(js_string \<times> js_string) list" where
  "ALIAS_MAP =
     [(''driver'', ''DR''),
      (''3 wood'', ''3W''), (''4 wood'', ''4W''), (''5 wood'', ''5W''), (''7 wood'', ''7W''),
      (''3wood'', ''3W''), (''4wood'', ''4W''), (''5wood'', ''5W''), (''7wood'', ''7W''),
      (''2 hybrid'', ''2H''), (''3 hybrid'', ''3H''), (''4 hybrid'', ''4H''), (''5 hybrid'', ''5H''),
      (''2hybrid'', ''2H''), (''3hybrid'', ''3H''), (''4hybrid'', ''4H''), (''5hybrid'', ''5H''),
      (''1 iron'', ''1I''), (''2 iron'', ''2I''), (''3 iron'', ''3I''), (''4 iron'', ''4I''),
      (''5 iron'', ''5I''), (''6 iron'', ''6I''), (''7 iron'', ''7I''), (''8 iron'', ''8I''),
      (''9 iron'', ''9I''),
      (''1iron'', ''1I''), (''2iron'', ''2I''), (''3iron'', ''3I''), (''4iron'', ''4I''),
      (''5iron'', ''5I''), (''6iron'', ''6I''), (''7iron'', ''7I''), (''8iron'', ''8I''),
      (''9iron'', ''9I''),
      (''pitching wedge'', ''PW''), (''gap wedge'', ''GW''), (''approach wedge'', ''AW''),
      (''sand wedge'', ''SW''), (''lob wedge'', ''LW''),
      (''putter'', ''PT'')]"

text \<open>Names of \<open>Object.prototype\<close> members that are lower case.\<close>

definition inherited_names :: "js_string list" where
  "inherited_names = [''constructor'', ''__proto__'']"

text \<open>\<open>ALIAS_MAP[key]\<close>: an own entry, else an inherited member, else undefined.\<close>

definition alias_lookup :: "js_string \<Rightarrow> club_code option" where
  "alias_lookup key =
     (case map_of ALIAS_MAP key of
        Some c \<Rightarrow> Some (Club c)
      | None \<Rightarrow> if key \<in> set inherited_names then Some (Inherited key) else None)"

text \<open>The match against \<open>/^I(\d)$/\<close>: the digit.\<close>

fun inverted_iron :: "js_string \<Rightarrow> char option" where
  "inverted_iron [i, d] = (if i = CHR ''I'' \<and> is_digit d then Some d else None)"
| "inverted_iron _ = None"

definition normaliseClub :: "js_string \<Rightarrow> club_code" where
  "normaliseClub raw =
     (if raw = [] then Club ''UNKNOWN''
      else
        let upper = toUpperCase (trim raw) in
        if upper \<in> set VALID_CLUB_CODES then Club upper
        else
          (case inverted_iron upper of
             Some d \<Rightarrow>
               if [d, CHR ''I''] \<in> set VALID_CLUB_CODES then Club [d, CHR ''I'']
               else (case alias_lookup (toLowerCase (trim raw)) of Some c \<Rightarrow> c | None \<Rightarrow> Club ''UNKNOWN'')
           | None \<Rightarrow>
               (case alias_lookup (toLowerCase (trim raw)) of Some c \<Rightarrow> c | None \<Rightarrow> Club ''UNKNOWN'')))"

text \<open>The string a club code has in a template or a join.\<close>

fun club_string :: "club_code \<Rightarrow> js_string" where
  "club_string (Club c) = c"
| "club_string (Inherited k) =
     (if k = ''constructor'' then ''function Object() { [native code] }'' else ''[object Object]'')"

fun valid_club :: "club_code \<Rightarrow> bool" where
  "valid_club (Club c) = (c \<in> set VALID_CLUB_CODES)"
| "valid_club (Inherited k) = False"

section \<open>Lemmas\<close>

lemma upper_lower_char: "upper_char (lower_char c) = upper_char c"
  and lower_upper_char: "lower_char (upper_char c) = lower_char c"
  and upper_upper_char: "upper_char (upper_char c) = upper_char c"
  and lower_lower_char: "lower_char (lower_char c) = lower_char c"
proof -
  have nat_lt: "(of_char c :: nat) < 256" by simp
  show "upper_char (lower_char c) = upper_char c" "lower_char (upper_char c) = lower_char c"
    "upper_char (upper_char c) = upper_char c" "lower_char (lower_char c) = lower_char c"
    using nat_lt
    by (auto simp: upper_char_def lower_char_def is_upper_def is_lower_def less_eq_char_nat)
qed

lemma is_space_case: "is_space (upper_char c) = is_space c" "is_space (lower_char c) = is_space c"
  by (auto simp: upper_char_def lower_char_def is_upper_def is_lower_def less_eq_char_nat is_space_def Let_def)

lemma trim_map:
  assumes "\<And>c. is_space (f c) = is_space c"
  shows "trim (map f s) = map f (trim s)"
proof -
  have "dropWhile is_space (map f xs) = map f (dropWhile is_space xs)" for xs
    by (induction xs) (auto simp: assms)
  then show ?thesis by (simp add: trim_def rev_map)
qed

lemma trim_case [simp]:
  "trim (toUpperCase s) = toUpperCase (trim s)" "trim (toLowerCase s) = toLowerCase (trim s)"
  by (simp_all add: toUpperCase_def toLowerCase_def trim_map is_space_case)

lemma case_case [simp]:
  "toUpperCase (toUpperCase s) = toUpperCase s" "toUpperCase (toLowerCase s) = toUpperCase s"
  "toLowerCase (toUpperCase s) = toLowerCase s" "toLowerCase (toLowerCase s) = toLowerCase s"
  by (simp_all add: toUpperCase_def toLowerCase_def upper_lower_char lower_upper_char
      upper_upper_char lower_lower_char)

lemma case_Nil [simp]: "toUpperCase s = [] \<longleftrightarrow> s = []" "toLowerCase s = [] \<longleftrightarrow> s = []"
  by (simp_all add: toUpperCase_def toLowerCase_def)

lemma alias_codes_valid: "(k, c) \<in> set ALIAS_MAP \<Longrightarrow> c \<in> set VALID_CLUB_CODES"
  by (auto simp: ALIAS_MAP_def VALID_CLUB_CODES_def)

lemma alias_map_valid: "map_of ALIAS_MAP k = Some c \<Longrightarrow> c \<in> set VALID_CLUB_CODES"
  using map_of_SomeD alias_codes_valid by metis

lemma alias_lookup_valid:
  "alias_lookup k = Some c \<Longrightarrow> k \<notin> set inherited_names \<Longrightarrow> valid_club c"
  by (auto simp: alias_lookup_def alias_map_valid split: option.splits if_splits)

lemma unknown_valid: "''UNKNOWN'' \<in> set VALID_CLUB_CODES"
  by (simp add: VALID_CLUB_CODES_def)

text \<open>White space and the empty string reach the alias table's miss, so the guard on an
  empty \<open>raw\<close> agrees with the rest of the function.\<close>

lemma normaliseClub_cases:
  "normaliseClub raw =
     (let upper = toUpperCase (trim raw);
          alias = (case alias_lookup (toLowerCase (trim raw)) of Some c \<Rightarrow> c | None \<Rightarrow> Club ''UNKNOWN'')
      in if upper \<in> set VALID_CLUB_CODES then Club upper
         else (case inverted_iron upper of
                 Some d \<Rightarrow> if [d, CHR ''I''] \<in> set VALID_CLUB_CODES then Club [d, CHR ''I''] else alias
               | None \<Rightarrow> alias))"
proof (cases "raw = []")
  case True
  have "alias_lookup [] = None" by (simp add: alias_lookup_def ALIAS_MAP_def inherited_names_def)
  moreover have "[] \<notin> set VALID_CLUB_CODES" by (simp add: VALID_CLUB_CODES_def)
  ultimately show ?thesis using True by (simp add: normaliseClub_def toUpperCase_def toLowerCase_def)
next
  case False
  then show ?thesis by (simp add: normaliseClub_def Let_def)
qed

lemma normaliseClub_code:
  assumes "toLowerCase (trim raw) \<notin> set inherited_names"
  shows "valid_club (normaliseClub raw)"
  using assms unknown_valid
  by (auto simp: normaliseClub_cases Let_def split: option.splits dest: alias_lookup_valid)

section \<open>Properties\<close>

text \<open>C29: whatever string a vendor sends, the normalised club is a canonical code, unless the
  string, trimmed and lower-cased, is one of the two names every JavaScript object inherits.\<close>

theorem normaliseClub_valid:
  assumes "toLowerCase (trim raw) \<notin> set inherited_names"
  shows "valid_club (normaliseClub raw)"
  using assms by (rule normaliseClub_code)

theorem normaliseClub_valid_witness:
  "toLowerCase (trim '' I7 '') \<notin> set inherited_names \<and> valid_club (normaliseClub '' I7 '')"
proof -
  have h: "toLowerCase (trim '' I7 '') \<notin> set inherited_names" by code_simp
  from h normaliseClub_valid [OF h] show ?thesis by blast
qed

text \<open>Normalisation ignores ASCII case and surrounding white space, and leaves every
  canonical code as it is.\<close>

theorem normaliseClub_insensitive:
  "normaliseClub (toUpperCase raw) = normaliseClub raw
   \<and> normaliseClub (toLowerCase raw) = normaliseClub raw
   \<and> normaliseClub (trim raw) = normaliseClub raw
   \<and> list_all (\<lambda>c. normaliseClub c = Club c) VALID_CLUB_CODES"
proof -
  have "list_all (\<lambda>c. normaliseClub c = Club c) VALID_CLUB_CODES" by code_simp
  then show ?thesis by (simp add: normaliseClub_cases)
qed

text \<open>A club called \<open>constructor\<close> or \<open>__proto__\<close> passes the vendor schemas but
  normalises to a member inherited from \<open>Object.prototype\<close>, which is no club code.\<close>

theorem normaliseClub_inherited:
  "normaliseClub ''Constructor'' = Inherited ''constructor''
   \<and> normaliseClub ''__proto__'' = Inherited ''__proto__''
   \<and> \<not> valid_club (normaliseClub ''constructor'')"
  by code_simp

end
