(* ===== verification/Js_Date.thy ===== *)
theory Js_Date
  imports Js_Number "HOL-Library.Monad_Syntax"
begin

text \<open>
  The part of the JavaScript \<open>Date\<close> object the sources use, on time values in integer
  milliseconds since the epoch: the proleptic Gregorian calendar of the language
  specification, \<open>toISOString\<close>, and \<open>Date.parse\<close> on the date-time string format
  (four-digit or signed six-digit years, a date alone, or a date and a time with \<open>Z\<close> or a
  numeric offset). A string of another format goes to \<open>legacy\<close>, the engine's own
  fallback, which is a parameter. An invalid date (NaN) is \<open>None\<close>.
\<close>

section \<open>Calendar\<close>

abbreviation msPerDay :: int where
  "msPerDay \<equiv> 86400000"

definition DayFromYear :: "int \<Rightarrow> int" where
  "DayFromYear y = 365 * (y - 1970) + (y - 1969) div 4 - (y - 1901) div 100 + (y - 1601) div 400"

definition leap :: "int \<Rightarrow> bool" where
  "leap y \<longleftrightarrow> y mod 4 = 0 \<and> (y mod 100 \<noteq> 0 \<or> y mod 400 = 0)"

definition YearFromDay :: "int \<Rightarrow> int" where
  "YearFromDay d =
     (let y = 1970 + (d * 400) div 146097
      in if DayFromYear (y + 1) \<le> d then y + 1 else if DayFromYear y \<le> d then y else y - 1)"

definition month_days :: "int \<Rightarrow> nat list" where
  "month_days y = [31, if leap y then 29 else 28, 31, 30, 31, 30, 31, 31, 30, 31, 30, 31]"

fun month_split :: "nat list \<Rightarrow> nat \<Rightarrow> nat \<times> nat" where
  "month_split [] d = (0, d)"
| "month_split (m # ms) d =
     (if d < m then (0, d) else let (k, r) = month_split ms (d - m) in (Suc k, r))"

text \<open>Year, month and day of month, the last two counted from zero.\<close>

definition civil :: "int \<Rightarrow> int \<times> nat \<times> nat" where
  "civil d = (let y = YearFromDay d in (y, month_split (month_days y) (nat (d - DayFromYear y))))"

definition MakeDay :: "int \<Rightarrow> nat \<Rightarrow> nat \<Rightarrow> int" where
  "MakeDay y m d = DayFromYear y + int (sum_list (take m (month_days y)) + d)"

lemma div_succ:
  assumes "0 < (n :: int)"
  shows "(a + 1) div n = a div n + (if (a + 1) mod n = 0 then 1 else 0)"
proof -
  have "a mod n < n" "0 \<le> a mod n" using assms by auto
  have split: "a + 1 = (a mod n + 1) + a div n * n" by simp
  show ?thesis
  proof (cases "a mod n + 1 = n")
    case True
    then have "a + 1 = (a div n + 1) * n" using split by (simp add: algebra_simps)
    then show ?thesis using assms by simp
  next
    case False
    with \<open>a mod n < n\<close> \<open>0 \<le> a mod n\<close> have r: "0 \<le> a mod n + 1" "a mod n + 1 < n" by auto
    have "(a + 1) div n = a div n" and "(a + 1) mod n = a mod n + 1"
      using int_div_pos_eq [OF split [unfolded add.commute [of "a mod n + 1"] mult.commute [of "a div n"]] r]
        int_mod_pos_eq [OF split [unfolded add.commute [of "a mod n + 1"] mult.commute [of "a div n"]] r]
      by simp_all
    then show ?thesis using \<open>0 \<le> a mod n\<close> by simp
  qed
qed

lemma div_within: "0 < (n :: int) \<Longrightarrow> n * (x div n) \<le> x \<and> x \<le> n * (x div n) + (n - 1)"
proof -
  assume "0 < n"
  then have "0 \<le> x mod n" "x mod n < n" by simp_all
  moreover have "n * (x div n) + x mod n = x" by (rule mult_div_mod_eq)
  ultimately show ?thesis by linarith
qed

lemma mod_add_self2_multiple: "(a + k * n) mod n = a mod (n::int)"
  by simp

lemma DayFromYear_Suc: "DayFromYear (y + 1) = DayFromYear y + (if leap y then 366 else 365)"
proof -
  have m: "(y - 1969 + 1) mod 4 = 0 \<longleftrightarrow> y mod 4 = 0" "(y - 1901 + 1) mod 100 = 0 \<longleftrightarrow> y mod 100 = 0"
    "(y - 1601 + 1) mod 400 = 0 \<longleftrightarrow> y mod 400 = 0"
    using mod_add_self2_multiple [of y "- 492" 4] mod_add_self2_multiple [of y "- 19" 100]
      mod_add_self2_multiple [of y "- 4" 400] by simp_all
  have "(100::int) dvd 400" "(4::int) dvd 100" by simp_all
  then have d: "y mod 400 = 0 \<Longrightarrow> y mod 100 = 0" "y mod 100 = 0 \<Longrightarrow> y mod 4 = 0"
    by (metis mod_eq_0_iff_dvd dvd_trans)+
  have "DayFromYear (y + 1) = 365 * (y + 1 - 1970) + (y - 1969 + 1) div 4 - (y - 1901 + 1) div 100
      + (y - 1601 + 1) div 400"
    by (simp add: DayFromYear_def algebra_simps)
  also have "\<dots> = DayFromYear y + 365 + (if y mod 4 = 0 then 1 else 0) - (if y mod 100 = 0 then 1 else 0)
      + (if y mod 400 = 0 then 1 else 0)"
    by (simp only: div_succ m zero_less_numeral) (simp add: DayFromYear_def)
  also have "\<dots> = DayFromYear y + (if leap y then 366 else 365)"
  proof -
    define A B C where "A = (y mod 4 = 0)" and "B = (y mod 100 = 0)" and "C = (y mod 400 = 0)"
    have "C \<Longrightarrow> B" "B \<Longrightarrow> A" unfolding A_def B_def C_def by (fact d)+
    then show ?thesis
      unfolding leap_def A_def [symmetric] B_def [symmetric] C_def [symmetric]
      by (cases A; cases B; cases C) simp_all
  qed
  finally show ?thesis .
qed

lemma sum_month_days: "int (sum_list (month_days y)) = DayFromYear (y + 1) - DayFromYear y"
  by (simp add: month_days_def DayFromYear_Suc)

lemma DayFromYear_less: "y < z \<Longrightarrow> DayFromYear y < DayFromYear z"
proof (induction "nat (z - y)" arbitrary: z)
  case 0
  then show ?case by simp
next
  case (Suc n)
  have step: "DayFromYear (z - 1) < DayFromYear z"
    using DayFromYear_Suc [of "z - 1"] by simp
  show ?case
  proof (cases "y = z - 1")
    case True
    with step show ?thesis by simp
  next
    case False
    with Suc.hyps(2) Suc.prems have "DayFromYear y < DayFromYear (z - 1)"
      by (intro Suc.hyps(1)) auto
    with step show ?thesis by simp
  qed
qed

lemma DayFromYear_le_iff [simp]: "DayFromYear y \<le> DayFromYear z \<longleftrightarrow> y \<le> z"
  by (metis DayFromYear_less linorder_not_less order_le_less)

lemma DayFromYear_bounds:
  "400 * DayFromYear y \<le> 146097 * (y - 1970) + 589"
  "146097 * (y - 1970) - 506 \<le> 400 * DayFromYear y"
proof -
  define a b c where "a = (y - 1969) div 4" and "b = (y - 1901) div 100" and "c = (y - 1601) div 400"
  have a: "4 * a \<le> y - 1969" "y - 1969 \<le> 4 * a + 3"
    and b: "100 * b \<le> y - 1901" "y - 1901 \<le> 100 * b + 99"
    and c: "400 * c \<le> y - 1601" "y - 1601 \<le> 400 * c + 399"
    unfolding a_def b_def c_def
    using div_within [of 4 "y - 1969"] div_within [of 100 "y - 1901"] div_within [of 400 "y - 1601"]
    by simp_all
  have D: "DayFromYear y = 365 * (y - 1970) + a - b + c"
    by (simp add: DayFromYear_def a_def b_def c_def)
  show "400 * DayFromYear y \<le> 146097 * (y - 1970) + 589"
    unfolding D using a b c by simp
  show "146097 * (y - 1970) - 506 \<le> 400 * DayFromYear y"
    unfolding D using a b c by simp
qed

lemma YearFromDay_bounds: "DayFromYear (YearFromDay d) \<le> d \<and> d < DayFromYear (YearFromDay d + 1)"
proof -
  define k where "k = (d * 400) div 146097"
  have k: "146097 * k \<le> d * 400" "d * 400 < 146097 * k + 146097"
    using div_mult_mod_eq [of "d * 400" 146097] pos_mod_sign [of 146097 "d * 400"]
      pos_mod_bound [of 146097 "d * 400"] unfolding k_def by simp_all
  have low: "DayFromYear (1970 + k - 1) \<le> d"
    using DayFromYear_bounds(1) [of "1970 + k - 1"] k by simp
  have high: "d < DayFromYear (1970 + k + 1 + 1)"
    using DayFromYear_bounds(2) [of "1970 + k + 1 + 1"] k by simp
  from low high show ?thesis
    unfolding YearFromDay_def Let_def k_def [symmetric] by (auto simp: algebra_simps)
qed

lemma YearFromDay_unique:
  assumes "DayFromYear y \<le> d" "d < DayFromYear (y + 1)"
  shows "YearFromDay d = y"
proof -
  have "DayFromYear (YearFromDay d) < DayFromYear (y + 1)" "DayFromYear y < DayFromYear (YearFromDay d + 1)"
    using YearFromDay_bounds [of d] assms by auto
  then have "YearFromDay d < y + 1" "y < YearFromDay d + 1"
    by (metis DayFromYear_le_iff linorder_not_less)+
  then show ?thesis by simp
qed

lemma YearFromDay_mono: "a \<le> b \<Longrightarrow> YearFromDay a \<le> YearFromDay b"
proof -
  assume "a \<le> b"
  then have "DayFromYear (YearFromDay a) < DayFromYear (YearFromDay b + 1)"
    using YearFromDay_bounds [of a] YearFromDay_bounds [of b] by linarith
  then show ?thesis by (metis DayFromYear_le_iff linorder_not_less zle_add1_eq_le)
qed

lemma month_split_bounds:
  assumes "d < sum_list ms" and "month_split ms d = (k, r)"
  shows "k < length ms \<and> r < ms ! k \<and> sum_list (take k ms) + r = d"
  using assms
proof (induction ms arbitrary: d k)
  case Nil
  then show ?case by simp
next
  case (Cons m ms)
  show ?case
  proof (cases "d < m")
    case True
    with Cons.prems show ?thesis by auto
  next
    case False
    obtain j s where js: "month_split ms (d - m) = (j, s)" by (cases "month_split ms (d - m)")
    have r: "s = r" and k: "k = Suc j" using Cons.prems(2) False js by auto
    have "d - m < sum_list ms" using Cons.prems(1) False by auto
    from Cons.IH [OF this] js r
    have "j < length ms \<and> r < ms ! j \<and> sum_list (take j ms) + r = d - m" by simp
    with False k show ?thesis by auto
  qed
qed

lemma month_split_make:
  assumes "k < length ms" and "r < ms ! k"
  shows "month_split ms (sum_list (take k ms) + r) = (k, r)"
  using assms
proof (induction ms arbitrary: k)
  case Nil
  then show ?case by simp
next
  case (Cons m ms)
  show ?case
  proof (cases k)
    case 0
    with Cons.prems show ?thesis by simp
  next
    case (Suc j)
    with Cons show ?thesis by auto
  qed
qed

lemma civil_MakeDay:
  assumes "m < 12" "r < month_days y ! m"
  shows "civil (MakeDay y m r) = (y, m, r)"
proof -
  have len: "length (month_days y) = 12" by (simp add: month_days_def)
  have le: "sum_list (take m (month_days y)) + r < sum_list (month_days y)"
  proof -
    have "month_days y = take m (month_days y) @ month_days y ! m # drop (Suc m) (month_days y)"
      using assms(1) len by (simp add: id_take_nth_drop)
    then have "sum_list (month_days y) =
        sum_list (take m (month_days y)) + month_days y ! m + sum_list (drop (Suc m) (month_days y))"
      by (metis add.assoc sum_list.Cons sum_list_append)
    with assms(2) show ?thesis by simp
  qed
  then have "MakeDay y m r < DayFromYear (y + 1)"
    using sum_month_days [of y] by (simp add: MakeDay_def)
  then have "YearFromDay (MakeDay y m r) = y"
    by (intro YearFromDay_unique) (auto simp: MakeDay_def)
  moreover have "nat (MakeDay y m r - DayFromYear y) = sum_list (take m (month_days y)) + r"
    by (simp add: MakeDay_def)
  ultimately show ?thesis
    using month_split_make [of m "month_days y" r] assms len by (simp add: civil_def)
qed

lemma civil_bounds:
  assumes "civil d = (y, m, r)"
  shows "m < 12" and "r < month_days y ! m" and "MakeDay y m r = d" and "y = YearFromDay d"
proof -
  from assms have y: "y = YearFromDay d"
    and ms: "month_split (month_days y) (nat (d - DayFromYear y)) = (m, r)"
    by (auto simp: civil_def Let_def)
  have "nat (d - DayFromYear y) < sum_list (month_days y)"
    using YearFromDay_bounds [of d] sum_month_days [of y] y by (simp add: nat_less_iff)
  from month_split_bounds [OF this ms]
  have "m < length (month_days y) \<and> r < month_days y ! m
      \<and> sum_list (take m (month_days y)) + r = nat (d - DayFromYear y)" .
  then show "m < 12" and "r < month_days y ! m" and "MakeDay y m r = d"
    using YearFromDay_bounds [of d] y by (auto simp: MakeDay_def month_days_def)
  show "y = YearFromDay d" by (rule y)
qed

lemma month_days_le: "m < 12 \<Longrightarrow> month_days y ! m \<le> 31"
  unfolding month_days_def
  by (simp add: numeral_eq_Suc less_Suc_eq) (elim disjE; simp)


section \<open>Time values and the date-time string format\<close>

definition TimeClip :: "int \<Rightarrow> int option" where
  "TimeClip t = (if \<bar>t\<bar> \<le> 8640000000000000 then Some t else None)"

definition show_year :: "int \<Rightarrow> js_string" where
  "show_year y =
     (if 0 \<le> y \<and> y \<le> 9999 then pad_dec 4 (nat y)
      else (if y < 0 then ''-'' else ''+'') @ pad_dec 6 (nat \<bar>y\<bar>))"

text \<open>Up to the minute, and the rest.\<close>

definition iso_minute :: "int \<Rightarrow> js_string" where
  "iso_minute t =
     (let (y, m, d) = civil (t div msPerDay); r = nat (t mod msPerDay)
      in show_year y @ ''-'' @ pad_dec 2 (m + 1) @ ''-'' @ pad_dec 2 (d + 1) @ ''T''
         @ pad_dec 2 (r div 3600000) @ '':'' @ pad_dec 2 (r div 60000 mod 60))"

definition iso_seconds :: "int \<Rightarrow> js_string" where
  "iso_seconds t =
     (let r = nat (t mod msPerDay)
      in '':'' @ pad_dec 2 (r div 1000 mod 60) @ ''.'' @ pad_dec 3 (r mod 1000) @ ''Z'')"

definition iso_format :: "int \<Rightarrow> js_string" where
  "iso_format t = iso_minute t @ iso_seconds t"

text \<open>\<open>toISOString\<close> on a date: \<open>None\<close> is the \<open>RangeError\<close> it throws.\<close>

definition toISOString :: "int option \<Rightarrow> js_string option" where
  "toISOString d = map_option iso_format d"

definition take_digits :: "nat \<Rightarrow> js_string \<Rightarrow> (nat \<times> js_string) option" where
  "take_digits w s =
     (if w \<le> length s \<and> list_all is_digit (take w s) then Some (undec (take w s), drop w s) else None)"

definition expect :: "char \<Rightarrow> js_string \<Rightarrow> js_string option" where
  "expect c s = (case s of [] \<Rightarrow> None | x # xs \<Rightarrow> if x = c then Some xs else None)"

definition parse_year :: "js_string \<Rightarrow> (int \<times> js_string) option" where
  "parse_year s =
     (case s of
        [] \<Rightarrow> None
      | c # cs \<Rightarrow>
          if c = CHR ''+'' then do { (y, r) \<leftarrow> take_digits 6 cs; Some (int y, r) }
          else if c = CHR ''-'' then
            do { (y, r) \<leftarrow> take_digits 6 cs; if y = 0 then None else Some (- int y, r) }
          else do { (y, r) \<leftarrow> take_digits 4 s; Some (int y, r) })"

definition parse_fraction :: "js_string \<Rightarrow> (nat \<times> js_string) option" where
  "parse_fraction s =
     (case expect (CHR ''.'') s of
        None \<Rightarrow> Some (0, s)
      | Some cs \<Rightarrow>
          let ds = takeWhile is_digit cs
          in if ds = [] then None else Some (undec (take 3 (ds @ ''00'')), dropWhile is_digit cs))"

definition parse_seconds :: "js_string \<Rightarrow> (nat \<times> nat \<times> js_string) option" where
  "parse_seconds s =
     (case expect (CHR '':'') s of
        None \<Rightarrow> Some (0, 0, s)
      | Some cs \<Rightarrow>
          do { (sec, r) \<leftarrow> take_digits 2 cs; (ms, r') \<leftarrow> parse_fraction r; Some (sec, ms, r') })"

text \<open>The offset from UTC in minutes, at the end of the string.\<close>

definition parse_zone :: "js_string \<Rightarrow> int option" where
  "parse_zone s =
     (if s = ''Z'' then Some 0
      else case s of
        [] \<Rightarrow> None
      | c # cs \<Rightarrow>
          if c = CHR ''+'' \<or> c = CHR ''-'' then
            do { (h, r) \<leftarrow> take_digits 2 cs;
                 r' \<leftarrow> expect (CHR '':'') r;
                 (m, r'') \<leftarrow> take_digits 2 r';
                 if r'' = [] \<and> h \<le> 23 \<and> m \<le> 59
                 then Some ((if c = CHR ''+'' then 1 else - 1) * (int h * 60 + int m)) else None }
          else None)"

definition MakeTime :: "int \<Rightarrow> nat \<Rightarrow> nat \<Rightarrow> nat \<Rightarrow> nat \<Rightarrow> nat \<Rightarrow> nat \<Rightarrow> int" where
  "MakeTime y mo d h mi sec ms =
     MakeDay y (mo - 1) (d - 1) * msPerDay
     + (((int h * 60 + int mi) * 60 + int sec) * 1000 + int ms)"

text \<open>The time part, after the date: \<open>T\<close>, hours, minutes, optional seconds, the zone.\<close>

definition parse_clock :: "int \<Rightarrow> nat \<Rightarrow> nat \<Rightarrow> js_string \<Rightarrow> int option" where
  "parse_clock y mo d s =
     do { r \<leftarrow> expect (CHR ''T'') s;
          (h, r1) \<leftarrow> take_digits 2 r;
          r2 \<leftarrow> expect (CHR '':'') r1;
          (mi, r3) \<leftarrow> take_digits 2 r2;
          (sec, ms, r4) \<leftarrow> parse_seconds r3;
          off \<leftarrow> parse_zone r4;
          if h \<le> 23 \<and> mi \<le> 59 \<and> sec \<le> 59
          then TimeClip (MakeTime y mo d h mi sec ms - off * 60000) else None }"

definition iso_parse :: "js_string \<Rightarrow> int option" where
  "iso_parse s =
     do { (y, r) \<leftarrow> parse_year s;
          r1 \<leftarrow> expect (CHR ''-'') r;
          (mo, r2) \<leftarrow> take_digits 2 r1;
          r3 \<leftarrow> expect (CHR ''-'') r2;
          (d, r4) \<leftarrow> take_digits 2 r3;
          if 1 \<le> mo \<and> mo \<le> 12 \<and> 1 \<le> d \<and> d \<le> month_days y ! (mo - 1)
          then if r4 = [] then TimeClip (MakeDay y (mo - 1) (d - 1) * msPerDay)
               else parse_clock y mo d r4
          else None }"

text \<open>\<open>new Date(s).getTime()\<close>.\<close>

definition date_parse :: "(js_string \<Rightarrow> int option) \<Rightarrow> js_string \<Rightarrow> int option" where
  "date_parse legacy s =
     (case iso_parse s of Some t \<Rightarrow> Some t | None \<Rightarrow> do { t \<leftarrow> legacy s; TimeClip t })"

subsection \<open>Reading back what was printed\<close>

lemma take_digits_pad [simp]: "take_digits w (pad_dec w n @ r) = Some (n mod 10 ^ w, r)"
  by (auto simp: take_digits_def list_all_iff dest: pad_dec_digits)

lemma expect_Cons [simp]: "expect c (x # xs) = (if x = c then Some xs else None)"
  by (simp add: expect_def)

lemma pad_dec_Cons:
  assumes "0 < w"
  obtains c cs where "pad_dec w n = c # cs" "is_digit c"
proof -
  obtain c cs where "pad_dec w n = c # cs"
    using assms by (metis length_greater_0_conv length_pad_dec list.exhaust)
  with that show ?thesis using pad_dec_digits [of c w n] by simp
qed

lemma parse_year_show:
  assumes "\<bar>y\<bar> < 10 ^ 6"
  shows "parse_year (show_year y @ r) = Some (y, r)"
proof (cases "0 \<le> y \<and> y \<le> 9999")
  case True
  obtain c cs where c: "pad_dec 4 (nat y) = c # cs" "is_digit c"
    by (rule pad_dec_Cons [of 4 "nat y"]) auto
  have "take_digits 4 (pad_dec 4 (nat y) @ r) = Some (nat y, r)"
    using True by (simp only: take_digits_pad) auto
  with c True show ?thesis by (auto simp: show_year_def parse_year_def)
next
  case False
  have y6: "nat \<bar>y\<bar> mod 10 ^ 6 = nat \<bar>y\<bar>" using assms by (intro mod_less) (simp add: nat_less_iff)
  have "take_digits 6 (pad_dec 6 (nat \<bar>y\<bar>) @ r) = Some (nat \<bar>y\<bar>, r)"
    unfolding take_digits_pad y6 ..
  with False show ?thesis by (auto simp: show_year_def parse_year_def)
qed

text \<open>The seconds and milliseconds without the zone.\<close>

definition iso_millis :: "int \<Rightarrow> js_string" where
  "iso_millis t =
     (let r = nat (t mod msPerDay)
      in '':'' @ pad_dec 2 (r div 1000 mod 60) @ ''.'' @ pad_dec 3 (r mod 1000))"

lemma iso_seconds_millis: "iso_seconds t = iso_millis t @ ''Z''"
  by (simp add: iso_seconds_def iso_millis_def Let_def)

lemma parse_seconds_iso:
  assumes "\<not> is_digit c"
  shows "parse_seconds (iso_millis t @ c # z) =
           Some (nat (t mod msPerDay) div 1000 mod 60, nat (t mod msPerDay) mod 1000, c # z)"
proof -
  let ?r = "nat (t mod msPerDay)"
  have tw: "takeWhile is_digit (pad_dec 3 k @ c # z) = pad_dec 3 k"
    "dropWhile is_digit (pad_dec 3 k @ c # z) = c # z" for k
    using pad_dec_digits [of _ 3 k] assms by (auto simp: takeWhile_append dropWhile_append)
  have ne: "pad_dec 3 k \<noteq> []" for k by (metis length_0_conv length_pad_dec zero_neq_numeral)
  have "parse_fraction (''.'' @ pad_dec 3 (?r mod 1000) @ c # z) = Some (?r mod 1000, c # z)"
    by (simp add: parse_fraction_def Let_def tw ne)
  moreover have "?r div 1000 mod 60 mod 10 ^ 2 = ?r div 1000 mod 60"
    by (rule mod_less) (simp add: less_trans [OF mod_less_divisor])
  ultimately show ?thesis
    by (simp add: parse_seconds_def iso_millis_def Let_def)
qed

lemma YearFromDay_range:
  assumes "\<bar>t\<bar> \<le> 8640000000000000"
  shows "\<bar>YearFromDay (t div msPerDay)\<bar> < 10 ^ 6"
proof -
  have "- 100000000 \<le> t div msPerDay" "t div msPerDay \<le> 100000000"
    using assms div_within [of msPerDay t] by simp_all
  then have "YearFromDay (- 100000000) \<le> YearFromDay (t div msPerDay)"
    "YearFromDay (t div msPerDay) \<le> YearFromDay 100000000"
    by (auto intro: YearFromDay_mono)
  moreover have "YearFromDay (- 100000000) = - 271821" "YearFromDay 100000000 = 275760"
    by (simp_all add: YearFromDay_def DayFromYear_def Let_def)
  ultimately show ?thesis by simp
qed

lemma clock_parts:
  fixes t :: int
  defines "r \<equiv> nat (t mod msPerDay)"
  shows "((int (r div 3600000) * 60 + int (r div 60000 mod 60)) * 60 + int (r div 1000 mod 60)) * 1000
           + int (r mod 1000) = t mod msPerDay"
    and "r div 3600000 < 24"
proof -
  have "r = (r div 1000) * 1000 + r mod 1000" by simp
  moreover have "r div 1000 = (r div 60000) * 60 + r div 1000 mod 60"
    using div_mult_mod_eq [of "r div 1000" 60] by (simp add: div_mult2_eq [symmetric])
  moreover have "r div 60000 = (r div 3600000) * 60 + r div 60000 mod 60"
    using div_mult_mod_eq [of "r div 60000" 60] by (simp add: div_mult2_eq [symmetric])
  ultimately have "int r = ((int (r div 3600000) * 60 + int (r div 60000 mod 60)) * 60
      + int (r div 1000 mod 60)) * 1000 + int (r mod 1000)"
    by (metis (no_types, opaque_lifting) of_nat_add of_nat_mult of_nat_numeral)
  moreover have "int r = t mod msPerDay" by (simp add: r_def)
  ultimately show "((int (r div 3600000) * 60 + int (r div 60000 mod 60)) * 60
      + int (r div 1000 mod 60)) * 1000 + int (r mod 1000) = t mod msPerDay" by simp
  have "r < 86400000" by (simp add: r_def nat_less_iff)
  then show "r div 3600000 < 24" by (simp add: less_mult_imp_div_less)
qed

lemma iso_parse_local:
  assumes "\<bar>t\<bar> \<le> 8640000000000000" and "\<not> is_digit c"
  shows "iso_parse (iso_minute t @ iso_millis t @ c # z) =
           do { off \<leftarrow> parse_zone (c # z); TimeClip (t - off * 60000) }"
proof -
  obtain y m d where c: "civil (t div msPerDay) = (y, m, d)" by (cases "civil (t div msPerDay)")
  define r where "r = nat (t mod msPerDay)"
  note cb = civil_bounds [OF c]
  have sixty: "x mod 60 \<le> 59" for x :: nat using mod_less_divisor [of 60 x] by simp
  have y: "\<bar>y\<bar> < 10 ^ 6" using YearFromDay_range [OF assms(1)] cb(4) by simp
  have d31: "d < 31" using cb(1,2) month_days_le [of m y] by simp
  have mods: "(m + 1) mod 10 ^ 2 = m + 1" "(d + 1) mod 10 ^ 2 = d + 1"
    "(r div 3600000) mod 10 ^ 2 = r div 3600000" "(r div 60000 mod 60) mod 10 ^ 2 = r div 60000 mod 60"
    using cb(1) d31 clock_parts(2) [of t] less_trans [OF mod_less_divisor [of 60 "r div 60000"]]
    by (auto intro!: mod_less simp: r_def)
  have sucs: "Suc d mod 100 = Suc d" "Suc m mod 100 = Suc m" using mods by simp_all
  have clock: "((int (r div 3600000) * 60 + int (r div 60000 mod 60)) * 60
      + int (r div 1000 mod 60)) * 1000 + int (r mod 1000) = t mod msPerDay"
    unfolding r_def by (rule clock_parts(1))
  have time: "MakeTime y (m + 1) (d + 1) (r div 3600000) (r div 60000 mod 60) (r div 1000 mod 60) (r mod 1000) = t"
    using cb(3) clock div_mult_mod_eq [of t msPerDay] by (simp add: MakeTime_def)
  have pc: "parse_clock y (m + 1) (d + 1)
      (CHR ''T'' # pad_dec 2 (r div 3600000) @ CHR '':'' # pad_dec 2 (r div 60000 mod 60) @ iso_millis t @ c # z)
      = do { off \<leftarrow> parse_zone (c # z); TimeClip (t - off * 60000) }"
    using clock_parts(2) [of t] sixty [of "r div 60000"] sixty [of "r div 1000"]
    by (simp add: parse_clock_def mods parse_seconds_iso [OF assms(2)] r_def [symmetric] less_Suc_eq_le
        time [simplified])
  show ?thesis
    using cb(1,2) by (simp add: iso_minute_def Let_def c r_def [symmetric] iso_parse_def
        parse_year_show [OF y] mods sucs pc [simplified])
qed

lemma iso_parse_format:
  assumes "\<bar>t\<bar> \<le> 8640000000000000"
  shows "iso_parse (iso_format t) = Some t"
proof -
  have "\<not> is_digit (CHR ''Z'')" by (simp add: is_digit_def less_eq_char_nat)
  from iso_parse_local [OF assms this, of "[]"] assms show ?thesis
    by (simp add: iso_format_def iso_seconds_millis parse_zone_def TimeClip_def)
qed

lemma date_parse_iso [simp]:
  "\<bar>t\<bar> \<le> 8640000000000000 \<Longrightarrow> date_parse legacy (iso_format t) = Some t"
  by (simp add: date_parse_def iso_parse_format)


text \<open>A parsed date is a time value, and a printed one has no separator of the hash preimage.\<close>

lemma TimeClip_Some: "TimeClip t = Some u \<longleftrightarrow> u = t \<and> \<bar>t\<bar> \<le> 8640000000000000"
  by (auto simp: TimeClip_def)

lemma date_parse_range: "date_parse legacy s = Some t \<Longrightarrow> \<bar>t\<bar> \<le> 8640000000000000"
  by (auto simp: date_parse_def iso_parse_def parse_clock_def TimeClip_Some bind_eq_Some_conv
      split: option.splits if_splits prod.splits)

lemma iso_minute_no_bar: "CHR ''|'' \<notin> set (iso_minute t)"
proof -
  have "CHR ''|'' \<notin> set (pad_dec w n)" for w n
    using pad_dec_digits [of "CHR ''|''" w n] by (auto simp: is_digit_def less_eq_char_nat)
  then show ?thesis by (auto simp: iso_minute_def show_year_def Let_def split: prod.splits)
qed

lemma iso_format_no_bar: "CHR ''|'' \<notin> set (iso_format t)"
proof -
  have "CHR ''|'' \<notin> set (pad_dec w n)" for w n
    using pad_dec_digits [of "CHR ''|''" w n] by (auto simp: is_digit_def less_eq_char_nat)
  then show ?thesis using iso_minute_no_bar by (auto simp: iso_format_def iso_seconds_def Let_def)
qed

subsection \<open>String order is time order\<close>

lemma lex_append_left:
  fixes a b x y :: "'a::linorder list"
  assumes "length a = length b"
  shows "a @ x < b @ y \<longleftrightarrow> a < b \<or> (a = b \<and> x < y)"
  using assms by (induction a b rule: list_induct2) (auto simp: list_less_def lexord_cons_cons)

lemma digit_char_less: "m < 10 \<Longrightarrow> n < 10 \<Longrightarrow> digit_char m < digit_char n \<longleftrightarrow> m < n"
  by (simp add: less_char_nat of_char_digit_char)

lemma div_mod_lt:
  assumes "(m :: nat) < n"
  obtains "m div k < n div k" | "m div k = n div k" "m mod k < n mod k"
proof (cases "m div k = n div k")
  case True
  have "m mod k < n mod k"
    using assms True div_mult_mod_eq [of m k] div_mult_mod_eq [of n k] add_less_cancel_left by metis
  with True that(2) show ?thesis by simp
next
  case False
  then have "m div k < n div k" using assms div_le_mono [of m n k] by simp
  with that(1) show ?thesis by simp
qed

lemma div_mod_lt_int:
  assumes "(m :: int) < n" "0 < k"
  obtains "m div k < n div k" | "m div k = n div k" "m mod k < n mod k"
proof (cases "m div k = n div k")
  case True
  have "m mod k < n mod k"
    using assms True div_mult_mod_eq [of m k] div_mult_mod_eq [of n k] add_less_cancel_left by metis
  with True that(2) show ?thesis by simp
next
  case False
  then have "m div k < n div k" using assms zdiv_mono1 [of m n k] by simp
  with that(1) show ?thesis by simp
qed

lemma nat_div_mod_numeral:
  "0 \<le> a \<Longrightarrow> nat (a div numeral k) = nat a div numeral k"
  "0 \<le> a \<Longrightarrow> nat (a mod numeral k) = nat a mod numeral k"
  by (simp_all add: nat_div_distrib nat_mod_distrib)

lemma pad_dec_less:
  assumes "m < n" and "n < 10 ^ w"
  shows "pad_dec w m < pad_dec w n"
  using assms
proof (induction w arbitrary: m n)
  case 0
  then show ?case by simp
next
  case (Suc w)
  have n: "n div 10 < 10 ^ w" using Suc.prems(2) by (simp add: less_mult_imp_div_less mult.commute)
  from Suc.prems(1) show ?case
  proof (cases rule: div_mod_lt [where k = 10])
    case 1
    from Suc.IH [OF this n] show ?thesis by (simp add: lex_append_left)
  next
    case 2
    then have "digit_char (m mod 10) < digit_char (n mod 10)" by (simp add: digit_char_less)
    then show ?thesis using 2 by (simp add: lex_append_left digit_char_mod)
  qed
qed

text \<open>A four-digit year: the first and last millisecond that print with 24 characters.\<close>

definition four_digit_year :: "int \<Rightarrow> bool" where
  "four_digit_year t \<longleftrightarrow> - 62167219200000 \<le> t \<and> t < 253402300800000"

lemma four_digit_YearFromDay:
  assumes "four_digit_year t"
  shows "0 \<le> YearFromDay (t div msPerDay)" and "YearFromDay (t div msPerDay) \<le> 9999"
proof -
  have "- 719528 \<le> t div msPerDay" "t div msPerDay \<le> 2932896"
    using assms div_within [of msPerDay t] by (simp_all add: four_digit_year_def)
  then have "YearFromDay (- 719528) \<le> YearFromDay (t div msPerDay)"
    "YearFromDay (t div msPerDay) \<le> YearFromDay 2932896"
    by (auto intro: YearFromDay_mono)
  moreover have "YearFromDay (- 719528) = 0" "YearFromDay 2932896 = 9999"
    by (simp_all add: YearFromDay_def DayFromYear_def Let_def)
  ultimately show "0 \<le> YearFromDay (t div msPerDay)" "YearFromDay (t div msPerDay) \<le> 9999"
    by simp_all
qed

definition iso_date :: "int \<Rightarrow> js_string" where
  "iso_date d = (let (y, m, k) = civil d
                 in show_year y @ ''-'' @ pad_dec 2 (m + 1) @ ''-'' @ pad_dec 2 (k + 1))"

definition iso_hm :: "nat \<Rightarrow> js_string" where
  "iso_hm k = ''T'' @ pad_dec 2 (k div 60) @ '':'' @ pad_dec 2 (k mod 60)"

lemma iso_minute_split:
  "iso_minute t = iso_date (t div msPerDay) @ iso_hm (nat (t mod msPerDay) div 60000)"
  by (simp add: iso_minute_def iso_date_def iso_hm_def Let_def div_mult2_eq [symmetric] split: prod.splits)

lemma length_iso_date:
  assumes "0 \<le> YearFromDay d" "YearFromDay d \<le> 9999"
  shows "length (iso_date d) = 10"
  using assms by (auto simp: iso_date_def Let_def civil_def show_year_def split: prod.splits)

lemma length_iso_hm [simp]: "length (iso_hm k) = 6"
  by (simp add: iso_hm_def)

lemma length_iso_seconds [simp]: "length (iso_seconds t) = 8"
  by (simp add: iso_seconds_def Let_def)

lemma length_iso_minute: "four_digit_year t \<Longrightarrow> length (iso_minute t) = 16"
  using four_digit_YearFromDay [of t] by (simp add: iso_minute_split length_iso_date)

lemma slice_iso: "four_digit_year t \<Longrightarrow> slice 0 16 (iso_format t) = iso_minute t"
  by (simp add: slice_def iso_format_def length_iso_minute)

lemma sum_take_le: "i \<le> j \<Longrightarrow> sum_list (take i (xs :: nat list)) \<le> sum_list (take j xs)"
  by (auto simp: le_iff_add take_add)

lemma civil_less:
  assumes "a < b" and "civil a = (y, m, r)" and "civil b = (y', m', r')"
  shows "y < y' \<or> (y = y' \<and> (m < m' \<or> (m = m' \<and> r < r')))"
proof -
  note ca = civil_bounds [OF assms(2)] and cb = civil_bounds [OF assms(3)]
  have "y \<le> y'" using YearFromDay_mono [of a b] assms(1) ca(4) cb(4) by simp
  moreover have "m \<le> m'" if "y = y'"
  proof (rule ccontr)
    assume "\<not> m \<le> m'"
    then have lt: "Suc m' \<le> m" by simp
    have len: "length (month_days y) = 12" by (simp add: month_days_def)
    have "MakeDay y m' r' < DayFromYear y + int (sum_list (take (Suc m') (month_days y)))"
      using cb(1,2) len that by (simp add: MakeDay_def take_Suc_conv_app_nth)
    also have "\<dots> \<le> MakeDay y m r"
      using sum_take_le [OF lt, of "month_days y"] by (simp add: MakeDay_def)
    finally show False using ca(3) cb(3) assms(1) that by simp
  qed
  moreover have "r < r'" if "y = y'" "m = m'"
    using ca(3) cb(3) assms(1) that by (simp add: MakeDay_def)
  ultimately show ?thesis by linarith
qed

lemma iso_date_less:
  assumes "a < b" "0 \<le> YearFromDay a" "YearFromDay b \<le> 9999"
  shows "iso_date a < iso_date b"
proof -
  obtain y m r where ca: "civil a = (y, m, r)" by (cases "civil a")
  obtain y' m' r' where cb: "civil b = (y', m', r')" by (cases "civil b")
  note ba = civil_bounds [OF ca] and bb = civil_bounds [OF cb]
  have yy: "0 \<le> y" "y \<le> y'" "y' \<le> 9999"
    using assms ba(4) bb(4) YearFromDay_mono [of a b] by auto
  have r31: "r < 31" "r' < 31"
    using ba(1,2) bb(1,2) month_days_le [of m y] month_days_le [of m' y'] by auto
  have "pad_dec 4 (nat y) < pad_dec 4 (nat y')" if "y < y'"
    using that yy by (intro pad_dec_less) auto
  moreover have "pad_dec 2 (m + 1) < pad_dec 2 (m' + 1)" if "m < m'"
    using that bb(1) by (intro pad_dec_less) auto
  moreover have "pad_dec 2 (r + 1) < pad_dec 2 (r' + 1)" if "r < r'"
    using that r31 by (intro pad_dec_less) auto
  ultimately show ?thesis
    using civil_less [OF assms(1) ca cb] yy
    by (auto simp: iso_date_def ca cb show_year_def lex_append_left)
qed

lemma iso_hm_less: "j < k \<Longrightarrow> k < 1440 \<Longrightarrow> iso_hm j < iso_hm k"
proof -
  assume jk: "j < k" "k < 1440"
  have k: "k div 60 < 10 ^ 2" "k mod 60 < 10 ^ 2"
    using jk(2) less_mult_imp_div_less [of k 24 60] mod_less_divisor [of 60 k] by simp_all
  from jk(1) show ?thesis
  proof (cases rule: div_mod_lt [where k = 60])
    case 1
    from pad_dec_less [OF this k(1)] show ?thesis by (simp add: iso_hm_def lex_append_left)
  next
    case 2
    from pad_dec_less [OF this(2) k(2)] 2(1) show ?thesis by (simp add: iso_hm_def lex_append_left)
  qed
qed

lemma nat_lt: "0 \<le> a \<Longrightarrow> a < b \<Longrightarrow> nat a < nat b"
  by linarith

lemma day_of_minute: "u div msPerDay = u div 60000 div 1440"
  using zdiv_zmult2_eq [of 1440 u 60000] by simp

lemma minute_of_day: "nat (u mod msPerDay) div 60000 = nat (u div 60000 mod 1440)"
proof -
  have e: "u mod msPerDay = 60000 * (u div 60000 mod 1440) + u mod 60000"
    using zmod_zmult2_eq [of 1440 u 60000] by simp
  have "u mod msPerDay div 60000 = u div 60000 mod 1440"
    unfolding e by (simp add: div_pos_pos_trivial)
  moreover have "nat (u mod msPerDay div 60000) = nat (u mod msPerDay) div 60000"
    by (rule nat_div_mod_numeral) simp
  ultimately show ?thesis by simp
qed

lemma iso_minute_less:
  assumes "four_digit_year s" "four_digit_year t" "s div 60000 < t div 60000"
  shows "iso_minute s < iso_minute t"
proof -
  note ys = four_digit_YearFromDay [OF assms(1), unfolded day_of_minute]
    and yt = four_digit_YearFromDay [OF assms(2), unfolded day_of_minute]
  have small: "nat (t div 60000 mod 1440) < 1440" by (simp add: nat_less_iff)
  show ?thesis
  proof (rule div_mod_lt_int [OF assms(3), of 1440])
    assume "s div 60000 div 1440 < t div 60000 div 1440"
    from iso_date_less [OF this ys(1) yt(2)] show ?thesis
      by (simp add: iso_minute_split day_of_minute lex_append_left length_iso_date ys yt)
  next
    assume eq: "s div 60000 div 1440 = t div 60000 div 1440" and lt: "s div 60000 mod 1440 < t div 60000 mod 1440"
    have "nat (s div 60000 mod 1440) < nat (t div 60000 mod 1440)"
      by (rule nat_lt [OF _ lt]) simp
    from iso_hm_less [OF this small] show ?thesis
      by (simp add: iso_minute_split day_of_minute minute_of_day lex_append_left eq)
  qed simp
qed

lemma iso_minute_eq_iff:
  assumes "four_digit_year s" "four_digit_year t"
  shows "iso_minute s = iso_minute t \<longleftrightarrow> s div 60000 = t div 60000"
proof
  assume "iso_minute s = iso_minute t"
  then show "s div 60000 = t div 60000"
    using iso_minute_less [OF assms] iso_minute_less [OF assms(2,1)]
    by (metis less_irrefl linorder_neqE_linordered_idom)
next
  assume "s div 60000 = t div 60000"
  then show "iso_minute s = iso_minute t"
    by (simp add: iso_minute_split day_of_minute minute_of_day)
qed

lemma nat_secs:
  fixes x :: nat
  shows "x mod 60000 div 1000 = x div 1000 mod 60" and "x mod 60000 mod 1000 = x mod 1000"
proof -
  have e: "x mod 60000 = 1000 * (x div 1000 mod 60) + x mod 1000"
    using mod_mult2_eq [of x 1000 60] by simp
  show "x mod 60000 div 1000 = x div 1000 mod 60" unfolding e by simp
  show "x mod 60000 mod 1000 = x mod 1000" unfolding e by simp
qed

lemma seconds_of_minute: "nat (u mod msPerDay) mod 60000 = nat (u mod 60000)"
proof -
  have e: "u mod msPerDay = 60000 * (u div 60000 mod 1440) + u mod 60000"
    using zmod_zmult2_eq [of 1440 u 60000] by simp
  have "u mod msPerDay mod 60000 = u mod 60000" unfolding e by simp
  moreover have "nat (u mod msPerDay mod 60000) = nat (u mod msPerDay) mod 60000"
    by (rule nat_div_mod_numeral) simp
  ultimately show ?thesis by simp
qed

lemma iso_seconds_less:
  assumes "s div 60000 = t div 60000" "s < t"
  shows "iso_seconds s < iso_seconds t"
proof -
  have sec: "nat (u mod msPerDay) div 1000 mod 60 = nat (u mod 60000 div 1000)"
    and ms: "nat (u mod msPerDay) mod 1000 = nat (u mod 60000 mod 1000)" for u :: int
    unfolding nat_secs [of "nat (u mod msPerDay)", symmetric] seconds_of_minute
    by (simp_all only: nat_div_mod_numeral pos_mod_sign zero_less_numeral)
  have lt: "s mod 60000 < t mod 60000"
    by (rule div_mod_lt_int [OF assms(2), of 60000]) (use assms(1) in simp_all)
  have t60: "t mod 60000 div 1000 < 60" by (simp add: div_less_iff_less_mult)
  then have bounds: "nat (t mod 60000 div 1000) < 10 ^ 2" "nat (t mod 60000 mod 1000) < 10 ^ 3"
    by (simp_all add: nat_less_iff)
  show ?thesis
  proof (rule div_mod_lt_int [OF lt, of 1000])
    assume lt1: "s mod 60000 div 1000 < t mod 60000 div 1000"
    have "nat (s mod 60000 div 1000) < nat (t mod 60000 div 1000)"
      by (rule nat_lt [OF _ lt1]) (simp add: pos_imp_zdiv_nonneg_iff)
    from pad_dec_less [OF this bounds(1)] show ?thesis
      by (simp add: iso_seconds_def Let_def sec lex_append_left)
  next
    assume eq: "s mod 60000 div 1000 = t mod 60000 div 1000" and lt2: "s mod 60000 mod 1000 < t mod 60000 mod 1000"
    have "nat (s mod 60000 mod 1000) < nat (t mod 60000 mod 1000)"
      by (rule nat_lt [OF _ lt2]) simp
    from pad_dec_less [OF this bounds(2)] show ?thesis
      by (simp add: iso_seconds_def Let_def sec ms lex_append_left eq)
  qed simp
qed

lemma iso_format_less:
  assumes "four_digit_year s" "four_digit_year t" "s < t"
  shows "iso_format s < iso_format t"
proof -
  have "s div 60000 \<le> t div 60000" using assms(3) by (intro zdiv_mono1) auto
  then consider "s div 60000 < t div 60000" | "s div 60000 = t div 60000" by linarith
  then show ?thesis
  proof cases
    case 1
    with assms show ?thesis
      by (simp add: iso_format_def lex_append_left length_iso_minute iso_minute_less)
  next
    case 2
    then have eq: "iso_minute s = iso_minute t" using assms by (simp add: iso_minute_eq_iff)
    show ?thesis
      unfolding iso_format_def eq using iso_seconds_less [OF 2 assms(3)] by (simp add: lex_append_left)
  qed
qed

lemma iso_format_less_iff:
  "four_digit_year s \<Longrightarrow> four_digit_year t \<Longrightarrow> iso_format s < iso_format t \<longleftrightarrow> s < t"
  by (metis iso_format_less less_asym less_irrefl linorder_neqE_linordered_idom)

end
