(* ===== verification/Content_Hash.thy ===== *)
theory Content_Hash
  imports Js_Date Club_Code
begin

text \<open>
  \<open>ingestion/content-hash.ts\<close>: the preimage of the near-duplicate hash and the hash
  itself. SHA-256 is Node's, a parameter \<open>sha\<close> from strings to hexadecimal digests. The
  preimage is shown to be determined by, and to determine, a tuple of integers and
  strings: the specification \<open>content_key\<close>.
\<close>

section \<open>Model\<close>

record ContentHashInput =
  ch_vendor_user_id :: js_string
  ch_club_code :: js_string
  ch_captured_at_utc :: js_string
  ch_ball_speed_mps :: number
  ch_launch_angle_deg :: number
  ch_carry_m :: number
  ch_lateral_m :: number

definition minuteBucket :: "js_string \<Rightarrow> js_string" where
  "minuteBucket isoUtc = slice 0 16 isoUtc"

text \<open>\<open>Math.pow(10, decimals)\<close> is exact for the two exponents used.\<close>

definition round_to :: "number \<Rightarrow> nat \<Rightarrow> number" where
  "round_to value decimals =
     (let factor = 10 ^ decimals in fl (of_int (Math_round (fl (value * factor))) / factor))"

definition content_parts :: "ContentHashInput \<Rightarrow> js_string list" where
  "content_parts i =
     [ch_vendor_user_id i,
      ch_club_code i,
      minuteBucket (ch_captured_at_utc i),
      toFixed (round_to (ch_ball_speed_mps i) 1) 1,
      toFixed (round_to (ch_launch_angle_deg i) 1) 1,
      toFixed (round_to (ch_carry_m i) 0) 0,
      toFixed (round_to (ch_lateral_m i) 0) 0]"

definition computeContentHash :: "(js_string \<Rightarrow> js_string) \<Rightarrow> ContentHashInput \<Rightarrow> js_string" where
  "computeContentHash sha i = sha (join ''|'' (content_parts i))"

section \<open>Specification\<close>

text \<open>What two shots must share: user, club, minute bucket, tenths of metres per second and of
  degrees, whole metres.\<close>

definition tenths :: "number \<Rightarrow> int" where
  "tenths x = Math_round (fl (x * 10))"

definition content_key ::
    "ContentHashInput \<Rightarrow> js_string \<times> js_string \<times> js_string \<times> int \<times> int \<times> int \<times> int" where
  "content_key i =
     (ch_vendor_user_id i, ch_club_code i, minuteBucket (ch_captured_at_utc i),
      tenths (ch_ball_speed_mps i), tenths (ch_launch_angle_deg i),
      Math_round (fl (ch_carry_m i)), Math_round (fl (ch_lateral_m i)))"

text \<open>SHA-256 does not collide on the preimages of two inputs.\<close>

definition collision_free :: "(js_string \<Rightarrow> js_string) \<Rightarrow> ContentHashInput \<Rightarrow> ContentHashInput \<Rightarrow> bool" where
  "collision_free sha i j \<longleftrightarrow>
     (sha (join ''|'' (content_parts i)) = sha (join ''|'' (content_parts j))
      \<longrightarrow> join ''|'' (content_parts i) = join ''|'' (content_parts j))"

text \<open>Magnitudes for which a rounded tenth is exact to print; the schemas allow at most 1500.\<close>

definition measurable :: "number \<Rightarrow> bool" where
  "measurable x \<longleftrightarrow> \<bar>x\<bar> \<le> 10000000"

definition measurable_input :: "ContentHashInput \<Rightarrow> bool" where
  "measurable_input i \<longleftrightarrow>
     measurable (ch_ball_speed_mps i) \<and> measurable (ch_launch_angle_deg i)
     \<and> measurable (ch_carry_m i) \<and> measurable (ch_lateral_m i)
     \<and> CHR ''|'' \<notin> set (ch_club_code i) \<and> CHR ''|'' \<notin> set (minuteBucket (ch_captured_at_utc i))"

section \<open>Lemmas\<close>

lemma Math_round_bound: "\<bar>x\<bar> \<le> of_int b \<Longrightarrow> \<bar>Math_round x\<bar> \<le> b"
  using Math_round_mono [of "- of_int b" x] Math_round_mono [of x "of_int b"]
    Math_round_of_int [of b] Math_round_of_int [of "- b"]
  by (auto simp: abs_le_iff simp del: Math_round_of_int)

lemma fl_bound: "\<bar>x\<bar> \<le> of_int b \<Longrightarrow> \<bar>b\<bar> \<le> 2 ^ 53 \<Longrightarrow> \<bar>fl x\<bar> \<le> of_int b"
  using fl_mono [of x "of_int b"] fl_mono [of "- of_int b" x]
  by (simp add: fl_minus fl_int_small abs_le_iff)

lemma toFixed_quotient:
  assumes "\<bar>k\<bar> \<le> 1000000000" and "f \<le> 1"
  shows "toFixed (fl (of_int k / 10 ^ f)) f =
           (if k < 0 then ''-'' else []) @ fixed_digits f (nat \<bar>k\<bar>)"
proof -
  define x where "x = fl (of_int k / 10 ^ f)"
  have kr: "\<bar>of_int k :: rat\<bar> \<le> 1000000000"
    using assms(1) by (metis of_int_abs of_int_le_iff of_int_numeral)
  have p: "(1::rat) \<le> 10 ^ f" "(10::rat) ^ f \<le> 10" using assms(2) power_increasing [of f 1 "10::rat"] by auto
  then have "\<bar>of_int k / 10 ^ f :: rat\<bar> \<le> \<bar>of_int k\<bar>"
    by (simp add: abs_divide divide_le_eq mult_left_le [of _ "\<bar>of_int k\<bar>"] mult_le_cancel_left1)
  with kr have "\<bar>of_int k / 10 ^ f :: rat\<bar> < 2 ^ 40" by simp
  then have err: "\<bar>x - of_int k / 10 ^ f\<bar> \<le> 1 / 2 ^ 14"
    unfolding x_def by (rule fl_err_small)
  have xk: "\<bar>x * 10 ^ f - of_int k\<bar> \<le> 10 / 2 ^ 14"
  proof -
    have "x * 10 ^ f - of_int k = (x - of_int k / 10 ^ f) * 10 ^ f" by (simp add: field_simps)
    then have "\<bar>x * 10 ^ f - of_int k\<bar> = \<bar>x - of_int k / 10 ^ f\<bar> * 10 ^ f"
      by (simp add: abs_mult)
    also have "\<dots> \<le> 1 / 2 ^ 14 * 10" by (rule mult_mono [OF err p(2)]) simp_all
    finally show ?thesis by simp
  qed
  have near: "of_int k - 1 / 1024 \<le> x * 10 ^ f" "x * 10 ^ f \<le> of_int k + 1 / 1024"
    using abs_le_D1 [OF xk] abs_le_D2 [OF xk] by (simp_all add: field_simps)
  have sgn: "x < 0 \<longleftrightarrow> k < 0"
  proof
    assume "x < 0"
    then have "x * 10 ^ f < 0" by (simp add: mult_neg_pos)
    with near(1) have "(of_int k :: rat) < of_int 1" unfolding of_int_1 by linarith
    then have "k < 1" by (simp only: of_int_less_iff)
    moreover have "k \<noteq> 0" using \<open>x < 0\<close> by (auto simp: x_def)
    ultimately show "k < 0" by simp
  next
    assume "k < 0"
    then have "k \<le> - 1" by simp
    then have "(of_int k :: rat) \<le> of_int (- 1)" by (simp only: of_int_le_iff)
    with near(2) have "x * 10 ^ f < 0" by simp
    then show "x < 0" by (simp add: mult_less_0_iff)
  qed
  have "\<bar>\<bar>x\<bar> * 10 ^ f - of_int \<bar>k\<bar>\<bar> = \<bar>x * 10 ^ f - of_int k\<bar>"
    using sgn by (cases "k < 0") (simp_all add: abs_minus_commute)
  with xk have "\<lfloor>\<bar>x\<bar> * 10 ^ f + 1 / 2\<rfloor> = \<bar>k\<bar>"
    using Math_round_near [of "\<bar>x\<bar> * 10 ^ f" "\<bar>k\<bar>"] by (simp add: Math_round_def)
  then show ?thesis by (simp add: toFixed_def sgn flip: x_def)
qed

lemma toFixed_round_to:
  assumes "measurable x" and "f \<le> 1"
  shows "toFixed (round_to x f) f =
           (let k = Math_round (fl (x * 10 ^ f))
            in (if k < 0 then ''-'' else []) @ fixed_digits f (nat \<bar>k\<bar>))"
proof -
  have "\<bar>x * 10 ^ f\<bar> \<le> of_int 100000000"
  proof -
    have "\<bar>x\<bar> * 10 ^ f \<le> 10000000 * 10"
      using assms power_increasing [of f 1 "10::rat"] by (intro mult_mono) (auto simp: measurable_def)
    then show ?thesis by (simp add: abs_mult)
  qed
  then have "\<bar>fl (x * 10 ^ f)\<bar> \<le> of_int 100000000" by (rule fl_bound) simp
  then have "\<bar>Math_round (fl (x * 10 ^ f))\<bar> \<le> 1000000000"
    using Math_round_bound [of "fl (x * 10 ^ f)" 100000000] by simp
  from toFixed_quotient [OF this assms(2)] show ?thesis
    by (simp add: round_to_def Let_def)
qed

lemma signed_digits_inj:
  "(if j < 0 then ''-'' else []) @ fixed_digits f (nat \<bar>j\<bar>)
   = (if k < 0 then ''-'' else []) @ fixed_digits f (nat \<bar>k\<bar>) \<longleftrightarrow> j = k"
proof -
  have no: "fixed_digits f m \<noteq> CHR ''-'' # s" "CHR ''-'' # s \<noteq> fixed_digits f m" for m s
    using fixed_digits_chars [of "CHR ''-''" f m] by (cases "fixed_digits f m"; auto)+
  show ?thesis by (auto simp: fixed_digits_inj no)
qed

lemma content_parts_tail_no_bar:
  "measurable_input i \<Longrightarrow> \<forall>z \<in> set (tl (content_parts i)). CHR ''|'' \<notin> set z"
  by (simp add: content_parts_def measurable_input_def toFixed_no_bar)

lemma content_parts_key:
  assumes "measurable_input i" and "measurable_input j"
  shows "content_parts i = content_parts j \<longleftrightarrow> content_key i = content_key j"
  using assms
  by (simp add: content_parts_def content_key_def measurable_input_def toFixed_round_to Let_def
      signed_digits_inj tenths_def)

lemma content_preimage_inj:
  assumes "measurable_input i" and "measurable_input j"
  shows "join ''|'' (content_parts i) = join ''|'' (content_parts j) \<longleftrightarrow> content_parts i = content_parts j"
proof
  assume eq: "join ''|'' (content_parts i) = join ''|'' (content_parts j)"
  have shape: "content_parts k = ch_vendor_user_id k # tl (content_parts k)" for k
    by (simp add: content_parts_def)
  have "ch_vendor_user_id i = ch_vendor_user_id j \<and> tl (content_parts i) = tl (content_parts j)"
  proof (rule join_inj_tail)
    show "length (tl (content_parts i)) = length (tl (content_parts j))" by (simp add: content_parts_def)
    show "join ''|'' (ch_vendor_user_id i # tl (content_parts i)) =
          join ''|'' (ch_vendor_user_id j # tl (content_parts j))"
      using eq shape by metis
    show "\<forall>z \<in> set (tl (content_parts i)). CHR ''|'' \<notin> set z"
      and "\<forall>z \<in> set (tl (content_parts j)). CHR ''|'' \<notin> set z"
      using content_parts_tail_no_bar [OF assms(1)] content_parts_tail_no_bar [OF assms(2)] by simp_all
  qed
  then show "content_parts i = content_parts j" using shape by metis
qed simp

lemma content_hash_cong:
  "content_parts i = content_parts j \<Longrightarrow> computeContentHash sha i = computeContentHash sha j"
  by (simp add: computeContentHash_def)

section \<open>Properties\<close>

text \<open>C28: two shots have the same hash exactly when user, club and minute agree and the
  measurements agree after rounding (speed and launch to a tenth, carry and lateral to a metre),
  provided SHA-256 does not collide on their two preimages.\<close>

theorem computeContentHash_iff:
  assumes "measurable_input i" and "measurable_input j"
    and "collision_free sha i j"
  shows "computeContentHash sha i = computeContentHash sha j \<longleftrightarrow> content_key i = content_key j"
  using assms content_preimage_inj [OF assms(1,2)] content_parts_key [OF assms(1,2)]
  by (auto simp: computeContentHash_def collision_free_def)

definition sample_input :: ContentHashInput where
  "sample_input =
     \<lparr>ch_vendor_user_id = ''fixed-user'', ch_club_code = ''7I'',
      ch_captured_at_utc = ''2024-01-01T12:00:00Z'',
      ch_ball_speed_mps = fl (579 / 10), ch_launch_angle_deg = fl (178 / 10),
      ch_carry_m = 142, ch_lateral_m = - 1\<rparr>"

lemma sample_parts:
  "content_parts sample_input =
     [''fixed-user'', ''7I'', ''2024-01-01T12:00'', ''57.9'', ''17.8'', ''142'', ''-1'']"
  by (simp add: sample_input_def content_parts_def minuteBucket_def slice_def round_to_def
      Math_round_def toFixed_def fixed_digits_def fl_eval dec_eval)

lemma sample_measurable: "measurable_input sample_input"
  by (simp add: sample_input_def measurable_input_def measurable_def minuteBucket_def slice_def fl_eval)

theorem computeContentHash_iff_witness:
  "measurable_input sample_input
   \<and> join ''|'' (content_parts sample_input) = ''fixed-user|7I|2024-01-01T12:00|57.9|17.8|142|-1''
   \<and> (computeContentHash (\<lambda>s. s) sample_input
        = computeContentHash (\<lambda>s. s) (sample_input\<lparr>ch_carry_m := fl (1424 / 10)\<rparr>)
      \<longleftrightarrow> content_key sample_input = content_key (sample_input\<lparr>ch_carry_m := fl (1424 / 10)\<rparr>))"
proof -
  have m: "measurable_input (sample_input\<lparr>ch_carry_m := fl (1424 / 10)\<rparr>)"
    by (simp add: sample_input_def measurable_input_def measurable_def minuteBucket_def slice_def fl_eval)
  show ?thesis
    using computeContentHash_iff [OF sample_measurable m, of "\<lambda>s. s"]
    by (simp add: sample_measurable sample_parts collision_free_def)
qed

end
