(* ===== verification/Shot.thy ===== *)
theory Shot
  imports Js_Value Club_Code Content_Hash
begin

text \<open>
  \<open>shared/domain/shot.ts\<close> and \<open>shared/errors/domain-errors.ts\<close>: vendors, the normalised
  shot, the domain errors with their HTTP mapping. The fields of \<open>NormalisedShot\<close> other than
  \<open>raw_payload\<close> form \<open>ShotCore\<close>, so that "the shot without its raw payload" is a type. The
  exceptions the handlers let through are one sum, \<open>exn\<close>.
\<close>

section \<open>Shots\<close>

datatype Vendor = Trackpro | Swingmetric | Proswing

definition VALID_VENDORS :: "(js_string \<times> Vendor) list" where
  "VALID_VENDORS = [(''trackpro'', Trackpro), (''swingmetric'', Swingmetric), (''proswing'', Proswing)]"

definition vendor_string :: "Vendor \<Rightarrow> js_string" where
  "vendor_string v = (case v of Trackpro \<Rightarrow> ''trackpro'' | Swingmetric \<Rightarrow> ''swingmetric'' | Proswing \<Rightarrow> ''proswing'')"

record ShotCore =
  canonical_shot_id :: js_string
  vendor :: Vendor
  vendor_shot_id :: "js_string option"
  idempotency_key :: js_string
  vendor_user_id :: js_string
  canonical_user_id :: "js_string option"
  captured_at_utc :: js_string
  captured_at_tz_offset_min :: "int option"
  received_at_utc :: js_string
  club_code :: club_code
  club_raw :: js_string
  ball_speed_mps :: number
  club_head_speed_mps :: "number option"
  launch_angle_deg :: number
  spin_rpm :: "int option"
  carry_m :: number
  total_m :: "number option"
  lateral_m :: number
  device_id :: "js_string option"
  session_id :: "js_string option"
  content_hash :: js_string
  schema_version :: int
  parser_version :: js_string
  duplicate_of :: "js_string option"

record NormalisedShot = ShotCore +
  raw_payload :: jsval

lemma vendor_string_inj [simp]: "vendor_string a = vendor_string b \<longleftrightarrow> a = b"
  by (cases a; cases b) (simp_all add: vendor_string_def)

lemma vendor_lookup: "map_of VALID_VENDORS s = Some v \<longleftrightarrow> s = vendor_string v"
  by (cases v) (auto simp: VALID_VENDORS_def vendor_string_def)

section \<open>Errors\<close>

datatype DomainError =
    InvalidCursorError
  | InvalidDateError js_string js_string
  | UnknownVendorError js_string
  | UnknownClubCodeError js_string
  | IdentityNotFoundError js_string js_string js_string

definition error_code :: "DomainError \<Rightarrow> js_string" where
  "error_code e =
     (case e of
        InvalidCursorError \<Rightarrow> ''INVALID_CURSOR''
      | InvalidDateError field value \<Rightarrow> ''PAYLOAD_VALIDATION_FAILED''
      | UnknownVendorError v \<Rightarrow> ''PAYLOAD_VALIDATION_FAILED''
      | UnknownClubCodeError c \<Rightarrow> ''PAYLOAD_VALIDATION_FAILED''
      | IdentityNotFoundError v u c \<Rightarrow> ''NOT_FOUND'')"

definition domainErrorToHttp :: "DomainError \<Rightarrow> nat \<times> js_string" where
  "domainErrorToHttp e =
     (if error_code e = ''INVALID_CURSOR'' \<or> error_code e = ''PAYLOAD_VALIDATION_FAILED''
      then (400, error_code e)
      else if error_code e = ''NOT_FOUND'' then (404, ''NOT_FOUND'')
      else (500, ''INTERNAL_ERROR''))"

text \<open>Exceptions: domain errors, NestJS HTTP exceptions with status, error code and
  \<open>retryAfter\<close>, a \<open>RangeError\<close> or \<open>TypeError\<close> of the language, and failures of the database or
  Redis.\<close>

datatype exn =
    Domain DomainError
  | Http nat "js_string option" "nat option"
  | RangeError
  | TypeError
  | DbError
  | RedisError

lemma domainErrorToHttp_cases:
  "domainErrorToHttp InvalidCursorError = (400, ''INVALID_CURSOR'')"
  "domainErrorToHttp (InvalidDateError f v) = (400, ''PAYLOAD_VALIDATION_FAILED'')"
  "domainErrorToHttp (UnknownVendorError v) = (400, ''PAYLOAD_VALIDATION_FAILED'')"
  "domainErrorToHttp (UnknownClubCodeError c) = (400, ''PAYLOAD_VALIDATION_FAILED'')"
  "domainErrorToHttp (IdentityNotFoundError v u c) = (404, ''NOT_FOUND'')"
  by (simp_all add: domainErrorToHttp_def error_code_def)

text \<open>\<open>shared/zod-validation.pipe.ts\<close>: the parsed value, or a bad request.\<close>

definition ZodValidationPipe :: "'a schema \<Rightarrow> jsval \<Rightarrow> exn + 'a" where
  "ZodValidationPipe sc v =
     (case sc v of
        Some r \<Rightarrow> Inr r
      | None \<Rightarrow> Inl (Http 400 (Some ''PAYLOAD_VALIDATION_FAILED'') None))"

lemma zod_pipe_Inr [simp]: "ZodValidationPipe sc v = Inr r \<longleftrightarrow> sc v = Some r"
  by (simp add: ZodValidationPipe_def split: option.splits)

section \<open>The hash input of a shot\<close>

definition hash_input :: "'a ShotCore_scheme \<Rightarrow> ContentHashInput" where
  "hash_input s =
     \<lparr>ch_vendor_user_id = vendor_user_id s, ch_club_code = club_string (club_code s),
      ch_captured_at_utc = captured_at_utc s, ch_ball_speed_mps = ball_speed_mps s,
      ch_launch_angle_deg = launch_angle_deg s, ch_carry_m = carry_m s, ch_lateral_m = lateral_m s\<rparr>"

lemma club_string_no_bar: "CHR ''|'' \<notin> set (club_string (normaliseClub raw))"
proof -
  have v: "c \<in> set VALID_CLUB_CODES \<Longrightarrow> CHR ''|'' \<notin> set c" for c
    by (auto simp: VALID_CLUB_CODES_def)
  have "valid_club c \<Longrightarrow> CHR ''|'' \<notin> set (club_string c)" for c
    by (cases c) (use v in auto)
  moreover have "alias_lookup k = Some c \<Longrightarrow> valid_club c \<or> (\<exists>n. c = Inherited n)" for k c
    by (auto simp: alias_lookup_def alias_map_valid split: option.splits if_splits)
  then have "valid_club (normaliseClub raw) \<or> (\<exists>n. normaliseClub raw = Inherited n)"
    using unknown_valid by (auto simp: normaliseClub_cases Let_def split: option.splits)
  ultimately show ?thesis by (auto split: if_splits)
qed

section \<open>What a parser is run with, and what it promises\<close>

text \<open>Code the parsers call that is not part of the repository: SHA-256, the engine's own
  reading of date strings that are not in the ISO format, zod's format checks.\<close>

record Platform =
  sha256 :: "js_string \<Rightarrow> js_string"
  legacy_date :: "js_string \<Rightarrow> int option"
  datetime_ok :: "js_string \<Rightarrow> bool"
  email_ok :: "js_string \<Rightarrow> bool"

text \<open>zod's date-time check: it only admits strings that \<open>new Date\<close> can read.\<close>

definition datetime_sound :: "Platform \<Rightarrow> bool" where
  "datetime_sound P \<longleftrightarrow> (\<forall>s. datetime_ok P s \<longrightarrow> (\<exists>t. date_parse (legacy_date P) s = Some t))"

text \<open>A freshly parsed shot: whose vendor it is, the server-side fields, a captured time in the
  date-time format, a normalised club, the content hash of its own fields, and measurements in a
  common range.\<close>

definition fresh_shot :: "Vendor \<Rightarrow> (js_string \<Rightarrow> js_string) \<Rightarrow> js_string \<Rightarrow> NormalisedShot \<Rightarrow> bool" where
  "fresh_shot vd sha received s \<longleftrightarrow>
     vendor s = vd \<and> canonical_user_id s = None \<and> duplicate_of s = None
     \<and> received_at_utc s = received \<and> schema_version s = 1 \<and> parser_version s = ''1.0.0''
     \<and> club_code s = normaliseClub (club_raw s)
     \<and> (\<exists>t. \<bar>t\<bar> \<le> 8640000000000000 \<and> captured_at_utc s = iso_format t)
     \<and> content_hash s = computeContentHash sha (hash_input s)
     \<and> 0 \<le> ball_speed_mps s \<and> ball_speed_mps s \<le> 500
     \<and> - 10 \<le> launch_angle_deg s \<and> launch_angle_deg s \<le> 90
     \<and> \<bar>carry_m s\<bar> \<le> 700 \<and> \<bar>lateral_m s\<bar> \<le> 700"

lemma fresh_shot_measurable: "fresh_shot vd sha received s \<Longrightarrow> measurable_input (hash_input s)"
  using club_string_no_bar [of "club_raw s"]
  by (auto simp: fresh_shot_def measurable_input_def measurable_def hash_input_def minuteBucket_def
      slice_def abs_le_iff iso_format_no_bar dest: in_set_takeD)

text \<open>The interface between the vendor parsers and the ingestion: what a parser accepts (its
  schema's output), what it returns, and that whatever it returns is fresh.\<close>

locale vendor_parser =
  fixes vd :: Vendor
    and accepts :: "Platform \<Rightarrow> 'p \<Rightarrow> bool"
    and parse :: "Platform \<Rightarrow> (nat \<Rightarrow> js_string) \<Rightarrow> 'p \<Rightarrow> js_string \<Rightarrow> exn + NormalisedShot list"
  assumes parse_fresh:
    "accepts P p \<Longrightarrow> parse P ids p received = Inr shots \<Longrightarrow> s \<in> set shots \<Longrightarrow>
       fresh_shot vd (sha256 P) received s"
    and parse_error: "accepts P p \<Longrightarrow> parse P ids p received = Inl e \<Longrightarrow> e = RangeError"
begin

text \<open>Two shots of one vendor have equal hashes exactly when their content keys are equal.\<close>

lemma parsed_hash_iff:
  assumes "accepts P p" "parse P ids p received = Inr shots" "s \<in> set shots"
    and "accepts P p'" "parse P ids' p' received' = Inr shots'" "s' \<in> set shots'"
    and "collision_free (sha256 P) (hash_input s) (hash_input s')"
  shows "content_hash s = content_hash s' \<longleftrightarrow> content_key (hash_input s) = content_key (hash_input s')"
proof -
  have f: "fresh_shot vd (sha256 P) received s" "fresh_shot vd (sha256 P) received' s'"
    using parse_fresh assms by blast+
  then have "content_hash s = computeContentHash (sha256 P) (hash_input s)"
    "content_hash s' = computeContentHash (sha256 P) (hash_input s')"
    by (simp_all add: fresh_shot_def)
  then show ?thesis
    using content_preimage_inj [OF f [THEN fresh_shot_measurable]]
      content_parts_key [OF f [THEN fresh_shot_measurable]] assms(7)
    by (auto simp: computeContentHash_def collision_free_def)
qed

lemma parsed_club_valid:
  assumes "accepts P p" "parse P ids p received = Inr shots" "s \<in> set shots"
    and "toLowerCase (trim (club_raw s)) \<notin> set inherited_names"
  shows "valid_club (club_code s)"
  using parse_fresh [OF assms(1-3)] assms(4) normaliseClub_code by (simp add: fresh_shot_def)

end

section \<open>Sample values\<close>

text \<open>A concrete platform for the witnesses: the date-time check admits the strings
  the ISO format reads, the hash is the identity.\<close>

definition sample_platform :: Platform where
  "sample_platform =
     \<lparr>sha256 = (\<lambda>s. s), legacy_date = (\<lambda>s. None), datetime_ok = (\<lambda>s. iso_parse s \<noteq> None),
      email_ok = (\<lambda>s. CHR ''@'' \<in> set s)\<rparr>"

lemma sample_platform_sound: "datetime_sound sample_platform"
  by (auto simp: datetime_sound_def sample_platform_def date_parse_def)

definition sample_normalised :: NormalisedShot where
  "sample_normalised =
     \<lparr>canonical_shot_id = ''01J0000000000000000000000A'', vendor = Trackpro,
      vendor_shot_id = Some ''tp-2024-01-15-00a1b2c3'', idempotency_key = ''tp|tp-2024-01-15-00a1b2c3'',
      vendor_user_id = ''user-1'', canonical_user_id = None, captured_at_utc = ''2024-01-15T08:30:00.000Z'',
      captured_at_tz_offset_min = None, received_at_utc = ''2024-01-15T08:31:00.000Z'',
      club_code = Club ''7I'', club_raw = ''7 Iron'', ball_speed_mps = 55, club_head_speed_mps = None,
      launch_angle_deg = 18, spin_rpm = Some 6500, carry_m = 140, total_m = Some 150, lateral_m = - 3,
      device_id = None, session_id = None, content_hash = ''hash-a'', schema_version = 1,
      parser_version = ''1.0.0'', duplicate_of = None, raw_payload = JObj []\<rparr>"

text \<open>The same shot under another id and at another time, with the hash its parser would give it.\<close>

definition sample_at :: "js_string \<Rightarrow> int \<Rightarrow> NormalisedShot" where
  "sample_at sid t =
     (let s = sample_normalised\<lparr>canonical_shot_id := sid, captured_at_utc := iso_format t\<rparr>
      in s\<lparr>content_hash := computeContentHash (sha256 sample_platform) (hash_input s)\<rparr>)"

lemma sample_at_fields:
  "canonical_shot_id (sample_at sid t) = sid" "captured_at_utc (sample_at sid t) = iso_format t"
  "vendor (sample_at sid t) = Trackpro" "vendor_user_id (sample_at sid t) = ''user-1''"
  "content_hash (sample_at sid t) = computeContentHash (sha256 sample_platform) (hash_input (sample_at sid t))"
  "hash_input (sample_at sid t) = (hash_input sample_normalised)\<lparr>ch_captured_at_utc := iso_format t\<rparr>"
  by (simp_all add: sample_at_def Let_def sample_normalised_def hash_input_def)

lemma sample_at_measurable: "measurable_input (hash_input (sample_at sid t))"
  using iso_format_no_bar [of t] unfolding sample_at_fields
  by (auto simp: measurable_input_def measurable_def hash_input_def sample_normalised_def
      minuteBucket_def slice_def dest: in_set_takeD)

lemma sample_collision_free: "collision_free (sha256 sample_platform) i j"
  by (simp add: collision_free_def sample_platform_def)

end
