(* ===== verification/Queue.thy ===== *)
theory Queue
  imports Shot
begin

text \<open>
  \<open>ingestion/shot-ingestion.queue.ts\<close>: the producer side of the queue. BullMQ is a
  parameter, a record of the three calls the service makes on a queue state of any type, with its
  documented behaviour as the predicate \<open>bullmq\<close>. The concurrent \<open>enqueue\<close> calls of a batch
  are a step relation in which every call reads the depth and adds its job as two separate steps.
\<close>

section \<open>Jobs and the queue's interface\<close>

record ShotJob =
  j_vendor :: Vendor
  j_normalisedShot :: NormalisedShot
  j_correlationId :: js_string
  j_receivedAtUtc :: js_string

record JobOptions =
  o_jobId :: js_string
  o_attempts :: nat
  o_backoff_delay :: nat
  o_removeOnComplete_age :: nat
  o_removeOnFail_age :: nat

record 's BullMQ =
  getWaitingCount :: "'s \<Rightarrow> nat"
  add_job :: "js_string \<Rightarrow> ShotJob \<Rightarrow> JobOptions \<Rightarrow> 's \<Rightarrow> 's \<times> js_string"
  getJob :: "js_string \<Rightarrow> 's \<Rightarrow> ShotJob option"

text \<open>What BullMQ documents: \<open>add\<close> with the id of a job it holds changes nothing and returns
  the id; with a new id it adds one waiting job, found under the id from then on.\<close>

definition bullmq :: "'s BullMQ \<Rightarrow> bool" where
  "bullmq B \<longleftrightarrow>
     (\<forall>name job opts s. snd (add_job B name job opts s) = o_jobId opts
        \<and> (getJob B (o_jobId opts) s \<noteq> None \<longrightarrow> fst (add_job B name job opts s) = s)
        \<and> (getJob B (o_jobId opts) s = None \<longrightarrow>
             getWaitingCount B (fst (add_job B name job opts s)) = Suc (getWaitingCount B s)
             \<and> getJob B (o_jobId opts) (fst (add_job B name job opts s)) = Some job
             \<and> (\<forall>k. k \<noteq> o_jobId opts \<longrightarrow>
                  getJob B k (fst (add_job B name job opts s)) = getJob B k s)))"

section \<open>The service\<close>

definition max_depth :: "nat option \<Rightarrow> nat" where
  "max_depth configured = (case configured of Some n \<Rightarrow> n | None \<Rightarrow> 10000)"

definition at_capacity :: exn where
  "at_capacity = Http 503 (Some ''SERVICE_UNAVAILABLE'') (Some 30)"

definition job_options :: "NormalisedShot \<Rightarrow> JobOptions" where
  "job_options shot =
     \<lparr>o_jobId = idempotency_key shot, o_attempts = 5, o_backoff_delay = 1000,
      o_removeOnComplete_age = 86400, o_removeOnFail_age = 86400 * 7\<rparr>"

text \<open>The two awaits of \<open>enqueue\<close>: the depth check and the \<open>add\<close>.\<close>

definition depth_check :: "'s BullMQ \<Rightarrow> nat option \<Rightarrow> 's \<Rightarrow> exn option" where
  "depth_check B configured s =
     (if max_depth configured \<le> getWaitingCount B s then Some at_capacity else None)"

definition add_shot ::
    "'s BullMQ \<Rightarrow> NormalisedShot \<Rightarrow> js_string \<Rightarrow> js_string \<Rightarrow> 's \<Rightarrow> 's \<times> js_string" where
  "add_shot B shot correlationId receivedAtUtc s =
     add_job B ''normalise''
       \<lparr>j_vendor = vendor shot, j_normalisedShot = shot, j_correlationId = correlationId,
        j_receivedAtUtc = receivedAtUtc\<rparr>
       (job_options shot) s"

definition enqueue ::
    "'s BullMQ \<Rightarrow> nat option \<Rightarrow> NormalisedShot \<Rightarrow> js_string \<Rightarrow> js_string \<Rightarrow> 's
       \<Rightarrow> (exn + js_string) \<times> 's" where
  "enqueue B configured shot correlationId receivedAtUtc s =
     (case depth_check B configured s of
        Some e \<Rightarrow> (Inl e, s)
      | None \<Rightarrow> (let (s', jobId) = add_shot B shot correlationId receivedAtUtc s in (Inr jobId, s')))"

definition checkBatchCapacity :: "'s BullMQ \<Rightarrow> nat option \<Rightarrow> nat \<Rightarrow> 's \<Rightarrow> exn + unit" where
  "checkBatchCapacity B configured batchSize s =
     (if max_depth configured < getWaitingCount B s + batchSize then Inl at_capacity else Inr ())"

definition isJobIdKnown :: "'s BullMQ \<Rightarrow> js_string \<Rightarrow> 's \<Rightarrow> bool" where
  "isJobIdKnown B jobId s \<longleftrightarrow> getJob B jobId s \<noteq> None"

text \<open>\<open>Promise.all(shots.map(enqueue))\<close> on one connection: every call's depth check is sent
  before the first \<open>add\<close>, so all of them see the same depth; then the jobs are added in order.\<close>

fun add_all ::
    "'s BullMQ \<Rightarrow> js_string \<Rightarrow> js_string \<Rightarrow> NormalisedShot list \<Rightarrow> 's \<Rightarrow> 's" where
  "add_all B correlationId receivedAtUtc [] s = s"
| "add_all B correlationId receivedAtUtc (x # xs) s =
     add_all B correlationId receivedAtUtc xs (fst (add_shot B x correlationId receivedAtUtc s))"

definition enqueue_all ::
    "'s BullMQ \<Rightarrow> nat option \<Rightarrow> NormalisedShot list \<Rightarrow> js_string \<Rightarrow> js_string \<Rightarrow> 's
       \<Rightarrow> (exn + unit) \<times> 's" where
  "enqueue_all B configured shots correlationId receivedAtUtc s =
     (case depth_check B configured s of
        Some e \<Rightarrow> if shots = [] then (Inr (), s) else (Inl e, s)
      | None \<Rightarrow> (Inr (), add_all B correlationId receivedAtUtc shots s))"

section \<open>Any interleaving of a batch\<close>

datatype call = Started | Checked | Done | Rejected

record 's batch =
  b_queue :: 's
  b_calls :: "call list"

text \<open>The steps of the calls of one batch, and of the workers, which only take jobs away from the
  waiting list.\<close>

inductive batch_step ::
    "'s BullMQ \<Rightarrow> nat option \<Rightarrow> NormalisedShot list \<Rightarrow> js_string \<Rightarrow> js_string
       \<Rightarrow> 's batch \<Rightarrow> 's batch \<Rightarrow> bool"
  for B configured shots corr received where
  check_ok: "i < length (b_calls s) \<Longrightarrow> b_calls s ! i = Started \<Longrightarrow>
     depth_check B configured (b_queue s) = None \<Longrightarrow>
     batch_step B configured shots corr received s (s\<lparr>b_calls := (b_calls s)[i := Checked]\<rparr>)"
| check_full: "i < length (b_calls s) \<Longrightarrow> b_calls s ! i = Started \<Longrightarrow>
     depth_check B configured (b_queue s) = Some e \<Longrightarrow>
     batch_step B configured shots corr received s (s\<lparr>b_calls := (b_calls s)[i := Rejected]\<rparr>)"
| add: "i < length (b_calls s) \<Longrightarrow> b_calls s ! i = Checked \<Longrightarrow>
     batch_step B configured shots corr received s
       (s\<lparr>b_calls := (b_calls s)[i := Done],
          b_queue := fst (add_shot B (shots ! i) corr received (b_queue s))\<rparr>)"
| worker: "getWaitingCount B q \<le> getWaitingCount B (b_queue s) \<Longrightarrow>
     (\<forall>k. getJob B k (b_queue s) \<noteq> None \<longrightarrow> getJob B k q \<noteq> None) \<Longrightarrow>
     batch_step B configured shots corr received s (s\<lparr>b_queue := q\<rparr>)"

inductive batch_reachable ::
    "'s BullMQ \<Rightarrow> nat option \<Rightarrow> NormalisedShot list \<Rightarrow> js_string \<Rightarrow> js_string \<Rightarrow> 's
       \<Rightarrow> 's batch \<Rightarrow> bool"
  for B configured shots corr received q where
  start: "batch_reachable B configured shots corr received q
            \<lparr>b_queue = q, b_calls = replicate (length shots) Started\<rparr>"
| step: "batch_reachable B configured shots corr received q s \<Longrightarrow>
     batch_step B configured shots corr received s t \<Longrightarrow>
     batch_reachable B configured shots corr received q t"

inductive_cases batch_stepE: "batch_step B configured shots corr received s t"

section \<open>Lemmas\<close>

text \<open>The calls that may still add a job.\<close>

definition is_open :: "call \<Rightarrow> bool" where
  "is_open c \<longleftrightarrow> c = Started \<or> c = Checked"

fun open_calls :: "call list \<Rightarrow> nat" where
  "open_calls [] = 0"
| "open_calls (c # cs) = (if is_open c then 1 else 0) + open_calls cs"

lemma open_calls_update:
  "i < length cs \<Longrightarrow>
     open_calls (cs[i := c]) + (if is_open (cs ! i) then 1 else 0) = open_calls cs + (if is_open c then 1 else 0)"
proof (induction cs arbitrary: i)
  case (Cons x xs)
  show ?case
  proof (cases i)
    case (Suc k)
    then show ?thesis using Cons.IH [of k] Cons.prems by simp
  qed simp
qed simp

lemma open_calls_pos: "i < length cs \<Longrightarrow> is_open (cs ! i) \<Longrightarrow> 0 < open_calls cs"
proof (induction cs arbitrary: i)
  case (Cons x xs)
  then show ?case by (cases i) auto
qed simp

lemma is_open_simps [simp]: "is_open Started" "is_open Checked" "\<not> is_open Done" "\<not> is_open Rejected"
  by (simp_all add: is_open_def)

lemma add_shot_spec:
  assumes "bullmq B"
  shows "snd (add_shot B x corr r s) = idempotency_key x"
    and "getJob B (idempotency_key x) (fst (add_shot B x corr r s)) \<noteq> None"
    and "getJob B k s \<noteq> None \<Longrightarrow> getJob B k (fst (add_shot B x corr r s)) = getJob B k s"
    and "getWaitingCount B (fst (add_shot B x corr r s)) \<le> Suc (getWaitingCount B s)"
    and "getJob B (idempotency_key x) s \<noteq> None \<Longrightarrow> fst (add_shot B x corr r s) = s"
proof -
  define job where "job = \<lparr>j_vendor = vendor x, j_normalisedShot = x, j_correlationId = corr, j_receivedAtUtc = r\<rparr>"
  have k: "o_jobId (job_options x) = idempotency_key x" by (simp add: job_options_def)
  have spec: "snd (add_shot B x corr r s) = idempotency_key x"
    "getJob B (idempotency_key x) s \<noteq> None \<Longrightarrow> fst (add_shot B x corr r s) = s"
    "getJob B (idempotency_key x) s = None \<Longrightarrow>
       getWaitingCount B (fst (add_shot B x corr r s)) = Suc (getWaitingCount B s)
       \<and> getJob B (idempotency_key x) (fst (add_shot B x corr r s)) = Some job
       \<and> (\<forall>k. k \<noteq> idempotency_key x \<longrightarrow> getJob B k (fst (add_shot B x corr r s)) = getJob B k s)"
    using assms unfolding bullmq_def add_shot_def job_def [symmetric] k [symmetric] by blast+
  then show "snd (add_shot B x corr r s) = idempotency_key x"
    "getJob B (idempotency_key x) s \<noteq> None \<Longrightarrow> fst (add_shot B x corr r s) = s" by blast+
  show "getJob B (idempotency_key x) (fst (add_shot B x corr r s)) \<noteq> None"
    and "getWaitingCount B (fst (add_shot B x corr r s)) \<le> Suc (getWaitingCount B s)"
    using spec by (cases "getJob B (idempotency_key x) s"; simp)+
  show "getJob B k s \<noteq> None \<Longrightarrow> getJob B k (fst (add_shot B x corr r s)) = getJob B k s"
    using spec by (cases "k = idempotency_key x"; cases "getJob B (idempotency_key x) s") auto
qed

lemma depth_check_None: "depth_check B c s = None \<longleftrightarrow> getWaitingCount B s < max_depth c"
  by (auto simp: depth_check_def)

text \<open>The invariant of a batch that fits: the jobs still to come fit as well, no call was rejected,
  and every finished call's job is known.\<close>

definition batch_inv :: "'s BullMQ \<Rightarrow> nat option \<Rightarrow> NormalisedShot list \<Rightarrow> 's batch \<Rightarrow> bool" where
  "batch_inv B configured shots s \<longleftrightarrow>
     length (b_calls s) = length shots
     \<and> getWaitingCount B (b_queue s) + open_calls (b_calls s) \<le> max_depth configured
     \<and> Rejected \<notin> set (b_calls s)
     \<and> (\<forall>i < length shots. b_calls s ! i = Done \<longrightarrow>
          isJobIdKnown B (idempotency_key (shots ! i)) (b_queue s))"

lemma batch_step_inv:
  assumes "bullmq B" and "batch_step B c shots corr r s t" and "batch_inv B c shots s"
  shows "batch_inv B c shots t"
  using assms(2)
proof cases
  case (check_ok i)
  then show ?thesis
    using assms(3) open_calls_update [of i "b_calls s" Checked] set_update_subset_insert [of "b_calls s" i Checked]
    by (auto simp: batch_inv_def nth_list_update)
next
  case (check_full i e)
  then have "max_depth c \<le> getWaitingCount B (b_queue s)" by (simp add: depth_check_def split: if_splits)
  moreover have "0 < open_calls (b_calls s)" using check_full open_calls_pos [of i "b_calls s"] by simp
  ultimately show ?thesis using assms(3) by (simp add: batch_inv_def)
next
  case (add i)
  let ?q = "fst (add_shot B (shots ! i) corr r (b_queue s))"
  have "getWaitingCount B ?q \<le> Suc (getWaitingCount B (b_queue s))"
    by (rule add_shot_spec(4) [OF assms(1)])
  moreover have "open_calls ((b_calls s)[i := Done]) + 1 = open_calls (b_calls s)"
    using open_calls_update [OF add(2), of Done] add(3) by simp
  moreover have "isJobIdKnown B k ?q" if "isJobIdKnown B k (b_queue s) \<or> k = idempotency_key (shots ! i)" for k
    using that add_shot_spec(2) [OF assms(1), of "shots ! i" corr r "b_queue s"]
      add_shot_spec(3) [OF assms(1), of k "b_queue s" "shots ! i" corr r]
    by (auto simp: isJobIdKnown_def)
  ultimately show ?thesis
    using assms(3) add set_update_subset_insert [of "b_calls s" i Done]
    by (auto simp: batch_inv_def nth_list_update)
next
  case (worker q)
  then show ?thesis using assms(3) by (auto simp: batch_inv_def isJobIdKnown_def)
qed

lemma batch_reachable_inv:
  assumes "bullmq B" and "checkBatchCapacity B c (length shots) q = Inr ()"
  shows "batch_reachable B c shots corr r q s \<Longrightarrow> batch_inv B c shots s"
proof (induction rule: batch_reachable.induct)
  case start
  have "open_calls (replicate n Started) = n" for n by (induction n) simp_all
  then show ?case
    using assms(2) by (auto simp: batch_inv_def checkBatchCapacity_def split: if_splits)
next
  case (step s t)
  then show ?case using batch_step_inv [OF assms(1)] by blast
qed

lemma add_all_known:
  assumes "bullmq B"
  shows "getJob B k s \<noteq> None \<Longrightarrow> getJob B k (add_all B corr r xs s) = getJob B k s"
    and "x \<in> set xs \<Longrightarrow> getJob B (idempotency_key x) (add_all B corr r xs s) \<noteq> None"
    and "getWaitingCount B (add_all B corr r xs s) \<le> getWaitingCount B s + length xs"
proof -
  show keep: "getJob B k s \<noteq> None \<Longrightarrow> getJob B k (add_all B corr r xs s) = getJob B k s" for k s xs
    by (induction xs arbitrary: s) (simp_all add: add_shot_spec(3) [OF assms])
  show "x \<in> set xs \<Longrightarrow> getJob B (idempotency_key x) (add_all B corr r xs s) \<noteq> None"
  proof (induction xs arbitrary: s)
    case (Cons y ys)
    have y: "getJob B (idempotency_key y) (fst (add_shot B y corr r s)) \<noteq> None"
      by (rule add_shot_spec(2) [OF assms])
    from Cons show ?case using keep [OF y] y by (cases "x \<in> set ys") auto
  qed simp
  show "getWaitingCount B (add_all B corr r xs s) \<le> getWaitingCount B s + length xs"
  proof (induction xs arbitrary: s)
    case (Cons y ys)
    have "getWaitingCount B (add_all B corr r ys (fst (add_shot B y corr r s)))
          \<le> getWaitingCount B (fst (add_shot B y corr r s)) + length ys" by (rule Cons.IH)
    also have "\<dots> \<le> Suc (getWaitingCount B s) + length ys" using add_shot_spec(4) [OF assms] by simp
    finally show ?case by simp
  qed simp
qed

section \<open>Properties\<close>

text \<open>A queue for the witnesses: the jobs in the order of their addition.\<close>

definition list_queue :: "(js_string \<times> ShotJob) list BullMQ" where
  "list_queue =
     \<lparr>getWaitingCount = length,
      add_job = (\<lambda>name job opts q.
        (if map_of q (o_jobId opts) = None then q @ [(o_jobId opts, job)] else q, o_jobId opts)),
      getJob = (\<lambda>k q. map_of q k)\<rparr>"

lemma list_queue_ok: "bullmq list_queue"
  by (auto simp: bullmq_def list_queue_def map_add_def split: option.splits)

text \<open>C32: \<open>enqueue\<close> refuses exactly when the depth has reached the maximum (10000 when none is
  configured), with a 503 that says to retry after 30 seconds and with the queue untouched.
  Otherwise the job is known under the shot's idempotency key afterwards, no other job is
  disturbed, and submitting the same key again changes nothing.\<close>

theorem enqueue_contract:
  assumes "bullmq B"
  shows "(max_depth configured \<le> getWaitingCount B s \<longrightarrow>
            enqueue B configured x corr r s = (Inl (Http 503 (Some ''SERVICE_UNAVAILABLE'') (Some 30)), s))
         \<and> (getWaitingCount B s < max_depth configured \<longrightarrow>
              (\<exists>s'. enqueue B configured x corr r s = (Inr (idempotency_key x), s')
                 \<and> isJobIdKnown B (idempotency_key x) s'
                 \<and> getWaitingCount B s' \<le> max_depth configured
                 \<and> (\<forall>k. getJob B k s \<noteq> None \<longrightarrow> getJob B k s' = getJob B k s)
                 \<and> fst (add_shot B x corr' r' s') = s'
                 \<and> (isJobIdKnown B (idempotency_key x) s \<longrightarrow> s' = s)))"
proof -
  let ?s = "fst (add_shot B x corr r s)"
  note spec = add_shot_spec [OF assms]
  have "enqueue B configured x corr r s = (Inr (idempotency_key x), ?s)"
    if "getWaitingCount B s < max_depth configured"
    using that spec(1) [of x corr r s]
    by (cases "add_shot B x corr r s") (simp add: enqueue_def depth_check_None [THEN iffD2])
  moreover have "getWaitingCount B ?s \<le> max_depth configured" if "getWaitingCount B s < max_depth configured"
    using spec(4) [of x corr r s] that by simp
  ultimately show ?thesis
    using spec(2) [of x corr r s] spec(3) [of _ s x corr r] spec(5) [of x s corr r]
      spec(5) [of x ?s corr' r']
    by (auto simp: enqueue_def depth_check_def at_capacity_def isJobIdKnown_def)
qed

text \<open>C12: once \<open>checkBatchCapacity\<close> has passed, no interleaving of the batch's depth checks and
  additions (with workers draining the queue meanwhile) rejects a shot or lets the depth pass the
  maximum, and when every call is done every shot's job is known.\<close>

theorem batch_interleaving_safe:
  assumes "bullmq B" and "checkBatchCapacity B configured (length shots) q = Inr ()"
    and "batch_reachable B configured shots corr r q s"
  shows "Rejected \<notin> set (b_calls s)
         \<and> getWaitingCount B (b_queue s) \<le> max_depth configured
         \<and> ((\<forall>c \<in> set (b_calls s). c = Done) \<longrightarrow>
              (\<forall>x \<in> set shots. isJobIdKnown B (idempotency_key x) (b_queue s)))"
proof -
  have "batch_inv B configured shots s" by (rule batch_reachable_inv [OF assms])
  then have "isJobIdKnown B (idempotency_key x) (b_queue s)"
    if "\<forall>c \<in> set (b_calls s). c = Done" "x \<in> set shots" for x
    using that nth_mem [of _ "b_calls s"] by (auto simp: batch_inv_def in_set_conv_nth [of x])
  with \<open>batch_inv B configured shots s\<close> show ?thesis by (auto simp: batch_inv_def)
qed

theorem enqueue_contract_witness:
  "\<exists>q. enqueue list_queue (Some 1) sample_normalised ''c'' ''r'' [] = (Inr ''tp|tp-2024-01-15-00a1b2c3'', q)
       \<and> length q \<le> 1
       \<and> enqueue list_queue (Some 0) sample_normalised ''c'' ''r'' []
         = (Inl (Http 503 (Some ''SERVICE_UNAVAILABLE'') (Some 30)), [])"
  using enqueue_contract [OF list_queue_ok, of "Some 1" "[]" sample_normalised "''c''" "''r''"]
    enqueue_contract [OF list_queue_ok, of "Some 0" "[]" sample_normalised "''c''" "''r''"]
  by (auto simp: list_queue_def max_depth_def sample_normalised_def)

theorem batch_interleaving_safe_witness:
  "batch_reachable list_queue (Some 1) [sample_normalised] ''c'' ''r'' [] \<lparr>b_queue = [], b_calls = [Checked]\<rparr>
   \<and> Rejected \<notin> set (b_calls \<lparr>b_queue = [] :: (js_string \<times> ShotJob) list, b_calls = [Checked]\<rparr>)"
proof -
  let ?s = "\<lparr>b_queue = [] :: (js_string \<times> ShotJob) list, b_calls = [Started]\<rparr>"
  have "batch_reachable list_queue (Some 1) [sample_normalised] ''c'' ''r'' [] ?s"
    using batch_reachable.start [of list_queue "Some 1" "[sample_normalised]"] by simp
  moreover have "batch_step list_queue (Some 1) [sample_normalised] ''c'' ''r'' ?s (?s\<lparr>b_calls := [Checked]\<rparr>)"
    using batch_step.check_ok [of 0 ?s list_queue "Some 1"]
    by (simp add: depth_check_def list_queue_def max_depth_def)
  ultimately have r: "batch_reachable list_queue (Some 1) [sample_normalised] ''c'' ''r'' [] (?s\<lparr>b_calls := [Checked]\<rparr>)"
    by (rule batch_reachable.step)
  have "checkBatchCapacity list_queue (Some 1) (length [sample_normalised]) [] = Inr ()"
    by (simp add: checkBatchCapacity_def list_queue_def max_depth_def)
  from batch_interleaving_safe [OF list_queue_ok this r] r show ?thesis by simp
qed

end
