(* ===== verification/Database.thy ===== *)
theory Database
  imports Shot
begin

text \<open>
  \<open>shared/kysely/types.ts\<close> and \<open>migrations/001_init.sql\<close>: the tables the services use, as
  lists of rows in insertion order, with the constraints PostgreSQL enforces on them. A statement
  that violates a constraint is \<open>DbError\<close>. A \<open>BIGSERIAL\<close> column is a counter of the state; a
  statement's \<open>now()\<close> is an argument, in epoch milliseconds. Time stamps are kept in the string
  form in which the driver returns them and are compared as instants.
\<close>

section \<open>Tables\<close>

record OutboxRow =
  ob_id :: nat
  ob_event_type :: js_string
  ob_payload :: ShotCore
  ob_created_at :: int

record IngestionFailure =
  if_vendor :: Vendor
  if_received_at_utc :: js_string
  if_raw_body :: js_string
  if_http_status :: int
  if_error_code :: js_string
  if_error_detail :: jsval
  if_correlation_id :: "js_string option"

record UserIdentity =
  ui_id :: nat
  ui_vendor :: Vendor
  ui_vendor_user_id :: js_string
  ui_canonical_user_id :: js_string
  ui_created_at :: int
  ui_updated_at :: int

record AuditEntry =
  au_action :: js_string
  au_actor :: js_string
  au_canonical_user_id :: "js_string option"
  au_vendor :: "Vendor option"
  au_vendor_user_id :: "js_string option"
  au_metadata :: "jsval option"

record Db =
  shots :: "NormalisedShot list"
  outbox_events :: "OutboxRow list"
  ingestion_failures :: "IngestionFailure list"
  user_identities :: "UserIdentity list"
  audit_log :: "AuditEntry list"
  outbox_seq :: nat
  identity_seq :: nat

section \<open>Constraints\<close>

definition varchar :: "nat \<Rightarrow> js_string \<Rightarrow> bool" where
  "varchar n s \<longleftrightarrow> length s \<le> n"

definition timestamptz :: "js_string \<Rightarrow> bool" where
  "timestamptz s \<longleftrightarrow> iso_parse s \<noteq> None"

text \<open>The column types and \<open>CHECK\<close>s of \<open>shots\<close>.\<close>

definition shots_check :: "'a ShotCore_scheme \<Rightarrow> bool" where
  "shots_check s \<longleftrightarrow>
     varchar 26 (canonical_shot_id s)
     \<and> pred_option (varchar 255) (vendor_shot_id s)
     \<and> varchar 600 (idempotency_key s)
     \<and> varchar 255 (vendor_user_id s)
     \<and> pred_option (varchar 26) (canonical_user_id s)
     \<and> timestamptz (captured_at_utc s)
     \<and> pred_option (\<lambda>i. - 32768 \<le> i \<and> i \<le> 32767) (captured_at_tz_offset_min s)
     \<and> timestamptz (received_at_utc s)
     \<and> valid_club (club_code s)
     \<and> varchar 64 (club_raw s)
     \<and> 0 \<le> ball_speed_mps s \<and> ball_speed_mps s < 120
     \<and> pred_option (\<lambda>x. 0 \<le> x \<and> x < 100) (club_head_speed_mps s)
     \<and> - 10 \<le> launch_angle_deg s \<and> launch_angle_deg s \<le> 70
     \<and> pred_option (\<lambda>i. 0 \<le> i \<and> i < 15000) (spin_rpm s)
     \<and> 0 \<le> carry_m s \<and> carry_m s < 450
     \<and> pred_option (\<lambda>x. 0 \<le> x \<and> x < 500) (total_m s)
     \<and> - 200 \<le> lateral_m s \<and> lateral_m s \<le> 200
     \<and> pred_option (varchar 255) (device_id s)
     \<and> pred_option (varchar 255) (session_id s)
     \<and> varchar 64 (content_hash s)
     \<and> - 32768 \<le> schema_version s \<and> schema_version s \<le> 32767
     \<and> varchar 20 (parser_version s)
     \<and> pred_option (varchar 26) (duplicate_of s)"

definition failures_check :: "IngestionFailure \<Rightarrow> bool" where
  "failures_check f \<longleftrightarrow>
     timestamptz (if_received_at_utc f)
     \<and> - 32768 \<le> if_http_status f \<and> if_http_status f \<le> 32767
     \<and> varchar 64 (if_error_code f)
     \<and> pred_option (varchar 64) (if_correlation_id f)"

definition identities_check :: "js_string \<Rightarrow> js_string \<Rightarrow> bool" where
  "identities_check vendorUserId canonicalUserId \<longleftrightarrow> varchar 255 vendorUserId \<and> varchar 26 canonicalUserId"

definition audit_check :: "AuditEntry \<Rightarrow> bool" where
  "audit_check e \<longleftrightarrow>
     varchar 64 (au_action e) \<and> varchar 255 (au_actor e)
     \<and> pred_option (varchar 26) (au_canonical_user_id e)
     \<and> pred_option (varchar 255) (au_vendor_user_id e)"

section \<open>Keys\<close>

definition shot_key :: "'a ShotCore_scheme \<Rightarrow> Vendor \<times> js_string" where
  "shot_key s = (vendor s, idempotency_key s)"

definition identity_key :: "UserIdentity \<Rightarrow> Vendor \<times> js_string" where
  "identity_key u = (ui_vendor u, ui_vendor_user_id u)"

text \<open>Primary and unique keys, the foreign key of \<open>duplicate_of\<close>, the checks, and the serial
  columns.\<close>

definition db_inv :: "Db \<Rightarrow> bool" where
  "db_inv d \<longleftrightarrow>
     distinct (map canonical_shot_id (shots d))
     \<and> distinct (map shot_key (shots d))
     \<and> list_all shots_check (shots d)
     \<and> (\<forall>s \<in> set (shots d). \<forall>o1. duplicate_of s = Some o1 \<longrightarrow> o1 \<in> canonical_shot_id ` set (shots d))
     \<and> distinct (map ob_id (outbox_events d))
     \<and> (\<forall>r \<in> set (outbox_events d). ob_id r < outbox_seq d)
     \<and> list_all failures_check (ingestion_failures d)
     \<and> distinct (map identity_key (user_identities d))
     \<and> distinct (map ui_id (user_identities d))
     \<and> (\<forall>u \<in> set (user_identities d). ui_id u < identity_seq d)
     \<and> list_all audit_check (audit_log d)"

text \<open>The application's own invariant: a pending event is a shot's, and a shot has at most one.\<close>

definition outbox_inv :: "Db \<Rightarrow> bool" where
  "outbox_inv d \<longleftrightarrow>
     (\<forall>r \<in> set (outbox_events d). ob_event_type r = ''shot.persisted''
        \<and> canonical_shot_id (ob_payload r) \<in> canonical_shot_id ` set (shots d))
     \<and> distinct (map (canonical_shot_id \<circ> ob_payload) (outbox_events d))"

definition empty_db :: Db where
  "empty_db =
     \<lparr>shots = [], outbox_events = [], ingestion_failures = [], user_identities = [], audit_log = [],
      outbox_seq = 0, identity_seq = 0\<rparr>"

lemma empty_db_inv: "db_inv empty_db" "outbox_inv empty_db"
  by (simp_all add: db_inv_def outbox_inv_def empty_db_def)

section \<open>Rows\<close>

text \<open>\<open>UPDATE \<dots> WHERE\<close>.\<close>

definition update_where :: "('r \<Rightarrow> bool) \<Rightarrow> ('r \<Rightarrow> 'r) \<Rightarrow> 'r list \<Rightarrow> 'r list" where
  "update_where p f rows = map (\<lambda>r. if p r then f r else r) rows"

lemma update_where_map [db_simps]:
  "(\<And>r. g (f r) = g r) \<Longrightarrow> map g (update_where p f rows) = map g rows"
  by (induction rows) (auto simp: update_where_def)

lemma update_where_set:
  "r \<in> set (update_where p f rows) \<longleftrightarrow> (\<exists>q \<in> set rows. r = (if p q then f q else q))"
  by (auto simp: update_where_def)

lemma update_where_image [db_simps]:
  "(\<And>r. g (f r) = g r) \<Longrightarrow> g ` set (update_where p f rows) = g ` set rows"
  by (metis list.set_map update_where_map)

lemma list_all_update_where:
  "list_all Q rows \<Longrightarrow> (\<And>r. r \<in> set rows \<Longrightarrow> p r \<Longrightarrow> Q r \<Longrightarrow> Q (f r)) \<Longrightarrow> list_all Q (update_where p f rows)"
  by (auto simp: list_all_iff update_where_set)

text \<open>A row found by a unique key.\<close>

lemma find_unique:
  assumes "distinct (map k rows)" and "r \<in> set rows" and "k r = x"
  shows "find (\<lambda>r. k r = x) rows = Some r"
  using assms
proof (induction rows)
  case (Cons a rows)
  then show ?case by (cases "k a = x") (force simp: image_iff)+
qed simp

lemma find_None_key: "find (\<lambda>r. k r = x) rows = None \<longleftrightarrow> x \<notin> k ` set rows"
  by (auto simp: find_None_iff)

lemma find_SomeD: "find p rows = Some r \<Longrightarrow> r \<in> set rows \<and> p r"
  by (auto simp: find_Some_iff)

lemma find_Some_key: "find (\<lambda>r. k r = x) rows = Some r \<Longrightarrow> x \<in> k ` set rows"
  using find_SomeD by fastforce

lemma find_snoc: "find p (xs @ [y]) = (case find p xs of Some z \<Rightarrow> Some z | None \<Rightarrow> if p y then Some y else None)"
  by (induction xs) auto

end
