(* ===== verification/Repository.thy ===== *)
theory Repository
  imports Database
begin

text \<open>
  \<open>ingestion/shot-repository.ts\<close>: storing a shot together with its outbox event, finding and
  flagging near duplicates, recording failures, and the clock-skew predicate. A transaction that
  fails leaves the state as it was, so an operation returns an error or a result with the new
  state. What the worker relies on (a key's first shot wins and stays) is the locale
  \<open>shot_store\<close>, interpreted on these definitions.
\<close>

section \<open>Storing a shot\<close>

record UpsertResult =
  up_inserted :: bool
  up_canonical_shot_id :: js_string

text \<open>PostgreSQL evaluates the checks before it looks for a conflict on
  \<open>(vendor, idempotency_key)\<close>; a clash on the primary key or a dangling \<open>duplicate_of\<close> fails the
  statement, and with it the transaction.\<close>

definition upsertIfNew :: "int \<Rightarrow> NormalisedShot \<Rightarrow> Db \<Rightarrow> exn + UpsertResult \<times> Db" where
  "upsertIfNew now shot d =
     (if \<not> shots_check shot then Inl DbError
      else case find (\<lambda>r. shot_key r = shot_key shot) (shots d) of
        Some existing \<Rightarrow>
          Inr (\<lparr>up_inserted = False, up_canonical_shot_id = canonical_shot_id existing\<rparr>, d)
      | None \<Rightarrow>
          if list_ex (\<lambda>r. canonical_shot_id r = canonical_shot_id shot) (shots d) then Inl DbError
          else if \<not> pred_option (\<lambda>o1. list_ex (\<lambda>r. canonical_shot_id r = o1) (shots d @ [shot])) (duplicate_of shot)
          then Inl DbError
          else
            Inr (\<lparr>up_inserted = True, up_canonical_shot_id = canonical_shot_id shot\<rparr>,
                 d\<lparr>shots := shots d @ [shot],
                   outbox_events := outbox_events d
                     @ [\<lparr>ob_id = outbox_seq d, ob_event_type = ''shot.persisted'',
                         ob_payload = ShotCore.truncate shot, ob_created_at = now\<rparr>],
                   outbox_seq := Suc (outbox_seq d)\<rparr>))"

definition findByIdempotencyKey :: "Vendor \<Rightarrow> js_string \<Rightarrow> Db \<Rightarrow> js_string option" where
  "findByIdempotencyKey v key d =
     map_option canonical_shot_id (find (\<lambda>r. shot_key r = (v, key)) (shots d))"

definition recordIngestionFailure :: "IngestionFailure \<Rightarrow> Db \<Rightarrow> exn + Db" where
  "recordIngestionFailure f d =
     (if failures_check f then Inr (d\<lparr>ingestion_failures := ingestion_failures d @ [f]\<rparr>) else Inl DbError)"

section \<open>Near duplicates\<close>

definition near_dedupe_window_ms :: int where
  "near_dedupe_window_ms = 60 * 1000"

text \<open>The instant a stored time stamp denotes; the column's type admits no others.\<close>

definition instant :: "js_string \<Rightarrow> int" where
  "instant s = (case iso_parse s of Some t \<Rightarrow> t | None \<Rightarrow> 0)"

definition adjacent_hash :: "Platform \<Rightarrow> NormalisedShot \<Rightarrow> js_string \<Rightarrow> js_string" where
  "adjacent_hash P shot prevMinuteUtc =
     computeContentHash (sha256 P) ((hash_input shot)\<lparr>ch_captured_at_utc := prevMinuteUtc\<rparr>)"

definition near_candidate ::
    "NormalisedShot \<Rightarrow> js_string \<Rightarrow> js_string \<Rightarrow> js_string \<Rightarrow> NormalisedShot \<Rightarrow> bool" where
  "near_candidate shot adjacentHash lowerBound upperBound r \<longleftrightarrow>
     vendor r = vendor shot \<and> vendor_user_id r = vendor_user_id shot
     \<and> (content_hash r = content_hash shot \<or> content_hash r = adjacentHash)
     \<and> canonical_shot_id r \<noteq> canonical_shot_id shot
     \<and> instant lowerBound \<le> instant (captured_at_utc r)
     \<and> instant (captured_at_utc r) \<le> instant upperBound"

text \<open>\<open>ORDER BY captured_at_utc LIMIT 1\<close>; rows captured at the same instant are taken in table
  order.\<close>

definition first_captured :: "NormalisedShot list \<Rightarrow> NormalisedShot option" where
  "first_captured rows =
     (case sort_key (\<lambda>r. instant (captured_at_utc r)) rows of [] \<Rightarrow> None | r # rs \<Rightarrow> Some r)"

definition flag_duplicate :: "js_string \<Rightarrow> js_string \<Rightarrow> Db \<Rightarrow> Db" where
  "flag_duplicate sid origin d =
     d\<lparr>shots := update_where (\<lambda>r. canonical_shot_id r = sid) (\<lambda>r. r\<lparr>duplicate_of := Some origin\<rparr>) (shots d)\<rparr>"

definition checkAndFlagNearDuplicates ::
    "Platform \<Rightarrow> NormalisedShot \<Rightarrow> Db \<Rightarrow> exn + js_string option \<times> Db" where
  "checkAndFlagNearDuplicates P shot d =
     (case date_parse (legacy_date P) (captured_at_utc shot) of
        None \<Rightarrow> Inl RangeError
      | Some capturedMs \<Rightarrow>
          (case (toISOString (TimeClip (capturedMs - near_dedupe_window_ms)),
                 toISOString (TimeClip (capturedMs + near_dedupe_window_ms)),
                 toISOString (TimeClip (capturedMs - 60000))) of
             (Some lowerBound, Some upperBound, Some prevMinuteUtc) \<Rightarrow>
               (case first_captured
                       (filter (near_candidate shot (adjacent_hash P shot prevMinuteUtc) lowerBound upperBound)
                          (shots d)) of
                  Some origin \<Rightarrow>
                    Inr (Some (canonical_shot_id origin),
                         flag_duplicate (canonical_shot_id shot) (canonical_shot_id origin) d)
                | None \<Rightarrow> Inr (None, d))
           | _ \<Rightarrow> Inl RangeError))"

definition updateOutboxEventDuplicateOf :: "js_string \<Rightarrow> js_string \<Rightarrow> Db \<Rightarrow> Db" where
  "updateOutboxEventDuplicateOf canonicalShotId duplicateOf d =
     d\<lparr>outbox_events :=
         update_where
           (\<lambda>r. ob_event_type r = ''shot.persisted'' \<and> canonical_shot_id (ob_payload r) = canonicalShotId)
           (\<lambda>r. r\<lparr>ob_payload := (ob_payload r)\<lparr>duplicate_of := Some duplicateOf\<rparr>\<rparr>)
           (outbox_events d)\<rparr>"

section \<open>Clock skew\<close>

text \<open>The defaults are 86400 s into the past and 300 s into the future. A date that cannot be read
  is NaN, and every comparison with NaN is false.\<close>

definition hasExcessiveClockSkew_within ::
    "Platform \<Rightarrow> int \<Rightarrow> int \<Rightarrow> js_string \<Rightarrow> js_string \<Rightarrow> bool" where
  "hasExcessiveClockSkew_within P maxPastSkewSeconds maxFutureSkewSeconds capturedAtUtc receivedAtUtc \<longleftrightarrow>
     (case (date_parse (legacy_date P) capturedAtUtc, date_parse (legacy_date P) receivedAtUtc) of
        (Some capturedMs, Some receivedMs) \<Rightarrow>
          let deltaMs = capturedMs - receivedMs
          in if maxFutureSkewSeconds * 1000 < deltaMs then True
             else if deltaMs < - (maxPastSkewSeconds * 1000) then True else False
      | _ \<Rightarrow> False)"

definition hasExcessiveClockSkew :: "Platform \<Rightarrow> js_string \<Rightarrow> js_string \<Rightarrow> bool" where
  "hasExcessiveClockSkew P = hasExcessiveClockSkew_within P 86400 300"

section \<open>The contract of a shot store\<close>

text \<open>A run of upserts, in which a failing one leaves the store as it was.\<close>

fun run_upserts :: "(int \<Rightarrow> NormalisedShot \<Rightarrow> 'd \<Rightarrow> exn + UpsertResult \<times> 'd) \<Rightarrow> (int \<times> NormalisedShot) list \<Rightarrow> 'd \<Rightarrow> 'd" where
  "run_upserts up [] d = d"
| "run_upserts up ((now, s) # xs) d =
     run_upserts up xs (case up now s d of Inl e \<Rightarrow> d | Inr (r, d') \<Rightarrow> d')"

locale shot_store =
  fixes inv :: "'d \<Rightarrow> bool"
    and up :: "int \<Rightarrow> NormalisedShot \<Rightarrow> 'd \<Rightarrow> exn + UpsertResult \<times> 'd"
    and lookup_key :: "Vendor \<Rightarrow> js_string \<Rightarrow> 'd \<Rightarrow> js_string option"
  assumes up_inv: "inv d \<Longrightarrow> up now s d = Inr (r, d') \<Longrightarrow> inv d'"
    and up_found: "inv d \<Longrightarrow> up now s d = Inr (r, d') \<Longrightarrow>
          lookup_key (vendor s) (idempotency_key s) d' = Some (up_canonical_shot_id r)"
    and up_known: "inv d \<Longrightarrow> lookup_key (vendor s) (idempotency_key s) d = Some i \<Longrightarrow>
          up now s d = Inr (r, d') \<Longrightarrow> \<not> up_inserted r \<and> d' = d"
    and up_new: "inv d \<Longrightarrow> lookup_key (vendor s) (idempotency_key s) d = None \<Longrightarrow>
          up now s d = Inr (r, d') \<Longrightarrow> up_inserted r"
    and up_frame: "inv d \<Longrightarrow> up now s d = Inr (r, d') \<Longrightarrow> (v, k) \<noteq> shot_key s \<Longrightarrow>
          lookup_key v k d' = lookup_key v k d"
begin

lemma run_inv: "inv d \<Longrightarrow> inv (run_upserts up xs d)"
proof (induction xs arbitrary: d)
  case (Cons x xs)
  obtain now s where x: "x = (now, s)" by (cases x)
  show ?case
  proof (cases "up now s d")
    case (Inr p)
    then show ?thesis using Cons up_inv [OF Cons.prems] x by (cases p) auto
  qed (use Cons x in auto)
qed simp

text \<open>The first shot stored under a key keeps it, whatever is sent afterwards.\<close>

lemma up_stable:
  assumes "inv d" and "lookup_key v k d = Some i" and "up now s d = Inr (r, d')"
  shows "lookup_key v k d' = Some i"
proof (cases "(v, k) = shot_key s")
  case True
  then have "lookup_key (vendor s) (idempotency_key s) d = Some i" using assms(2) by (simp add: shot_key_def)
  from up_known [OF assms(1) this assms(3)] assms(2) show ?thesis by simp
qed (use assms up_frame in simp)

lemma run_stable: "inv d \<Longrightarrow> lookup_key v k d = Some i \<Longrightarrow> lookup_key v k (run_upserts up xs d) = Some i"
proof (induction xs arbitrary: d)
  case (Cons x xs)
  obtain now s where x: "x = (now, s)" by (cases x)
  show ?case
  proof (cases "up now s d")
    case (Inr p)
    then show ?thesis using Cons up_inv [OF Cons.prems(1)] up_stable [OF Cons.prems] x by (cases p) auto
  qed (use Cons x in auto)
qed simp

text \<open>A retry of an upsert that succeeded finds its own shot and changes nothing.\<close>

lemma retry:
  assumes "inv d" and "up now s d = Inr (r, d')" and "up now' s (run_upserts up xs d') = Inr (r', d'')"
  shows "\<not> up_inserted r' \<and> up_canonical_shot_id r' = up_canonical_shot_id r \<and> d'' = run_upserts up xs d'"
proof -
  have i: "inv d'" by (rule up_inv [OF assms(1,2)])
  have l: "lookup_key (vendor s) (idempotency_key s) (run_upserts up xs d') = Some (up_canonical_shot_id r)"
    by (rule run_stable [OF i up_found [OF assms(1,2)]])
  from up_known [OF run_inv [OF i] l assms(3)] up_found [OF run_inv [OF i] assms(3)] l show ?thesis by simp
qed

end

section \<open>Lemmas\<close>

lemma truncate_fields [simp]:
  "canonical_shot_id (ShotCore.truncate s) = canonical_shot_id s"
  "duplicate_of (ShotCore.truncate s) = duplicate_of s"
  "vendor (ShotCore.truncate s) = vendor s"
  "idempotency_key (ShotCore.truncate s) = idempotency_key s"
  by (simp_all add: ShotCore.truncate_def)

lemma upsertIfNew_Inr:
  "upsertIfNew now s d = Inr (r, d') \<longleftrightarrow>
     shots_check s
     \<and> ((\<exists>e. find (\<lambda>r. shot_key r = shot_key s) (shots d) = Some e
             \<and> r = \<lparr>up_inserted = False, up_canonical_shot_id = canonical_shot_id e\<rparr> \<and> d' = d)
        \<or> (shot_key s \<notin> shot_key ` set (shots d)
           \<and> canonical_shot_id s \<notin> canonical_shot_id ` set (shots d)
           \<and> (\<forall>o1. duplicate_of s = Some o1 \<longrightarrow> o1 \<in> insert (canonical_shot_id s) (canonical_shot_id ` set (shots d)))
           \<and> r = \<lparr>up_inserted = True, up_canonical_shot_id = canonical_shot_id s\<rparr>
           \<and> d' = d\<lparr>shots := shots d @ [s],
                   outbox_events := outbox_events d
                     @ [\<lparr>ob_id = outbox_seq d, ob_event_type = ''shot.persisted'',
                         ob_payload = ShotCore.truncate s, ob_created_at = now\<rparr>],
                   outbox_seq := Suc (outbox_seq d)\<rparr>))"
proof (cases "find (\<lambda>r. shot_key r = shot_key s) (shots d)")
  case None
  then have k: "shot_key s \<notin> shot_key ` set (shots d)" by (simp add: find_None_key)
  have ex: "list_ex (\<lambda>r. canonical_shot_id r = i) rows \<longleftrightarrow> i \<in> canonical_shot_id ` set rows" for i rows
    by (auto simp: list_ex_iff)
  have fk: "pred_option (\<lambda>o1. o1 \<in> A) (duplicate_of s) \<longleftrightarrow> (\<forall>o1. duplicate_of s = Some o1 \<longrightarrow> o1 \<in> A)" for A
    by (cases "duplicate_of s") auto
  show ?thesis using None k unfolding upsertIfNew_def ex fk by auto
next
  case (Some e)
  then have "shot_key s \<in> shot_key ` set (shots d)" by (rule find_Some_key)
  with Some show ?thesis by (auto simp: upsertIfNew_def)
qed

lemma upsert_db_inv: "db_inv d \<Longrightarrow> upsertIfNew now s d = Inr (r, d') \<Longrightarrow> db_inv d'"
  unfolding upsertIfNew_Inr by (elim conjE disjE exE) (auto simp: db_inv_def less_Suc_eq)

lemma upsert_outbox_inv: "outbox_inv d \<Longrightarrow> upsertIfNew now s d = Inr (r, d') \<Longrightarrow> outbox_inv d'"
  unfolding upsertIfNew_Inr by (elim conjE disjE exE) (auto simp: outbox_inv_def)

interpretation pg: shot_store db_inv upsertIfNew findByIdempotencyKey
proof unfold_locales
  fix d now s r d' and v :: Vendor and k :: js_string
  assume inv: "db_inv d" and u: "upsertIfNew now s d = Inr (r, d')"
  show "db_inv d'" by (rule upsert_db_inv [OF inv u])
  show "findByIdempotencyKey (vendor s) (idempotency_key s) d' = Some (up_canonical_shot_id r)"
    using u find_unique [of shot_key "shots d'" s "shot_key s"] upsert_db_inv [OF inv u]
    by (auto simp: upsertIfNew_Inr findByIdempotencyKey_def db_inv_def shot_key_def)
  show "(v, k) \<noteq> shot_key s \<Longrightarrow> findByIdempotencyKey v k d' = findByIdempotencyKey v k d"
    using u by (auto simp: upsertIfNew_Inr findByIdempotencyKey_def find_snoc split: option.splits)
next
  fix d now s r d' i
  assume "db_inv d" "findByIdempotencyKey (vendor s) (idempotency_key s) d = Some i"
    and u: "upsertIfNew now s d = Inr (r, d')"
  then have "shot_key s \<in> shot_key ` set (shots d)"
    by (auto simp: findByIdempotencyKey_def shot_key_def [of s] intro: find_Some_key)
  with u show "\<not> up_inserted r \<and> d' = d" by (auto simp: upsertIfNew_Inr)
next
  fix d now s r d'
  assume "db_inv d" "findByIdempotencyKey (vendor s) (idempotency_key s) d = None"
    and u: "upsertIfNew now s d = Inr (r, d')"
  then have "shot_key s \<notin> shot_key ` set (shots d)"
    by (auto simp: findByIdempotencyKey_def shot_key_def find_None_iff)
  with u show "up_inserted r" by (auto simp: upsertIfNew_Inr dest: find_Some_key)
qed

section \<open>Lemmas on near duplicates\<close>

lemma instant_iso [simp]: "\<bar>t\<bar> \<le> 8640000000000000 \<Longrightarrow> instant (iso_format t) = t"
  by (simp add: instant_def iso_parse_format)

lemma first_captured_None: "first_captured rows = None \<longleftrightarrow> rows = []"
  by (auto simp: first_captured_def split: list.splits)
    (metis length_0_conv length_sort)

lemma first_captured_Some:
  assumes "first_captured rows = Some r"
  shows "r \<in> set rows" and "q \<in> set rows \<Longrightarrow> instant (captured_at_utc r) \<le> instant (captured_at_utc q)"
proof -
  obtain rs where rs: "sort_key (\<lambda>r. instant (captured_at_utc r)) rows = r # rs"
    using assms by (auto simp: first_captured_def split: list.splits)
  then have "set rows = set (r # rs)" by (metis set_sort)
  moreover have "sorted (map (\<lambda>r. instant (captured_at_utc r)) (r # rs))" by (metis rs sorted_sort_key)
  ultimately show "r \<in> set rows" "q \<in> set rows \<Longrightarrow> instant (captured_at_utc r) \<le> instant (captured_at_utc q)"
    by auto
qed

text \<open>The result on a shot with a canonical time stamp.\<close>

definition near_rows :: "Platform \<Rightarrow> NormalisedShot \<Rightarrow> int \<Rightarrow> Db \<Rightarrow> NormalisedShot list" where
  "near_rows P shot t d =
     filter (\<lambda>r. vendor r = vendor shot \<and> vendor_user_id r = vendor_user_id shot
               \<and> (content_hash r = content_hash shot
                  \<or> content_hash r = adjacent_hash P shot (iso_format (t - 60000)))
               \<and> canonical_shot_id r \<noteq> canonical_shot_id shot
               \<and> \<bar>instant (captured_at_utc r) - t\<bar> \<le> 60000) (shots d)"

lemma check_result:
  assumes "captured_at_utc shot = iso_format t" and "\<bar>t\<bar> \<le> 8640000000000000 - 60000"
  shows "checkAndFlagNearDuplicates P shot d =
           (case first_captured (near_rows P shot t d) of
              Some origin \<Rightarrow> Inr (Some (canonical_shot_id origin),
                                flag_duplicate (canonical_shot_id shot) (canonical_shot_id origin) d)
            | None \<Rightarrow> Inr (None, d))"
proof -
  have w: "t - 60000 \<le> x \<and> x \<le> t + 60000 \<longleftrightarrow> \<bar>x - t\<bar> \<le> 60000" for x :: int by auto
  have "filter (near_candidate shot (adjacent_hash P shot (iso_format (t - 60000)))
          (iso_format (t - 60000)) (iso_format (t + 60000))) (shots d) = near_rows P shot t d"
    using assms(2) unfolding near_rows_def by (intro filter_cong) (auto simp: near_candidate_def w)
  moreover have "\<bar>t\<bar> \<le> 8640000000000000" "\<bar>t - 60000\<bar> \<le> 8640000000000000" "\<bar>t + 60000\<bar> \<le> 8640000000000000"
    using assms(2) by arith+
  ultimately show ?thesis
    using assms(1) by (simp add: checkAndFlagNearDuplicates_def near_dedupe_window_ms_def TimeClip_def toISOString_def)
qed

lemma flag_inv:
  assumes "db_inv d" and "o1 \<in> canonical_shot_id ` set (shots d)"
  shows "db_inv (flag_duplicate sid o1 d)"
proof -
  have chk: "shots_check r \<Longrightarrow> varchar 26 o1 \<Longrightarrow> shots_check (r\<lparr>duplicate_of := Some o1\<rparr>)" for r :: NormalisedShot
    by (simp add: shots_check_def)
  have v: "varchar 26 o1" using assms by (auto simp: db_inv_def list_all_iff shots_check_def)
  let ?rows = "update_where (\<lambda>r. canonical_shot_id r = sid) (\<lambda>r. r\<lparr>duplicate_of := Some o1\<rparr>) (shots d)"
  have "map canonical_shot_id ?rows = map canonical_shot_id (shots d)"
    "map shot_key ?rows = map shot_key (shots d)"
    by (intro update_where_map; simp add: shot_key_def)+
  moreover have "canonical_shot_id ` set ?rows = canonical_shot_id ` set (shots d)"
    by (intro update_where_image) simp
  moreover have "list_all shots_check ?rows"
    using assms(1) chk v by (intro list_all_update_where) (auto simp: db_inv_def)
  moreover have "\<forall>s \<in> set ?rows. \<forall>o2. duplicate_of s = Some o2 \<longrightarrow> o2 \<in> canonical_shot_id ` set (shots d)"
    using assms by (auto simp: db_inv_def update_where_set split: if_splits)
  ultimately show ?thesis using assms(1) by (simp add: db_inv_def flag_duplicate_def)
qed

lemma flag_outbox_inv: "outbox_inv d \<Longrightarrow> outbox_inv (flag_duplicate sid o1 d)"
proof -
  have "canonical_shot_id ` set (update_where p (\<lambda>r. r\<lparr>duplicate_of := Some o1\<rparr>) (shots d))
        = canonical_shot_id ` set (shots d)" for p
    by (intro update_where_image) simp
  then show "outbox_inv d \<Longrightarrow> outbox_inv (flag_duplicate sid o1 d)"
    by (simp add: outbox_inv_def flag_duplicate_def)
qed

lemma check_flag_inv:
  assumes "db_inv d \<and> outbox_inv d" and "checkAndFlagNearDuplicates P shot d = Inr (r, d')"
  shows "db_inv d' \<and> outbox_inv d'"
proof -
  have "d' = d \<or> (\<exists>o1 \<in> canonical_shot_id ` set (shots d). d' = flag_duplicate (canonical_shot_id shot) o1 d)"
    using assms(2)
    by (auto simp: checkAndFlagNearDuplicates_def split: option.splits dest!: first_captured_Some(1))
  then show ?thesis using assms(1) flag_inv flag_outbox_inv by blast
qed

lemma update_event_inv:
  assumes "db_inv d \<and> outbox_inv d"
  shows "db_inv (updateOutboxEventDuplicateOf sid o1 d) \<and> outbox_inv (updateOutboxEventDuplicateOf sid o1 d)"
proof -
  let ?p = "\<lambda>r. ob_event_type r = ''shot.persisted'' \<and> canonical_shot_id (ob_payload r) = sid"
  let ?f = "\<lambda>r :: OutboxRow. r\<lparr>ob_payload := (ob_payload r)\<lparr>duplicate_of := Some o1\<rparr>\<rparr>"
  let ?rows = "update_where ?p ?f (outbox_events d)"
  have m: "map ob_id ?rows = map ob_id (outbox_events d)"
    "map (canonical_shot_id \<circ> ob_payload) ?rows = map (canonical_shot_id \<circ> ob_payload) (outbox_events d)"
    by (intro update_where_map; simp)+
  have o1: "\<forall>r \<in> set ?rows. ob_id r < outbox_seq d"
    using assms by (auto simp: update_where_set db_inv_def)
  have o2: "\<forall>r \<in> set ?rows. ob_event_type r = ''shot.persisted''
              \<and> canonical_shot_id (ob_payload r) \<in> canonical_shot_id ` set (shots d)"
    using assms by (auto simp: update_where_set outbox_inv_def)
  let ?d = "updateOutboxEventDuplicateOf sid o1 d"
  have f: "shots ?d = shots d" "outbox_events ?d = ?rows" "ingestion_failures ?d = ingestion_failures d"
    "user_identities ?d = user_identities d" "audit_log ?d = audit_log d" "outbox_seq ?d = outbox_seq d"
    "identity_seq ?d = identity_seq d"
    by (simp_all add: updateOutboxEventDuplicateOf_def)
  show ?thesis
    using assms o1 o2 unfolding db_inv_def outbox_inv_def f m by blast
qed

lemma record_failure_inv:
  "db_inv d \<and> outbox_inv d \<Longrightarrow> recordIngestionFailure f d = Inr d' \<Longrightarrow> db_inv d' \<and> outbox_inv d'"
  by (auto simp: recordIngestionFailure_def db_inv_def outbox_inv_def split: if_splits)

section \<open>Lemmas on the minute boundary\<close>

text \<open>The same shot but for the time: every part of the hash preimage agrees except the minute.\<close>

definition same_but_time :: "'a ShotCore_scheme \<Rightarrow> 'b ShotCore_scheme \<Rightarrow> bool" where
  "same_but_time e s \<longleftrightarrow>
     content_parts ((hash_input e)\<lparr>ch_captured_at_utc := []\<rparr>)
     = content_parts ((hash_input s)\<lparr>ch_captured_at_utc := []\<rparr>)"

lemma same_but_time_parts:
  assumes "same_but_time e s" and "minuteBucket x = minuteBucket y"
  shows "content_parts ((hash_input e)\<lparr>ch_captured_at_utc := x\<rparr>)
         = content_parts ((hash_input s)\<lparr>ch_captured_at_utc := y\<rparr>)"
  using assms by (simp add: same_but_time_def content_parts_def)

lemma minute_iff:
  "four_digit_year u \<Longrightarrow> four_digit_year t \<Longrightarrow>
     minuteBucket (iso_format u) = minuteBucket (iso_format t) \<longleftrightarrow> u div 60000 = t div 60000"
  by (simp add: minuteBucket_def slice_iso iso_minute_eq_iff)

lemma previous_minute:
  fixes t u :: int
  assumes "u \<le> t" and "t - u \<le> 60000"
  shows "u div 60000 = t div 60000 \<or> u div 60000 = (t - 60000) div 60000"
proof -
  have "u div 60000 \<le> t div 60000" using assms(1) by (rule zdiv_mono1) simp
  moreover have "(t - 60000) div 60000 \<le> u div 60000" using assms(2) by (intro zdiv_mono1) simp_all
  moreover have "(t - 60000) div 60000 = t div 60000 - 1" using div_mult_self1 [of 60000 t "- 1"] by simp
  ultimately show ?thesis by arith
qed

lemma hash_input_time: "(hash_input e)\<lparr>ch_captured_at_utc := captured_at_utc e\<rparr> = hash_input e"
  by (simp add: hash_input_def)

text \<open>Hashes of shots in different minutes differ, unless SHA-256 collides.\<close>

lemma different_minute_hash:
  assumes "measurable_input i" and "measurable_input j"
    and "collision_free sha i j" and "minuteBucket (ch_captured_at_utc i) \<noteq> minuteBucket (ch_captured_at_utc j)"
  shows "computeContentHash sha i \<noteq> computeContentHash sha j"
proof -
  have "content_key i \<noteq> content_key j" using assms(4) by (simp add: content_key_def)
  then show ?thesis
    using content_preimage_inj [OF assms(1,2)] content_parts_key [OF assms(1,2)] assms(3)
    by (auto simp: computeContentHash_def collision_free_def)
qed

section \<open>Properties\<close>

lemma sample_check: "shots_check sample_normalised"
proof -
  have "iso_parse ''2024-01-15T08:30:00.000Z'' \<noteq> None" "iso_parse ''2024-01-15T08:31:00.000Z'' \<noteq> None"
    by code_simp+
  then show ?thesis
    by (simp add: shots_check_def sample_normalised_def varchar_def timestamptz_def VALID_CLUB_CODES_def)
qed

definition sample_db :: Db where
  "sample_db =
     empty_db\<lparr>shots := [sample_normalised],
              outbox_events := [\<lparr>ob_id = 0, ob_event_type = ''shot.persisted'',
                                 ob_payload = ShotCore.truncate sample_normalised, ob_created_at = 0\<rparr>],
              outbox_seq := 1\<rparr>"

lemma sample_upsert:
  "upsertIfNew 0 sample_normalised empty_db
     = Inr (\<lparr>up_inserted = True, up_canonical_shot_id = canonical_shot_id sample_normalised\<rparr>, sample_db)"
  using sample_check
  by (simp add: upsertIfNew_def empty_db_def sample_db_def) (simp add: sample_normalised_def)

text \<open>Every operation of the repository keeps the database's constraints and the outbox's
  own invariant (each pending event is a stored shot's, no shot has two).\<close>

lemma repository_invariant:
  assumes "db_inv d" and "outbox_inv d"
  shows "(upsertIfNew now s d = Inr (r, d1) \<longrightarrow> db_inv d1 \<and> outbox_inv d1)
         \<and> (checkAndFlagNearDuplicates P s d = Inr (o1, d2) \<longrightarrow> db_inv d2 \<and> outbox_inv d2)
         \<and> (recordIngestionFailure f d = Inr d3 \<longrightarrow> db_inv d3 \<and> outbox_inv d3)
         \<and> db_inv (updateOutboxEventDuplicateOf sid dup d) \<and> outbox_inv (updateOutboxEventDuplicateOf sid dup d)"
  using upsert_db_inv [OF assms(1)] upsert_outbox_inv [OF assms(2)] check_flag_inv [of d P s]
    record_failure_inv [of d f] update_event_inv [of d sid dup] assms
  by simp

lemma repository_invariant_sample: "db_inv sample_db \<and> outbox_inv sample_db"
  using repository_invariant [OF empty_db_inv, of 0 sample_normalised _ sample_db] sample_upsert by blast



text \<open>Retries are harmless. After a successful upsert, and any run of other upserts, sending
  the same shot again (or any shot of the same key) inserts nothing, adds no event and answers with
  the id given the first time.\<close>

theorem upsert_idempotent:
  assumes "db_inv d" and "upsertIfNew now s d = Inr (r, d1)"
    and "upsertIfNew now' s (run_upserts upsertIfNew xs d1) = Inr (r', d2)"
  shows "\<not> up_inserted r' \<and> up_canonical_shot_id r' = up_canonical_shot_id r
         \<and> d2 = run_upserts upsertIfNew xs d1"
  using assms by (rule pg.retry)

theorem upsert_idempotent_witness:
  "\<exists>r. upsertIfNew 5 sample_normalised sample_db = Inr (r, sample_db) \<and> \<not> up_inserted r"
proof -
  have u: "upsertIfNew 5 sample_normalised (run_upserts upsertIfNew [] sample_db)
           = Inr (\<lparr>up_inserted = False, up_canonical_shot_id = canonical_shot_id sample_normalised\<rparr>, sample_db)"
    using sample_check by (simp add: upsertIfNew_def sample_db_def)
  from upsert_idempotent [OF empty_db_inv(1) sample_upsert this] u show ?thesis by simp
qed

text \<open>C15: a flagged shot really has a near duplicate: the origin is another stored shot of the
  same vendor and user, captured at most 60 seconds away, with the shot's content hash or the one it
  would have had a minute earlier; it is the earliest such shot, and the shot's own row is the only
  one that changes. Without such a row nothing is flagged.\<close>

theorem near_duplicate_sound:
  assumes "captured_at_utc s = iso_format t" and "\<bar>t\<bar> \<le> 8640000000000000 - 60000"
    and "checkAndFlagNearDuplicates P s d = Inr (r, d')"
  shows "(r = None \<longleftrightarrow> near_rows P s t d = []) \<and> (r = None \<longrightarrow> d' = d)
         \<and> (\<forall>o1. r = Some o1 \<longrightarrow>
              (\<exists>e \<in> set (near_rows P s t d). canonical_shot_id e = o1 \<and> o1 \<noteq> canonical_shot_id s
                 \<and> (\<forall>q \<in> set (near_rows P s t d). instant (captured_at_utc e) \<le> instant (captured_at_utc q)))
              \<and> shots d' = map (\<lambda>q. if canonical_shot_id q = canonical_shot_id s
                                     then q\<lparr>duplicate_of := Some o1\<rparr> else q) (shots d)
              \<and> outbox_events d' = outbox_events d)"
proof (cases "first_captured (near_rows P s t d)")
  case None
  then have "near_rows P s t d = []" by (simp add: first_captured_None)
  moreover have "r = None" "d' = d" using assms None by (simp_all add: check_result)
  ultimately show ?thesis by simp
next
  case (Some e)
  note f = first_captured_Some [OF Some]
  then have "canonical_shot_id e \<noteq> canonical_shot_id s" by (auto simp: near_rows_def)
  moreover have "r = Some (canonical_shot_id e)" "d' = flag_duplicate (canonical_shot_id s) (canonical_shot_id e) d"
    using assms Some by (auto simp: check_result)
  moreover have "near_rows P s t d \<noteq> []" using f(1) by auto
  ultimately show ?thesis using f by (auto simp: flag_duplicate_def update_where_def)
qed

theorem near_duplicate_sound_witness:
  "\<exists>o1 d'. checkAndFlagNearDuplicates sample_platform (sample_at ''b'' 1705307460000)
             (empty_db\<lparr>shots := [sample_at ''a'' 1705307460000, sample_at ''b'' 1705307460000]\<rparr>) = Inr (Some o1, d')
           \<and> o1 \<noteq> ''b''"
proof -
  let ?d = "empty_db\<lparr>shots := [sample_at ''a'' 1705307460000, sample_at ''b'' 1705307460000]\<rparr>"
  have "\<bar>1705307460000 :: int\<bar> \<le> 8640000000000000 - 60000" by simp
  note c = check_result [OF sample_at_fields(2) this, of sample_platform "''b''" ?d]
  have "sample_at ''a'' 1705307460000 \<in> set (near_rows sample_platform (sample_at ''b'' 1705307460000) 1705307460000 ?d)"
    by (simp add: near_rows_def sample_at_fields)
  then have "near_rows sample_platform (sample_at ''b'' 1705307460000) 1705307460000 ?d \<noteq> []" by auto
  moreover obtain r d' where r: "checkAndFlagNearDuplicates sample_platform (sample_at ''b'' 1705307460000) ?d = Inr (r, d')"
    using c by (auto split: option.splits)
  ultimately show ?thesis
    using near_duplicate_sound [OF sample_at_fields(2) _ r] by (auto simp: sample_at_fields)
qed

text \<open>No earlier near duplicate is overlooked. If a stored shot of the same vendor and user
  agrees with the new one in everything the hash sees but the minute, and was captured at most 60
  seconds before it, also in the minute before, the new shot is flagged.\<close>

theorem near_duplicate_earlier_found:
  assumes "e \<in> set (shots d)" and "vendor e = vendor s" and "vendor_user_id e = vendor_user_id s"
    and "canonical_shot_id e \<noteq> canonical_shot_id s" and "same_but_time e s"
    and "content_hash e = computeContentHash (sha256 P) (hash_input e)"
    and "content_hash s = computeContentHash (sha256 P) (hash_input s)"
    and "captured_at_utc e = iso_format u" and "captured_at_utc s = iso_format t"
    and "u \<le> t" and "t - u \<le> 60000"
    and "four_digit_year u" and "four_digit_year t" and "four_digit_year (t - 60000)"
  shows "\<exists>o1 d'. checkAndFlagNearDuplicates P s d = Inr (Some o1, d')"
proof -
  have range: "\<bar>t\<bar> \<le> 8640000000000000 - 60000" "\<bar>u\<bar> \<le> 8640000000000000"
    using assms(10,12,13) by (auto simp: four_digit_year_def abs_le_iff)
  have "content_hash e = content_hash s \<or> content_hash e = adjacent_hash P s (iso_format (t - 60000))"
  proof (rule disjE [OF previous_minute [OF assms(10,11)]])
    assume "u div 60000 = t div 60000"
    then have "minuteBucket (captured_at_utc e) = minuteBucket (captured_at_utc s)"
      using assms(8,9,12,13) by (simp add: minute_iff)
    from same_but_time_parts [OF assms(5) this] have "content_parts (hash_input e) = content_parts (hash_input s)"
      by (simp add: hash_input_time)
    then show ?thesis using assms(6,7) content_hash_cong by metis
  next
    assume "u div 60000 = (t - 60000) div 60000"
    then have "minuteBucket (captured_at_utc e) = minuteBucket (iso_format (t - 60000))"
      using assms(8,12,14) by (simp add: minute_iff)
    from content_hash_cong [OF same_but_time_parts [OF assms(5) this], of "sha256 P"] show ?thesis
      unfolding adjacent_hash_def hash_input_time assms(6) by simp
  qed
  moreover have "\<bar>u - t\<bar> \<le> 60000" using assms(10,11) by arith
  ultimately have "e \<in> set (near_rows P s t d)"
    using assms(1-4,8) range(2) by (simp add: near_rows_def)
  then have "first_captured (near_rows P s t d) \<noteq> None" by (auto simp: first_captured_None)
  then show ?thesis using check_result [OF assms(9) range(1), of P d] by auto
qed

theorem near_duplicate_earlier_found_witness:
  "\<exists>o1 d'. checkAndFlagNearDuplicates sample_platform (sample_at ''b'' 1705307461000)
             (empty_db\<lparr>shots := [sample_at ''a'' 1705307459000, sample_at ''b'' 1705307461000]\<rparr>) = Inr (Some o1, d')"
  by (rule near_duplicate_earlier_found [of "sample_at ''a'' 1705307459000" _ _ _ 1705307459000 1705307461000])
    (simp_all add: sample_at_fields same_but_time_def four_digit_year_def)

text \<open>The check is not symmetric. When the later shot of such a pair is stored first and they lie
  in different minutes, the earlier one, arriving second, is not flagged: only the hash of the
  minute before is tried, although the window reaches 60 seconds to both sides.\<close>

theorem near_duplicate_later_missed:
  assumes "shots d = [e, s]" and "same_but_time e s"
    and "content_hash e = computeContentHash (sha256 P) (hash_input e)"
    and "content_hash s = computeContentHash (sha256 P) (hash_input s)"
    and "captured_at_utc e = iso_format u" and "captured_at_utc s = iso_format t"
    and "t < u" and "u - t \<le> 60000" and "u div 60000 \<noteq> t div 60000"
    and "four_digit_year u" and "four_digit_year t" and "four_digit_year (t - 60000)"
    and "measurable_input (hash_input e)" and "measurable_input (hash_input s)"
    and "collision_free (sha256 P) (hash_input e) (hash_input s)"
    and "collision_free (sha256 P) (hash_input e)
           ((hash_input s)\<lparr>ch_captured_at_utc := iso_format (t - 60000)\<rparr>)"
  shows "checkAndFlagNearDuplicates P s d = Inr (None, d) \<and> \<bar>u - t\<bar> * 1000 \<le> near_dedupe_window_ms * 1000"
proof -
  let ?prev = "(hash_input s)\<lparr>ch_captured_at_utc := iso_format (t - 60000)\<rparr>"
  have range: "\<bar>t\<bar> \<le> 8640000000000000 - 60000"
    using assms(11,12) by (auto simp: four_digit_year_def abs_le_iff)
  have "(t - 60000) div 60000 = t div 60000 - 1" using div_mult_self1 [of 60000 t "- 1"] by simp
  moreover have "t div 60000 \<le> u div 60000" using assms(7) by (intro zdiv_mono1) simp_all
  ultimately have prev: "u div 60000 \<noteq> (t - 60000) div 60000" by arith
  have m: "measurable_input ?prev"
    using assms(14) iso_format_no_bar by (auto simp: measurable_input_def minuteBucket_def slice_def dest: in_set_takeD)
  have "content_hash e \<noteq> content_hash s"
    unfolding assms(3,4) using assms(5,6,9,10,11)
    by (intro different_minute_hash [OF assms(13-15)]) (simp add: hash_input_def minute_iff)
  moreover have "content_hash e \<noteq> adjacent_hash P s (iso_format (t - 60000))"
    unfolding assms(3) adjacent_hash_def using assms(5,10,12) prev
    by (intro different_minute_hash [OF assms(13) m assms(16)]) (simp add: hash_input_def minute_iff)
  ultimately have "near_rows P s t d = []" by (simp add: near_rows_def assms(1))
  then show ?thesis
    using check_result [OF assms(6) range, of P d] assms(7,8)
    by (simp add: first_captured_None [THEN iffD2] near_dedupe_window_ms_def)
qed

theorem near_duplicate_later_missed_witness:
  "checkAndFlagNearDuplicates sample_platform (sample_at ''b'' 1705307459000)
     (empty_db\<lparr>shots := [sample_at ''a'' 1705307461000, sample_at ''b'' 1705307459000]\<rparr>)
   = Inr (None, empty_db\<lparr>shots := [sample_at ''a'' 1705307461000, sample_at ''b'' 1705307459000]\<rparr>)"
  by (rule near_duplicate_later_missed [of _ "sample_at ''a'' 1705307461000" _ _ 1705307461000 1705307459000, THEN conjunct1])
    (simp_all add: sample_at_measurable sample_collision_free, simp_all add: sample_at_fields same_but_time_def four_digit_year_def)

text \<open>the skew predicate accepts exactly the shots from 24 hours before to 5 minutes after
  their reception, and every shot one of whose dates cannot be read.\<close>

theorem clock_skew_window:
  assumes "date_parse (legacy_date P) captured = Some t" and "date_parse (legacy_date P) received = Some u"
  shows "(\<not> hasExcessiveClockSkew P captured received \<longleftrightarrow> u - 86400000 \<le> t \<and> t \<le> u + 300000)
         \<and> (date_parse (legacy_date P) bad = None \<longrightarrow>
              \<not> hasExcessiveClockSkew P bad received \<and> \<not> hasExcessiveClockSkew P captured bad)"
  using assms by (auto simp: hasExcessiveClockSkew_def hasExcessiveClockSkew_within_def Let_def)

theorem clock_skew_window_witness:
  "\<not> hasExcessiveClockSkew sample_platform (iso_format 1705307460000) (iso_format 1705307400000)
   \<and> hasExcessiveClockSkew sample_platform (iso_format 1705307700001) (iso_format 1705307400000)"
  using clock_skew_window [OF date_parse_iso date_parse_iso, of 1705307460000 1705307400000 sample_platform]
    clock_skew_window [OF date_parse_iso date_parse_iso, of 1705307700001 1705307400000 sample_platform]
  by simp

end
