(* ===== verification/Identity.thy ===== *)
theory Identity
  imports Database
begin

text \<open>
  \<open>identity/identity.service.ts\<close> and \<open>shared/audit/audit-log.service.ts\<close>: the mapping from vendor
  users to canonical users, its two caches in Redis, the audit log, and the backfill of stored
  shots. Redis is a parameter, a record of the calls made on a store of any type, with its
  documented behaviour as the predicate \<open>redis_ok\<close>; time is in milliseconds. The main invariant is
  that the resolve cache never contradicts the table.
\<close>

section \<open>Redis\<close>

text \<open>What the service stores: a text, or rows it serialises and reads back.\<close>

datatype cache_value = Text js_string | Rows "UserIdentity list"

record 'r Redis =
  r_get :: "int \<Rightarrow> js_string \<Rightarrow> 'r \<Rightarrow> cache_value option"
  r_set :: "int \<Rightarrow> js_string \<Rightarrow> cache_value \<Rightarrow> nat \<Rightarrow> 'r \<Rightarrow> 'r"
  r_del :: "js_string list \<Rightarrow> 'r \<Rightarrow> 'r"

text \<open>\<open>SET key value EX ttl\<close>, \<open>GET\<close>, \<open>DEL\<close>: a value is served until its time is up or the key is
  deleted or set again, and no key appears by itself.\<close>

definition redis_ok :: "'r Redis \<Rightarrow> bool" where
  "redis_ok R \<longleftrightarrow>
     (\<forall>now k v ttl r t w. r_get R t k (r_set R now k v ttl r) = Some w \<longrightarrow> w = v)
     \<and> (\<forall>now k v ttl r t. now \<le> t \<and> t < now + int ttl * 1000 \<longrightarrow> r_get R t k (r_set R now k v ttl r) = Some v)
     \<and> (\<forall>now k v ttl r t k'. k' \<noteq> k \<longrightarrow> r_get R t k' (r_set R now k v ttl r) = r_get R t k' r)
     \<and> (\<forall>ks r t k. r_get R t k (r_del R ks r) = (if k \<in> set ks then None else r_get R t k r))"

definition identityCacheKey :: "js_string \<Rightarrow> js_string \<Rightarrow> js_string" where
  "identityCacheKey v vendorUserId = ''identity:'' @ v @ '':'' @ vendorUserId"

definition identityListCacheKey :: "js_string \<Rightarrow> js_string" where
  "identityListCacheKey canonicalUserId = ''identity-list:'' @ canonicalUserId"

definition identity_cache_ttl_s :: nat where
  "identity_cache_ttl_s = 60"

definition identity_list_cache_ttl_s :: nat where
  "identity_list_cache_ttl_s = 30"

section \<open>Audit log\<close>

definition audit_record :: "AuditEntry \<Rightarrow> Db \<Rightarrow> exn + Db" where
  "audit_record entry d =
     (if audit_check entry then Inr (d\<lparr>audit_log := audit_log d @ [entry]\<rparr>) else Inl DbError)"

text \<open>A call whose promise nobody awaits: the state after it, and the rejection nobody handles.\<close>

definition detached :: "(Db \<Rightarrow> exn + Db) \<Rightarrow> Db \<Rightarrow> Db \<times> exn option" where
  "detached f d = (case f d of Inl e \<Rightarrow> (d, Some e) | Inr d' \<Rightarrow> (d', None))"

definition identity_audit :: "js_string \<Rightarrow> js_string \<Rightarrow> js_string \<Rightarrow> Vendor \<Rightarrow> js_string \<Rightarrow> AuditEntry" where
  "identity_audit action actor canonicalUserId v vendorUserId =
     \<lparr>au_action = action, au_actor = actor, au_canonical_user_id = Some canonicalUserId,
      au_vendor = Some v, au_vendor_user_id = Some vendorUserId, au_metadata = None\<rparr>"

section \<open>The service\<close>

definition lookup_identity :: "Vendor \<Rightarrow> js_string \<Rightarrow> Db \<Rightarrow> js_string option" where
  "lookup_identity v vendorUserId d =
     map_option ui_canonical_user_id (find (\<lambda>u. identity_key u = (v, vendorUserId)) (user_identities d))"

text \<open>Reading the cache and the table, and writing the cache, are separate awaits.\<close>

definition resolve_read ::
    "'r Redis \<Rightarrow> int \<Rightarrow> js_string \<Rightarrow> js_string \<Rightarrow> Db \<times> 'r \<Rightarrow> cache_value option \<times> js_string option" where
  "resolve_read R now v vendorUserId = (\<lambda>(d, r).
     (case r_get R now (identityCacheKey v vendorUserId) r of
        Some cached \<Rightarrow> (Some cached, None)
      | None \<Rightarrow> (None, case map_of VALID_VENDORS v of
                       Some vd \<Rightarrow> lookup_identity vd vendorUserId d | None \<Rightarrow> None)))"

definition resolve_write ::
    "'r Redis \<Rightarrow> int \<Rightarrow> js_string \<Rightarrow> js_string \<Rightarrow> js_string option \<Rightarrow> 'r \<Rightarrow> 'r" where
  "resolve_write R now v vendorUserId result r =
     r_set R now (identityCacheKey v vendorUserId)
       (Text (case result of Some c \<Rightarrow> c | None \<Rightarrow> [])) identity_cache_ttl_s r"

definition resolveCanonicalUserId ::
    "'r Redis \<Rightarrow> int \<Rightarrow> js_string \<Rightarrow> js_string \<Rightarrow> Db \<times> 'r \<Rightarrow> js_string option \<times> 'r" where
  "resolveCanonicalUserId R now v vendorUserId s =
     (if map_of VALID_VENDORS v = None then (None, snd s)
      else case resolve_read R now v vendorUserId s of
        (Some cached, _) \<Rightarrow> ((case cached of Text c \<Rightarrow> if c = [] then None else Some c | Rows us \<Rightarrow> None), snd s)
      | (None, result) \<Rightarrow> (result, resolve_write R now v vendorUserId result (snd s)))"

text \<open>\<open>INSERT \<dots> ON CONFLICT DO UPDATE \<dots> RETURNING *\<close>; the serial column is drawn from in either case.\<close>

definition upsert_identity :: "int \<Rightarrow> Vendor \<Rightarrow> js_string \<Rightarrow> js_string \<Rightarrow> Db \<Rightarrow> exn + UserIdentity \<times> Db" where
  "upsert_identity now v vendorUserId canonicalUserId d =
     (if \<not> identities_check vendorUserId canonicalUserId then Inl DbError
      else case find (\<lambda>u. identity_key u = (v, vendorUserId)) (user_identities d) of
        Some u \<Rightarrow>
          let u' = u\<lparr>ui_canonical_user_id := canonicalUserId, ui_updated_at := now\<rparr>
          in Inr (u', d\<lparr>user_identities :=
                         update_where (\<lambda>q. identity_key q = (v, vendorUserId))
                           (\<lambda>q. q\<lparr>ui_canonical_user_id := canonicalUserId, ui_updated_at := now\<rparr>)
                           (user_identities d),
                       identity_seq := Suc (identity_seq d)\<rparr>)
      | None \<Rightarrow>
          let u' = \<lparr>ui_id = identity_seq d, ui_vendor = v, ui_vendor_user_id = vendorUserId,
                    ui_canonical_user_id = canonicalUserId, ui_created_at = now, ui_updated_at = now\<rparr>
          in Inr (u', d\<lparr>user_identities := user_identities d @ [u'], identity_seq := Suc (identity_seq d)\<rparr>))"

definition linkIdentity ::
    "'r Redis \<Rightarrow> int \<Rightarrow> Vendor \<Rightarrow> js_string \<Rightarrow> js_string \<Rightarrow> js_string \<Rightarrow> Db \<times> 'r
       \<Rightarrow> exn + UserIdentity \<times> (Db \<times> 'r)" where
  "linkIdentity R now v vendorUserId canonicalUserId actor = (\<lambda>(d, r).
     (case upsert_identity now v vendorUserId canonicalUserId d of
        Inl e \<Rightarrow> Inl e
      | Inr (row, d1) \<Rightarrow>
          (case audit_record (identity_audit ''IDENTITY_LINK'' actor canonicalUserId v vendorUserId) d1 of
             Inl e \<Rightarrow> Inl e
           | Inr d2 \<Rightarrow>
               Inr (row, (d2, r_del R [identityCacheKey (vendor_string v) vendorUserId,
                                       identityListCacheKey canonicalUserId] r)))))"

text \<open>The historical backfill, which runs detached after \<open>linkIdentity\<close> has answered; a value that does
  not fit its column changes no row, and the rejection is only logged.\<close>

definition backfill :: "Vendor \<Rightarrow> js_string \<Rightarrow> js_string \<Rightarrow> Db \<Rightarrow> Db" where
  "backfill v vendorUserId canonicalUserId d =
     (if varchar 26 canonicalUserId
      then d\<lparr>shots := update_where
                       (\<lambda>s. vendor s = v \<and> vendor_user_id s = vendorUserId \<and> canonical_user_id s = None)
                       (\<lambda>s. s\<lparr>canonical_user_id := Some canonicalUserId\<rparr>) (shots d)\<rparr>
      else d)"

definition list_audit :: "js_string \<Rightarrow> js_string \<Rightarrow> nat \<Rightarrow> AuditEntry" where
  "list_audit actor canonicalUserId n =
     \<lparr>au_action = ''IDENTITY_LIST'', au_actor = actor, au_canonical_user_id = Some canonicalUserId,
      au_vendor = None, au_vendor_user_id = None,
      au_metadata = Some (JObj [(''result_count'', JNum (of_nat n))])\<rparr>"

text \<open>The rows, and the rejection of the detached audit write, if any.\<close>

definition listByCanonicalUser ::
    "'r Redis \<Rightarrow> int \<Rightarrow> js_string \<Rightarrow> js_string \<Rightarrow> Db \<times> 'r \<Rightarrow> (UserIdentity list \<times> exn option) \<times> (Db \<times> 'r)" where
  "listByCanonicalUser R now canonicalUserId actor = (\<lambda>(d, r).
     (case r_get R now (identityListCacheKey canonicalUserId) r of
        Some cached \<Rightarrow>
          let rows = (case cached of Rows us \<Rightarrow> us | Text t \<Rightarrow> []);
              (d', rejected) = detached (audit_record (list_audit actor canonicalUserId (length rows))) d
          in ((rows, rejected), (d', r))
      | None \<Rightarrow>
          let rows = sort_key ui_created_at
                       (filter (\<lambda>u. ui_canonical_user_id u = canonicalUserId) (user_identities d));
              r' = r_set R now (identityListCacheKey canonicalUserId) (Rows rows) identity_list_cache_ttl_s r;
              (d', rejected) = detached (audit_record (list_audit actor canonicalUserId (length rows))) d
          in ((rows, rejected), (d', r'))))"

definition unlinkIdentity ::
    "'r Redis \<Rightarrow> Vendor \<Rightarrow> js_string \<Rightarrow> js_string \<Rightarrow> js_string \<Rightarrow> Db \<times> 'r \<Rightarrow> exn + Db \<times> 'r" where
  "unlinkIdentity R v vendorUserId canonicalUserId actor = (\<lambda>(d, r).
     (let hit = (\<lambda>u. identity_key u = (v, vendorUserId) \<and> ui_canonical_user_id u = canonicalUserId)
      in if \<not> list_ex hit (user_identities d)
         then Inl (Domain (IdentityNotFoundError (vendor_string v) vendorUserId canonicalUserId))
         else
           (case audit_record (identity_audit ''IDENTITY_UNLINK'' actor canonicalUserId v vendorUserId)
                   (d\<lparr>user_identities := filter (\<lambda>u. \<not> hit u) (user_identities d)\<rparr>) of
              Inl e \<Rightarrow> Inl e
            | Inr d' \<Rightarrow>
                Inr (d', r_del R [identityCacheKey (vendor_string v) vendorUserId,
                                  identityListCacheKey canonicalUserId] r))))"

section \<open>The endpoints\<close>

text \<open>\<open>identity/identity.controller.ts\<close>.\<close>

definition LinkBodySchema :: "(Vendor \<times> js_string) schema" where
  "LinkBodySchema v =
     do { kvs \<leftarrow> (case v of JObj kvs \<Rightarrow> Some kvs | _ \<Rightarrow> None);
          vs \<leftarrow> z_enum [''trackpro'', ''swingmetric'', ''proswing''] (get kvs ''vendor'');
          u \<leftarrow> z_string 1 255 (get kvs ''vendor_user_id'');
          vd \<leftarrow> map_of VALID_VENDORS vs;
          Some (vd, u) }"

definition link_endpoint ::
    "'r Redis \<Rightarrow> int \<Rightarrow> js_string \<Rightarrow> jsval \<Rightarrow> Db \<times> 'r \<Rightarrow> exn + UserIdentity \<times> (Db \<times> 'r)" where
  "link_endpoint R now canonicalUserId body s =
     (case ZodValidationPipe LinkBodySchema body of
        Inl e \<Rightarrow> Inl e
      | Inr (v, u) \<Rightarrow> linkIdentity R now v u canonicalUserId ''internal-api'' s)"

definition unlink_endpoint ::
    "'r Redis \<Rightarrow> js_string \<Rightarrow> js_string \<Rightarrow> js_string \<Rightarrow> Db \<times> 'r \<Rightarrow> exn + Db \<times> 'r" where
  "unlink_endpoint R canonicalUserId vendor_name vendorUserId s =
     (case map_of VALID_VENDORS vendor_name of
        None \<Rightarrow> Inl (Domain (UnknownVendorError vendor_name))
      | Some v \<Rightarrow> unlinkIdentity R v vendorUserId canonicalUserId ''internal-api'' s)"

section \<open>Operations in sequence\<close>

datatype identity_op =
    Resolve Vendor js_string
  | Link Vendor js_string js_string
  | Unlink Vendor js_string js_string
  | ListOf js_string
  | Backfill Vendor js_string js_string

text \<open>One operation at a time, its failure leaving the state unchanged.\<close>

fun identity_step :: "'r Redis \<Rightarrow> js_string \<Rightarrow> int \<Rightarrow> identity_op \<Rightarrow> Db \<times> 'r \<Rightarrow> Db \<times> 'r" where
  "identity_step R actor now (Resolve v u) s = (fst s, snd (resolveCanonicalUserId R now (vendor_string v) u s))"
| "identity_step R actor now (Link v u c) s =
     (case linkIdentity R now v u c actor s of Inl e \<Rightarrow> s | Inr (row, s') \<Rightarrow> s')"
| "identity_step R actor now (Unlink v u c) s =
     (case unlinkIdentity R v u c actor s of Inl e \<Rightarrow> s | Inr s' \<Rightarrow> s')"
| "identity_step R actor now (ListOf c) s = snd (listByCanonicalUser R now c actor s)"
| "identity_step R actor now (Backfill v u c) s = (backfill v u c (fst s), snd s)"

text \<open>The cache stores the empty text for a user with no mapping; an empty canonical id, which no
  client sends as a path segment, is left out.\<close>

fun op_ok :: "identity_op \<Rightarrow> bool" where
  "op_ok (Link v u c) = (c \<noteq> [])"
| "op_ok _ = True"

inductive identity_reachable :: "'r Redis \<Rightarrow> js_string \<Rightarrow> int \<Rightarrow> Db \<times> 'r \<Rightarrow> int \<Rightarrow> Db \<times> 'r \<Rightarrow> bool"
  for R actor t0 s0 where
  start: "identity_reachable R actor t0 s0 t0 s0"
| step: "identity_reachable R actor t0 s0 now s \<Longrightarrow> now \<le> now' \<Longrightarrow> op_ok op \<Longrightarrow>
     identity_reachable R actor t0 s0 now' (identity_step R actor now' op s)"

section \<open>Lemmas\<close>

lemma identity_key_inj:
  "identityCacheKey (vendor_string v) u = identityCacheKey (vendor_string w) x \<longleftrightarrow> v = w \<and> u = x"
  by (cases v; cases w) (auto simp: identityCacheKey_def vendor_string_def)

lemma cache_keys_disjoint:
  "identityCacheKey v u \<noteq> identityListCacheKey c" "identityListCacheKey c \<noteq> identityCacheKey v u"
  by (simp_all add: identityCacheKey_def identityListCacheKey_def)

lemma redis_set_same: "redis_ok R \<Longrightarrow> r_get R t k (r_set R now k v ttl r) = Some w \<Longrightarrow> w = v"
  by (drule redis_ok_def [THEN iffD1]) (elim conjE, metis)

lemma redis_set_live:
  "redis_ok R \<Longrightarrow> now \<le> t \<Longrightarrow> t < now + int ttl * 1000 \<Longrightarrow> r_get R t k (r_set R now k v ttl r) = Some v"
  by (simp add: redis_ok_def)

lemma redis_set_other: "redis_ok R \<Longrightarrow> k' \<noteq> k \<Longrightarrow> r_get R t k' (r_set R now k v ttl r) = r_get R t k' r"
  by (simp add: redis_ok_def)

lemma redis_del: "redis_ok R \<Longrightarrow> r_get R t k (r_del R ks r) = (if k \<in> set ks then None else r_get R t k r)"
  by (simp add: redis_ok_def)

lemma vendor_lookup_string [simp]: "map_of VALID_VENDORS (vendor_string v) = Some v"
  by (simp add: vendor_lookup)

lemma find_update_where:
  assumes "\<And>r. k (f r) = k r"
  shows "find (\<lambda>r. k r = x) (update_where p f rows)
         = map_option (\<lambda>r. if p r then f r else r) (find (\<lambda>r. k r = x) rows)"
  using assms by (induction rows) (auto simp: update_where_def)

lemma upsert_identity_lookup:
  assumes "upsert_identity now v u c d = Inr (row, d')"
  shows "lookup_identity w x d' = (if (w, x) = (v, u) then Some c else lookup_identity w x d)"
proof (cases "find (\<lambda>q. identity_key q = (v, u)) (user_identities d)")
  case None
  let ?new = "\<lparr>ui_id = identity_seq d, ui_vendor = v, ui_vendor_user_id = u,
               ui_canonical_user_id = c, ui_created_at = now, ui_updated_at = now\<rparr>"
  have d': "user_identities d' = user_identities d @ [?new]"
    using assms None by (auto simp: upsert_identity_def Let_def split: if_splits)
  have k: "identity_key ?new = (v, u)" by (simp add: identity_key_def)
  show ?thesis using None by (auto simp: lookup_identity_def d' find_snoc k split: option.splits)
next
  case (Some q)
  then have "user_identities d' = update_where (\<lambda>q. identity_key q = (v, u))
               (\<lambda>q. q\<lparr>ui_canonical_user_id := c, ui_updated_at := now\<rparr>) (user_identities d)"
    using assms by (auto simp: upsert_identity_def Let_def split: if_splits)
  moreover have "identity_key (q\<lparr>ui_canonical_user_id := c, ui_updated_at := now\<rparr>) = identity_key q" for q
    by (simp add: identity_key_def)
  ultimately show ?thesis
    using Some find_SomeD [of "\<lambda>r. identity_key r = (w, x)" "user_identities d"]
    by (cases "find (\<lambda>r. identity_key r = (w, x)) (user_identities d)")
      (auto simp: lookup_identity_def find_update_where)
qed

lemma upsert_identity_inv:
  assumes "db_inv d" and "upsert_identity now v u c d = Inr (row, d')"
  shows "db_inv d'" and "shots d' = shots d" and "outbox_events d' = outbox_events d"
proof -
  have chk: "identities_check u c" using assms(2) by (auto simp: upsert_identity_def split: if_splits)
  show "db_inv d'"
  proof (cases "find (\<lambda>q. identity_key q = (v, u)) (user_identities d)")
    case None
    then have fresh: "(v, u) \<notin> identity_key ` set (user_identities d)" by (simp add: find_None_key)
    have "identity_key \<lparr>ui_id = i, ui_vendor = v, ui_vendor_user_id = u, ui_canonical_user_id = c,
            ui_created_at = now, ui_updated_at = now\<rparr> = (v, u)" for i
      by (simp add: identity_key_def)
    moreover obtain n where d': "d' = d\<lparr>user_identities := user_identities d @ [n], identity_seq := Suc (identity_seq d)\<rparr>"
      and n: "n = \<lparr>ui_id = identity_seq d, ui_vendor = v, ui_vendor_user_id = u, ui_canonical_user_id = c,
                   ui_created_at = now, ui_updated_at = now\<rparr>"
      using None assms(2) by (auto simp: upsert_identity_def Let_def split: if_splits)
    ultimately have "identity_key n \<notin> identity_key ` set (user_identities d)" using fresh by simp
    moreover have "ui_id n \<notin> ui_id ` set (user_identities d)" "ui_id n = identity_seq d"
      using assms(1) by (auto simp: n db_inv_def)
    moreover have "\<forall>u \<in> set (user_identities d @ [n]). ui_id u < Suc (identity_seq d)"
      using assms(1) by (auto simp: n db_inv_def less_Suc_eq)
    ultimately show ?thesis using assms(1) unfolding d' by (simp add: db_inv_def)
  next
    case (Some q)
    let ?rows = "update_where (\<lambda>q. identity_key q = (v, u))
                  (\<lambda>q. q\<lparr>ui_canonical_user_id := c, ui_updated_at := now\<rparr>) (user_identities d)"
    have d': "d' = d\<lparr>user_identities := ?rows, identity_seq := Suc (identity_seq d)\<rparr>"
      using Some assms(2) by (auto simp: upsert_identity_def Let_def split: if_splits)
    have "map identity_key ?rows = map identity_key (user_identities d)"
      "map ui_id ?rows = map ui_id (user_identities d)"
      by (intro update_where_map; simp add: identity_key_def)+
    moreover have "\<forall>u \<in> set ?rows. ui_id u < Suc (identity_seq d)"
      using assms(1) by (auto simp: update_where_set db_inv_def less_Suc_eq)
    ultimately show ?thesis using assms(1) unfolding d' by (simp add: db_inv_def)
  qed
  show "shots d' = shots d" "outbox_events d' = outbox_events d"
    using assms(2) by (auto simp: upsert_identity_def Let_def split: if_splits option.splits)
qed

lemma audit_record_Inr:
  "audit_record e d = Inr d' \<longleftrightarrow> audit_check e \<and> d' = d\<lparr>audit_log := audit_log d @ [e]\<rparr>"
  by (auto simp: audit_record_def)

lemma audit_frame [simp]:
  "lookup_identity v u (d\<lparr>audit_log := a\<rparr>) = lookup_identity v u d"
  "lookup_identity v u (d\<lparr>shots := ss\<rparr>) = lookup_identity v u d"
  by (simp_all add: lookup_identity_def)

lemma audit_record_inv: "db_inv d \<Longrightarrow> audit_record e d = Inr d' \<Longrightarrow> db_inv d'"
  by (auto simp: audit_record_Inr db_inv_def)

lemma detached_audit:
  "detached (audit_record e) d
     = (if audit_check e then (d\<lparr>audit_log := audit_log d @ [e]\<rparr>, None) else (d, Some DbError))"
  by (simp add: detached_def audit_record_def)

lemma unlink_lookup:
  assumes "distinct (map identity_key (user_identities d))" and "list_ex (\<lambda>q. identity_key q = (v, u) \<and> ui_canonical_user_id q = c) (user_identities d)"
  shows "lookup_identity w x (d\<lparr>user_identities :=
            filter (\<lambda>q. \<not> (identity_key q = (v, u) \<and> ui_canonical_user_id q = c)) (user_identities d)\<rparr>)
         = (if (w, x) = (v, u) then None else lookup_identity w x d)"
proof -
  obtain q where q: "q \<in> set (user_identities d)" "identity_key q = (v, u)" "ui_canonical_user_id q = c"
    using assms(2) by (auto simp: list_ex_iff)
  have uniq: "r = q" if "r \<in> set (user_identities d)" "identity_key r = (v, u)" for r
    using that q assms(1) by (metis distinct_map inj_onD)
  have hit: "filter (\<lambda>q. \<not> (identity_key q = (v, u) \<and> ui_canonical_user_id q = c)) (user_identities d)
             = filter (\<lambda>r. identity_key r \<noteq> (v, u)) (user_identities d)"
    using uniq q(3) by (intro filter_cong) auto
  have "find (\<lambda>r. identity_key r = k) (filter (\<lambda>r. identity_key r \<noteq> (v, u)) rows)
        = (if k = (v, u) then None else find (\<lambda>r. identity_key r = k) rows)" for k rows
    by (induction rows) auto
  then show ?thesis by (simp add: lookup_identity_def hit del: de_Morgan_conj)
qed

section \<open>Coherence of the resolve cache\<close>

definition cached_text :: "Vendor \<Rightarrow> js_string \<Rightarrow> Db \<Rightarrow> cache_value" where
  "cached_text v u d = Text (case lookup_identity v u d of Some c \<Rightarrow> c | None \<Rightarrow> [])"

definition coherent :: "'r Redis \<Rightarrow> int \<Rightarrow> Db \<times> 'r \<Rightarrow> bool" where
  "coherent R now s \<longleftrightarrow>
     db_inv (fst s)
     \<and> (\<forall>v u. lookup_identity v u (fst s) \<noteq> Some [])
     \<and> (\<forall>v u t w. now \<le> t \<longrightarrow> r_get R t (identityCacheKey (vendor_string v) u) (snd s) = Some w
          \<longrightarrow> w = cached_text v u (fst s))"

lemma coherent_later: "coherent R now s \<Longrightarrow> now \<le> now' \<Longrightarrow> coherent R now' s"
  unfolding coherent_def by (meson order_trans)

lemma coherent_cached:
  "coherent R now s \<Longrightarrow> now \<le> t \<Longrightarrow> r_get R t (identityCacheKey (vendor_string v) u) (snd s) = Some w \<Longrightarrow>
    w = cached_text v u (fst s)"
  unfolding coherent_def by blast

lemma coherent_nonempty: "coherent R now s \<Longrightarrow> lookup_identity v u (fst s) \<noteq> Some []"
  unfolding coherent_def by blast

lemma resolve_coherent_result:
  assumes "coherent R now s"
  shows "fst (resolveCanonicalUserId R now (vendor_string v) u s) = lookup_identity v u (fst s)"
proof (cases "r_get R now (identityCacheKey (vendor_string v) u) (snd s)")
  case None
  then show ?thesis by (cases s) (simp add: resolveCanonicalUserId_def resolve_read_def)
next
  case (Some w)
  then have "w = cached_text v u (fst s)" "lookup_identity v u (fst s) \<noteq> Some []"
    using coherent_cached [OF assms] coherent_nonempty [OF assms] by blast+
  with Some show ?thesis
    by (cases s) (auto simp: resolveCanonicalUserId_def resolve_read_def cached_text_def split: option.splits)
qed

lemma resolve_coherent:
  assumes "redis_ok R" and "coherent R now s"
  shows "coherent R now (fst s, snd (resolveCanonicalUserId R now (vendor_string v) u s))"
proof (cases "r_get R now (identityCacheKey (vendor_string v) u) (snd s)")
  case None
  let ?r = "resolve_write R now (vendor_string v) u (lookup_identity v u (fst s)) (snd s)"
  have "r_get R t (identityCacheKey (vendor_string w) x) ?r = Some y \<Longrightarrow> now \<le> t \<Longrightarrow> y = cached_text w x (fst s)" for w x t y
    using assms(2) redis_set_same [OF assms(1)] redis_set_other [OF assms(1)]
    by (cases "w = v \<and> x = u") (auto simp: resolve_write_def cached_text_def coherent_def identity_key_inj)
  moreover have "snd (resolveCanonicalUserId R now (vendor_string v) u s) = ?r"
    using None by (cases s) (simp add: resolveCanonicalUserId_def resolve_read_def)
  ultimately show ?thesis using assms(2) by (simp add: coherent_def)
next
  case (Some w)
  then have "snd (resolveCanonicalUserId R now (vendor_string v) u s) = snd s"
    by (cases s) (simp add: resolveCanonicalUserId_def resolve_read_def)
  then show ?thesis using assms(2) by simp
qed

lemma link_coherent:
  assumes "redis_ok R" and "coherent R now s" and "c \<noteq> []" and "linkIdentity R now v u c actor s = Inr (row, s')"
  shows "coherent R now s'" and "lookup_identity v u (fst s') = Some c"
proof -
  obtain d r where s: "s = (d, r)" by (cases s)
  obtain d1 d2 where u1: "upsert_identity now v u c d = Inr (row, d1)"
    and a: "audit_record (identity_audit ''IDENTITY_LINK'' actor c v u) d1 = Inr d2"
    and s': "s' = (d2, r_del R [identityCacheKey (vendor_string v) u, identityListCacheKey c] r)"
    using assms(4) by (auto simp: linkIdentity_def s split: sum.splits)
  have inv: "db_inv d" and ne: "lookup_identity w x d \<noteq> Some []"
    and c: "now \<le> t \<Longrightarrow> r_get R t (identityCacheKey (vendor_string w) x) r = Some y \<Longrightarrow> y = cached_text w x d"
    for w x t y
    using assms(2) by (auto simp: coherent_def s)
  have "db_inv d2" by (rule audit_record_inv [OF upsert_identity_inv(1) [OF inv u1] a])
  moreover have look: "lookup_identity w x d2 = (if (w, x) = (v, u) then Some c else lookup_identity w x d)" for w x
    using a upsert_identity_lookup [OF u1, of w x] by (simp add: audit_record_Inr)
  moreover have "y = cached_text w x d2"
    if "now \<le> t" "r_get R t (identityCacheKey (vendor_string w) x)
          (r_del R [identityCacheKey (vendor_string v) u, identityListCacheKey c] r) = Some y" for w x t y
    using that c look by (auto simp: redis_del [OF assms(1)] identity_key_inj cached_text_def split: if_splits)
  ultimately show "coherent R now s'" "lookup_identity v u (fst s') = Some c"
    using ne assms(3) by (auto simp: coherent_def s')
qed

lemma unlink_coherent:
  assumes "redis_ok R" and "coherent R now s" and "unlinkIdentity R v u c actor s = Inr s'"
  shows "coherent R now s'" and "lookup_identity v u (fst s') = None"
proof -
  obtain d r where s: "s = (d, r)" by (cases s)
  let ?d1 = "d\<lparr>user_identities :=
            filter (\<lambda>q. \<not> (identity_key q = (v, u) \<and> ui_canonical_user_id q = c)) (user_identities d)\<rparr>"
  obtain d2 where ex: "list_ex (\<lambda>q. identity_key q = (v, u) \<and> ui_canonical_user_id q = c) (user_identities d)"
    and a: "audit_record (identity_audit ''IDENTITY_UNLINK'' actor c v u) ?d1 = Inr d2"
    and s': "s' = (d2, r_del R [identityCacheKey (vendor_string v) u, identityListCacheKey c] r)"
    using assms(3) by (auto simp: unlinkIdentity_def Let_def s split: sum.splits if_splits)
  have inv: "db_inv d" and ne: "lookup_identity w x d \<noteq> Some []"
    and c: "now \<le> t \<Longrightarrow> r_get R t (identityCacheKey (vendor_string w) x) r = Some y \<Longrightarrow> y = cached_text w x d"
    for w x t y
    using assms(2) by (auto simp: coherent_def s)
  have "db_inv ?d1" using inv by (auto simp: db_inv_def distinct_map_filter)
  then have "db_inv d2" by (rule audit_record_inv [OF _ a])
  moreover have look: "lookup_identity w x d2 = (if (w, x) = (v, u) then None else lookup_identity w x d)" for w x
    using a unlink_lookup [OF _ ex, of w x] inv by (auto simp: audit_record_Inr db_inv_def)
  moreover have "y = cached_text w x d2"
    if "now \<le> t" "r_get R t (identityCacheKey (vendor_string w) x)
          (r_del R [identityCacheKey (vendor_string v) u, identityListCacheKey c] r) = Some y" for w x t y
    using that c look by (auto simp: redis_del [OF assms(1)] identity_key_inj cached_text_def split: if_splits)
  ultimately show "coherent R now s'" "lookup_identity v u (fst s') = None"
    using ne by (auto simp: coherent_def s')
qed

lemma list_coherent:
  assumes "redis_ok R" and "coherent R now s"
  shows "coherent R now (snd (listByCanonicalUser R now c actor s))"
proof -
  obtain d r where s: "s = (d, r)" by (cases s)
  have "db_inv (d\<lparr>audit_log := audit_log d @ [e]\<rparr>)" if "audit_check e" for e
    using assms(2) that by (auto simp: coherent_def s db_inv_def)
  then show ?thesis
    using assms(2) redis_set_other [OF assms(1) cache_keys_disjoint(1)]
    by (auto simp: listByCanonicalUser_def s coherent_def Let_def detached_audit cached_text_def
        split: option.splits)
qed

lemma backfill_inv:
  assumes "db_inv d"
  shows "db_inv (backfill v u c d)"
proof (cases "varchar 26 c")
  case True
  let ?rows = "update_where (\<lambda>s. vendor s = v \<and> vendor_user_id s = u \<and> canonical_user_id s = None)
                 (\<lambda>s. s\<lparr>canonical_user_id := Some c\<rparr>) (shots d)"
  have "map canonical_shot_id ?rows = map canonical_shot_id (shots d)" "map shot_key ?rows = map shot_key (shots d)"
    by (intro update_where_map; simp add: shot_key_def)+
  moreover have "canonical_shot_id ` set ?rows = canonical_shot_id ` set (shots d)"
    by (intro update_where_image) simp
  moreover have "list_all shots_check ?rows"
    using assms True by (intro list_all_update_where) (auto simp: db_inv_def shots_check_def)
  moreover have "\<forall>s \<in> set ?rows. \<forall>o2. duplicate_of s = Some o2 \<longrightarrow> o2 \<in> canonical_shot_id ` set (shots d)"
    using assms(1) by (auto simp: db_inv_def update_where_set split: if_splits)
  ultimately show ?thesis using assms True by (simp add: db_inv_def backfill_def)
qed (use assms in \<open>simp add: backfill_def\<close>)

lemma step_coherent:
  assumes "redis_ok R" and "coherent R now s" and "op_ok op"
  shows "coherent R now (identity_step R actor now op s)"
proof (cases op)
  case (Resolve v u)
  then show ?thesis using resolve_coherent [OF assms(1,2)] by simp
next
  case (Link v u c)
  then show ?thesis using assms link_coherent(1) [OF assms(1,2)] by (fastforce split: sum.splits)
next
  case (Unlink v u c)
  then show ?thesis using assms(2) unlink_coherent(1) [OF assms(1,2)] by (fastforce split: sum.splits)
next
  case (ListOf c)
  then show ?thesis using list_coherent [OF assms(1,2)] by simp
next
  case (Backfill v u c)
  then show ?thesis
    using assms backfill_inv by (simp add: coherent_def cached_text_def) (simp add: backfill_def)
qed

lemma reachable_coherent:
  assumes "redis_ok R" and "coherent R t0 s0"
  shows "identity_reachable R actor t0 s0 now s \<Longrightarrow> coherent R now s"
proof (induction rule: identity_reachable.induct)
  case start
  show ?case by (rule assms(2))
next
  case (step now s now' op)
  then show ?case using step_coherent [OF assms(1) coherent_later] by blast
qed


section \<open>Lemmas on single operations\<close>

lemma link_Inr:
  assumes "linkIdentity R now v u c actor (d, r) = Inr (row, (d', r'))"
  shows "lookup_identity w x d' = (if (w, x) = (v, u) then Some c else lookup_identity w x d)"
    and "audit_log d' = audit_log d @ [identity_audit ''IDENTITY_LINK'' actor c v u]"
    and "shots d' = shots d"
    and "r' = r_del R [identityCacheKey (vendor_string v) u, identityListCacheKey c] r"
    and "db_inv d \<Longrightarrow> db_inv d'"
proof -
  obtain d1 where u1: "upsert_identity now v u c d = Inr (row, d1)"
    and a: "audit_record (identity_audit ''IDENTITY_LINK'' actor c v u) d1 = Inr d'"
    and r': "r' = r_del R [identityCacheKey (vendor_string v) u, identityListCacheKey c] r"
    using assms by (auto simp: linkIdentity_def split: sum.splits)
  have "audit_log d1 = audit_log d" "shots d1 = shots d"
    using u1 by (auto simp: upsert_identity_def Let_def split: if_splits option.splits)
  then show "audit_log d' = audit_log d @ [identity_audit ''IDENTITY_LINK'' actor c v u]"
    "shots d' = shots d"
    using a by (auto simp: audit_record_Inr)
  show "lookup_identity w x d' = (if (w, x) = (v, u) then Some c else lookup_identity w x d)"
    using a upsert_identity_lookup [OF u1, of w x] by (simp add: audit_record_Inr)
  show "db_inv d'" if "db_inv d" by (rule audit_record_inv [OF upsert_identity_inv(1) [OF that u1] a])
qed (use assms in \<open>auto simp: linkIdentity_def split: sum.splits\<close>)

lemma link_outbox:
  "linkIdentity R now v u c actor (d, r) = Inr (row, (d', r')) \<Longrightarrow> outbox_events d' = outbox_events d"
  by (auto simp: linkIdentity_def audit_record_Inr upsert_identity_def Let_def
      split: sum.splits if_splits option.splits)

lemma unlink_frame:
  assumes "unlinkIdentity R v u c actor (d, r) = Inr (d', r')"
  shows "shots d' = shots d" and "outbox_events d' = outbox_events d" and "db_inv d \<Longrightarrow> db_inv d'"
proof -
  obtain p where a: "audit_record (identity_audit ''IDENTITY_UNLINK'' actor c v u)
      (d\<lparr>user_identities := filter p (user_identities d)\<rparr>) = Inr d'"
    using assms by (auto simp: unlinkIdentity_def Let_def split: sum.splits if_splits)
  show "shots d' = shots d" "outbox_events d' = outbox_events d" using a by (auto simp: audit_record_Inr)
  show "db_inv d'" if "db_inv d"
    by (rule audit_record_inv [OF _ a]) (use that in \<open>auto simp: db_inv_def distinct_map_filter\<close>)
qed

lemma list_frame:
  assumes "listByCanonicalUser R now c actor (d, r) = (res, (d', r'))"
  shows "shots d' = shots d" and "outbox_events d' = outbox_events d" and "db_inv d \<Longrightarrow> db_inv d'"
  using assms
  by (auto simp: listByCanonicalUser_def Let_def detached_audit db_inv_def split: option.splits if_splits)

lemma link_Inl:
  assumes "linkIdentity R now v u c actor (d, r) = Inl e"
  shows "e = DbError" and "255 < length u \<or> 26 < length c \<or> 255 < length actor"
proof -
  have "e = DbError \<and> (255 < length u \<or> 26 < length c \<or> 255 < length actor)"
  proof (cases "upsert_identity now v u c d")
    case (Inl e1)
    then have "e1 = DbError" "\<not> identities_check u c"
      by (auto simp: upsert_identity_def Let_def split: if_splits option.splits)
    then show ?thesis using assms Inl by (auto simp: linkIdentity_def identities_check_def varchar_def)
  next
    case (Inr p)
    then show ?thesis
      using assms
      by (cases p) (auto simp: linkIdentity_def audit_record_def audit_check_def identity_audit_def
          varchar_def split: if_splits)
  qed
  then show "e = DbError" "255 < length u \<or> 26 < length c \<or> 255 < length actor" by auto
qed

lemma mapped_iff:
  assumes "distinct (map identity_key (user_identities d))"
  shows "list_ex (\<lambda>q. identity_key q = (v, u) \<and> ui_canonical_user_id q = c) (user_identities d)
         \<longleftrightarrow> lookup_identity v u d = Some c"
proof
  assume "list_ex (\<lambda>q. identity_key q = (v, u) \<and> ui_canonical_user_id q = c) (user_identities d)"
  then obtain q where "q \<in> set (user_identities d)" "identity_key q = (v, u)" "ui_canonical_user_id q = c"
    by (auto simp: list_ex_iff)
  then show "lookup_identity v u d = Some c"
    using find_unique [OF assms] by (simp add: lookup_identity_def)
next
  assume "lookup_identity v u d = Some c"
  then show "list_ex (\<lambda>q. identity_key q = (v, u) \<and> ui_canonical_user_id q = c) (user_identities d)"
    by (auto simp: lookup_identity_def list_ex_iff dest: find_SomeD)
qed

lemma unlink_Inr:
  assumes "distinct (map identity_key (user_identities d))"
    and "unlinkIdentity R v u c actor (d, r) = Inr (d', r')"
  shows "lookup_identity v u d = Some c"
    and "lookup_identity w x d' = (if (w, x) = (v, u) then None else lookup_identity w x d)"
    and "audit_log d' = audit_log d @ [identity_audit ''IDENTITY_UNLINK'' actor c v u]"
    and "shots d' = shots d"
proof -
  let ?d1 = "d\<lparr>user_identities :=
            filter (\<lambda>q. \<not> (identity_key q = (v, u) \<and> ui_canonical_user_id q = c)) (user_identities d)\<rparr>"
  have ex: "list_ex (\<lambda>q. identity_key q = (v, u) \<and> ui_canonical_user_id q = c) (user_identities d)"
    and a: "audit_record (identity_audit ''IDENTITY_UNLINK'' actor c v u) ?d1 = Inr d'"
    using assms(2) by (auto simp: unlinkIdentity_def Let_def split: sum.splits if_splits)
  show "lookup_identity v u d = Some c" using ex mapped_iff [OF assms(1)] by simp
  show "lookup_identity w x d' = (if (w, x) = (v, u) then None else lookup_identity w x d)"
    using a unlink_lookup [OF assms(1) ex, of w x] by (auto simp: audit_record_Inr)
  show "audit_log d' = audit_log d @ [identity_audit ''IDENTITY_UNLINK'' actor c v u]"
    "shots d' = shots d"
    using a by (auto simp: audit_record_Inr)
qed

lemma unlink_not_mapped:
  assumes "distinct (map identity_key (user_identities d))"
  shows "unlinkIdentity R v u c actor (d, r) = Inl (Domain (IdentityNotFoundError (vendor_string v) u c))
         \<longleftrightarrow> lookup_identity v u d \<noteq> Some c"
  using mapped_iff [OF assms, of v u c]
  by (auto simp: unlinkIdentity_def Let_def audit_record_def split: if_splits)

lemma list_rows:
  assumes "r_get R now (identityListCacheKey c) r = None"
  shows "listByCanonicalUser R now c actor (d, r)
         = (let rows = sort_key ui_created_at (filter (\<lambda>u. ui_canonical_user_id u = c) (user_identities d));
                (d', rejected) = detached (audit_record (list_audit actor c (length rows))) d
            in ((rows, rejected), d',
                r_set R now (identityListCacheKey c) (Rows rows) identity_list_cache_ttl_s r))"
  using assms by (simp add: listByCanonicalUser_def Let_def split: prod.splits)

lemma list_cached:
  assumes "r_get R now (identityListCacheKey c) r = Some (Rows rows)"
  shows "fst (fst (listByCanonicalUser R now c actor (d, r))) = rows"
  using assms by (simp add: listByCanonicalUser_def Let_def split: prod.splits)

text \<open>The audit write of a list request for an id longer than its column is rejected, and the
  rejection of the detached promise has no handler.\<close>

lemma list_long_id_rejected:
  assumes "26 < length c"
  shows "snd (fst (listByCanonicalUser R now c actor s)) = Some DbError"
  using assms
  by (cases s) (auto simp: listByCanonicalUser_def Let_def detached_audit audit_check_def list_audit_def
      varchar_def split: option.splits)


section \<open>A concrete Redis\<close>

text \<open>A map from keys to values with the time at which they expire.\<close>

type_synonym map_store = "js_string \<Rightarrow> (cache_value \<times> int) option"

definition map_redis :: "map_store Redis" where
  "map_redis =
     \<lparr>r_get = \<lambda>now k r. case r k of Some (v, e) \<Rightarrow> if now < e then Some v else None | None \<Rightarrow> None,
      r_set = \<lambda>now k v ttl r. r(k \<mapsto> (v, now + int ttl * 1000)),
      r_del = \<lambda>ks r k. if k \<in> set ks then None else r k\<rparr>"

lemma map_redis_ok: "redis_ok map_redis"
  by (simp add: redis_ok_def map_redis_def)

lemma map_redis_empty: "r_get map_redis t k (\<lambda>k. None) = None"
  by (simp add: map_redis_def)

section \<open>Properties\<close>

text \<open>C10: Whatever sequence of resolves, links, unlinks, lists and backfills has run, one at a time
  and starting from an empty cache, the table keeps its keys and checks, and resolving a vendor
  user returns exactly the mapping the table holds: the cache is never behind, whatever it holds
  and whenever its entries expire.\<close>

theorem identity_resolve_correct:
  assumes "redis_ok R" and "db_inv d" and "\<forall>q \<in> set (user_identities d). ui_canonical_user_id q \<noteq> []"
    and "\<forall>t k. r_get R t k r = None"
    and "identity_reachable R actor t0 (d, r) now s"
  shows "db_inv (fst s)
         \<and> fst (resolveCanonicalUserId R now (vendor_string v) u s) = lookup_identity v u (fst s)"
proof -
  have "lookup_identity w x d \<noteq> Some []" for w x
    using assms(3) by (auto simp: lookup_identity_def dest: find_SomeD)
  then have "coherent R t0 (d, r)" using assms(2,4) by (simp add: coherent_def)
  from reachable_coherent [OF assms(1) this assms(5)] show ?thesis
    using resolve_coherent_result unfolding coherent_def by blast
qed

theorem identity_resolve_correct_witness:
  "let s = identity_step map_redis ''api'' 5000 (Link Trackpro ''u1'' ''c1'')
             (identity_step map_redis ''api'' 0 (Resolve Trackpro ''u1'') (empty_db, \<lambda>k. None))
   in fst (resolveCanonicalUserId map_redis 5000 ''trackpro'' ''u1'' s) = lookup_identity Trackpro ''u1'' (fst s)"
proof -
  have "identity_reachable map_redis ''api'' 0 (empty_db, \<lambda>k. None) 5000
          (identity_step map_redis ''api'' 5000 (Link Trackpro ''u1'' ''c1'')
             (identity_step map_redis ''api'' 0 (Resolve Trackpro ''u1'') (empty_db, \<lambda>k. None)))"
    by (intro identity_reachable.step [where now = 0] identity_reachable.start) simp_all
  from identity_resolve_correct [OF map_redis_ok empty_db_inv(1) _ _ this, of Trackpro "''u1''"]
  show ?thesis by (simp add: map_redis_empty empty_db_def vendor_string_def Let_def)
qed


text \<open>A table in which player 7 is mapped.\<close>

definition linked_db :: Db where
  "linked_db = empty_db\<lparr>user_identities :=
     [\<lparr>ui_id = 0, ui_vendor = Trackpro, ui_vendor_user_id = ''p7'', ui_canonical_user_id = ''c1'',
       ui_created_at = 0, ui_updated_at = 0\<rparr>], identity_seq := 1\<rparr>"

lemma linked_db: "db_inv linked_db" "lookup_identity Trackpro ''p7'' linked_db = Some ''c1''"
  by (simp_all add: db_inv_def linked_db_def empty_db_def lookup_identity_def identity_key_def)

lemma relinked:
  "\<exists>row d2 r2. linkIdentity map_redis 0 Trackpro ''p7'' ''c2'' ''api'' (linked_db, \<lambda>k. None) = Inr (row, (d2, r2))"
proof -
  have "linkIdentity map_redis 0 Trackpro ''p7'' ''c2'' ''api'' (linked_db, \<lambda>k. None) \<noteq> Inl e" for e
    using link_Inl(2) [where R = map_redis and v = Trackpro and u = "''p7''" and c = "''c2''" and actor = "''api''"]
    by fastforce
  then show ?thesis by (metis surj_pair sumE)
qed


text \<open>After a link and its backfill, every stored shot of the vendor user has a canonical user,
  shots of other users and shots that had one are unchanged, the constraints hold, and repeating
  the backfill, even for another canonical user, changes nothing: a shot is attributed once.\<close>

theorem identity_backfill:
  assumes "db_inv d" and "linkIdentity R now v u c actor (d, r) = Inr (row, (d1, r1))"
  shows "let d2 = backfill v u c d1 in
         db_inv d2
         \<and> length (shots d2) = length (shots d)
         \<and> (\<forall>i < length (shots d).
              shots d2 ! i =
                (let s = shots d ! i
                 in if canonical_user_id s = None \<and> vendor s = v \<and> vendor_user_id s = u
                    then s\<lparr>canonical_user_id := lookup_identity v u d2\<rparr> else s))
         \<and> (\<forall>c'. backfill v u c' d2 = d2)"
proof -
  have "varchar 26 c"
    using assms(2) by (auto simp: linkIdentity_def upsert_identity_def identities_check_def split: if_splits)
  moreover have "lookup_identity v u (backfill v u c d1) = Some c"
    using link_Inr(1) [OF assms(2), of v u] by (simp add: backfill_def)
  moreover have "update_where p f (update_where p g xs) = update_where p g xs"
    if "\<And>s. \<not> p (g s)" for p f g and xs :: "NormalisedShot list"
    using that by (induction xs) (auto simp: update_where_def)
  ultimately show ?thesis
    using backfill_inv [OF link_Inr(5) [OF assms(2,1)], of v u c] link_Inr(3) [OF assms(2)]
    by (auto simp: Let_def backfill_def) (auto simp: update_where_def)
qed

theorem identity_backfill_witness:
  "\<exists>row d1 r1. linkIdentity map_redis 0 Trackpro ''p7'' ''c2'' ''api'' (linked_db, \<lambda>k. None) = Inr (row, (d1, r1))
     \<and> db_inv (backfill Trackpro ''p7'' ''c2'' d1)"
proof -
  obtain row d1 r1 where
    l: "linkIdentity map_redis 0 Trackpro ''p7'' ''c2'' ''api'' (linked_db, \<lambda>k. None) = Inr (row, (d1, r1))"
    using relinked by blast
  with identity_backfill [OF linked_db(1) l] show ?thesis by (simp add: Let_def)
qed

text \<open>Two ways in which a reader is served a stale answer after a link has returned. A re-link to
  another canonical user deletes the list cache of the new one only: the old one's cached list
  still names the moved user, for up to 30 seconds. And a resolve that read the table before the
  link and writes the cache after the link's delete makes every resolve of the next 60 seconds
  return the old answer.\<close>

theorem identity_stale_reads:
  assumes "redis_ok R" and "lookup_identity v u d = Some c1" and "c1 \<noteq> c2"
    and "r_get R t1 (identityListCacheKey c1) r = None"
    and "r_get R t1 (identityCacheKey (vendor_string v) u) r = None"
    and "t1 \<le> t2" and "t2 \<le> t3" and "c1 \<noteq> []"
  shows "(\<forall>rows s1 rej row s2.
            listByCanonicalUser R t1 c1 actor (d, r) = ((rows, rej), s1) \<longrightarrow>
            linkIdentity R t2 v u c2 actor s1 = Inr (row, s2) \<longrightarrow> t3 < t1 + 30000 \<longrightarrow>
              lookup_identity v u (fst s2) = Some c2
              \<and> fst (fst (listByCanonicalUser R t3 c1 actor s2)) = rows
              \<and> (\<exists>q \<in> set rows. identity_key q = (v, u)))
         \<and> (\<forall>row d2 r2.
              linkIdentity R t1 v u c2 actor (d, r) = Inr (row, (d2, r2)) \<longrightarrow> t3 < t2 + 60000 \<longrightarrow>
                (let old = snd (resolve_read R t1 (vendor_string v) u (d, r));
                     r3 = resolve_write R t2 (vendor_string v) u old r2
                 in lookup_identity v u d2 = Some c2
                    \<and> fst (resolveCanonicalUserId R t3 (vendor_string v) u (d2, r3)) = Some c1))"
proof (intro conjI allI impI)
  fix rows s1 rej row s2
  assume l: "listByCanonicalUser R t1 c1 actor (d, r) = ((rows, rej), s1)"
    and k: "linkIdentity R t2 v u c2 actor s1 = Inr (row, s2)" and t: "t3 < t1 + 30000"
  obtain d1 r1 d2 r2 where s: "s1 = (d1, r1)" "s2 = (d2, r2)" by (cases s1; cases s2)
  have rows: "rows = sort_key ui_created_at (filter (\<lambda>u. ui_canonical_user_id u = c1) (user_identities d))"
    and r1: "r1 = r_set R t1 (identityListCacheKey c1) (Rows rows) 30 r"
    using l list_rows [OF assms(4), of actor d]
    by (auto simp: s Let_def identity_list_cache_ttl_s_def split: prod.splits)
  have "r_get R t3 (identityListCacheKey c1) r2 = Some (Rows rows)"
    using link_Inr(4) [OF k [unfolded s]] assms(3,6,7) t redis_set_live [OF assms(1), of t1 t3 30]
    by (simp add: redis_del [OF assms(1)] r1 identityListCacheKey_def identityCacheKey_def)
  then show "fst (fst (listByCanonicalUser R t3 c1 actor s2)) = rows" by (simp add: s list_cached)
  show "lookup_identity v u (fst s2) = Some c2" using link_Inr(1) [OF k [unfolded s], of v u] s by simp
  show "\<exists>q \<in> set rows. identity_key q = (v, u)"
    using assms(2) rows by (auto simp: lookup_identity_def dest: find_SomeD)
next
  fix row d2 r2
  assume k: "linkIdentity R t1 v u c2 actor (d, r) = Inr (row, (d2, r2))" and t: "t3 < t2 + 60000"
  have "snd (resolve_read R t1 (vendor_string v) u (d, r)) = Some c1"
    using assms(2,5) by (simp add: resolve_read_def)
  moreover have "r_get R t3 (identityCacheKey (vendor_string v) u)
                   (resolve_write R t2 (vendor_string v) u (Some c1) r2) = Some (Text c1)"
    using redis_set_live [OF assms(1), of t2 t3 60] assms(7) t
    by (simp add: resolve_write_def identity_cache_ttl_s_def)
  ultimately show "let old = snd (resolve_read R t1 (vendor_string v) u (d, r));
             r3 = resolve_write R t2 (vendor_string v) u old r2
         in lookup_identity v u d2 = Some c2
            \<and> fst (resolveCanonicalUserId R t3 (vendor_string v) u (d2, r3)) = Some c1"
    using link_Inr(1) [OF k, of v u] assms(8) by (simp add: resolveCanonicalUserId_def resolve_read_def)
qed

theorem identity_stale_reads_witness:
  "\<exists>row d2 r2. linkIdentity map_redis 0 Trackpro ''p7'' ''c2'' ''api'' (linked_db, \<lambda>k. None) = Inr (row, (d2, r2))
     \<and> fst (resolveCanonicalUserId map_redis 59999 ''trackpro'' ''p7''
            (d2, resolve_write map_redis 0 ''trackpro'' ''p7''
                   (snd (resolve_read map_redis 0 ''trackpro'' ''p7'' (linked_db, \<lambda>k. None))) r2)) = Some ''c1''"
proof -
  obtain row d2 r2 where l:
    "linkIdentity map_redis 0 Trackpro ''p7'' ''c2'' ''api'' (linked_db, \<lambda>k. None) = Inr (row, (d2, r2))"
    using relinked by blast
  moreover have "\<forall>row d2 r2. linkIdentity map_redis 0 Trackpro ''p7'' ''c2'' ''api'' (linked_db, \<lambda>k. None) = Inr (row, (d2, r2)) \<longrightarrow>
     fst (resolveCanonicalUserId map_redis 59999 ''trackpro'' ''p7''
            (d2, resolve_write map_redis 0 ''trackpro'' ''p7''
                   (snd (resolve_read map_redis 0 ''trackpro'' ''p7'' (linked_db, \<lambda>k. None))) r2)) = Some ''c1''"
    using identity_stale_reads
      [of map_redis Trackpro "''p7''" linked_db "''c1''" "''c2''" 0 "\<lambda>k. None" 0 59999 "''api''",
       OF map_redis_ok linked_db(2)]
    by (simp add: map_redis_empty Let_def vendor_string_def)
  ultimately show ?thesis by blast
qed

end
