(* ===== verification/Redaction.thy ===== *)
theory Redaction
  imports Js_Value
begin

text \<open>
  \<open>shared/pii-redact.ts\<close>: what of a rejected payload is kept. \<open>JSON.stringify\<close> is modelled on the
  values of this development; the digits it prints for a number are a parameter, on which no
  lemma depends.
\<close>

section \<open>JSON text\<close>

definition hex_char :: "nat \<Rightarrow> char" where
  "hex_char n = ''0123456789abcdef'' ! (n mod 16)"

definition json_escape :: "char \<Rightarrow> js_string" where
  "json_escape c =
     (if c = CHR 0x22 then [CHR 0x5C, CHR 0x22]
      else if c = CHR 0x5C then [CHR 0x5C, CHR 0x5C]
      else if c = CHR 0x08 then [CHR 0x5C, CHR ''b'']
      else if c = CHR 0x09 then [CHR 0x5C, CHR ''t'']
      else if c = CHR 0x0A then [CHR 0x5C, CHR ''n'']
      else if c = CHR 0x0C then [CHR 0x5C, CHR ''f'']
      else if c = CHR 0x0D then [CHR 0x5C, CHR ''r'']
      else if (of_char c :: nat) < 32
      then CHR 0x5C # ''u00'' @ [hex_char (of_char c div 16), hex_char (of_char c)]
      else [c])"

definition json_quote :: "js_string \<Rightarrow> js_string" where
  "json_quote s = CHR 0x22 # concat (map json_escape s) @ [CHR 0x22]"

text \<open>\<open>JSON.parse(JSON.stringify(v))\<close>: undefined members disappear, undefined elements become
  \<open>null\<close>.\<close>

fun json_clone :: "jsval \<Rightarrow> jsval" where
  "json_clone (JArr vs) = JArr (map (\<lambda>v. if v = JUndefined then JNull else json_clone v) vs)"
| "json_clone (JObj kvs) = JObj (map (\<lambda>(k, v). (k, json_clone v)) (filter (\<lambda>(k, v). v \<noteq> JUndefined) kvs))"
| "json_clone v = v"

text \<open>\<open>JSON.stringify\<close> of a value that is not undefined.\<close>

fun json_text :: "(number \<Rightarrow> js_string) \<Rightarrow> jsval \<Rightarrow> js_string" where
  "json_text num JUndefined = ''null''"
| "json_text num JNull = ''null''"
| "json_text num (JBool b) = (if b then ''true'' else ''false'')"
| "json_text num (JNum x) = num x"
| "json_text num (JStr s) = json_quote s"
| "json_text num (JArr vs) = ''['' @ join '','' (map (json_text num) vs) @ '']''"
| "json_text num (JObj kvs) =
     ''{'' @ join '','' (map (\<lambda>(k, v). json_quote k @ '':'' @ json_text num v) kvs) @ ''}''"

section \<open>Deleting a path\<close>

text \<open>The path \<open>a.b.c\<close> as its parts. A step into anything but an object ends the search: an array
  has none of the names in the block list.\<close>

fun deleteNestedPath :: "js_string list \<Rightarrow> jsval \<Rightarrow> jsval" where
  "deleteNestedPath [] v = v"
| "deleteNestedPath [k] v =
     (case v of JObj kvs \<Rightarrow> JObj (filter (\<lambda>(k', x). k' \<noteq> k) kvs) | _ \<Rightarrow> v)"
| "deleteNestedPath (k # p # ps) v =
     (case v of
        JObj kvs \<Rightarrow> JObj (map (\<lambda>(k', x). (k', if k' = k then deleteNestedPath (p # ps) x else x)) kvs)
      | _ \<Rightarrow> v)"

definition BLOCKED_PATHS :: "js_string list list" where
  "BLOCKED_PATHS =
     [[''player'', ''email''], [''envelope'', ''player'', ''email''], [''user_token''],
      [''data'', ''user_token'']]"

section \<open>The e-mail pattern\<close>

definition is_letter :: "char \<Rightarrow> bool" where
  "is_letter c \<longleftrightarrow> is_upper c \<or> is_lower c"

text \<open>\<open>[a-zA-Z0-9._%+-]\<close> and \<open>[a-zA-Z0-9.-]\<close>.\<close>

definition local_char :: "char \<Rightarrow> bool" where
  "local_char c \<longleftrightarrow> is_letter c \<or> is_digit c \<or> c \<in> set ''._%+-''"

definition domain_char :: "char \<Rightarrow> bool" where
  "domain_char c \<longleftrightarrow> is_letter c \<or> is_digit c \<or> c \<in> set ''.-''"

text \<open>Where a dot and a top-level domain of two letters or more can begin in the text after the at
  sign: within the run of domain characters, after at least one of them.\<close>

definition dot_at :: "js_string \<Rightarrow> nat \<Rightarrow> bool" where
  "dot_at s p \<longleftrightarrow>
     1 \<le> p \<and> p + 2 < length s \<and> list_all domain_char (take p s)
     \<and> s ! p = CHR ''.'' \<and> is_letter (s ! (p + 1)) \<and> is_letter (s ! (p + 2))"

text \<open>A match of the pattern at the start of a text, as the text behind it. The greedy classes make
  the engine take the whole run of local characters, the last possible dot and all letters behind
  it.\<close>

definition email_match :: "js_string \<Rightarrow> js_string option" where
  "email_match s =
     (case dropWhile local_char s of
        c # r \<Rightarrow>
          if takeWhile local_char s \<noteq> [] \<and> c = CHR ''@'' then
            (case filter (dot_at r) (rev [0..<length r]) of
               p # _ \<Rightarrow> Some (dropWhile is_letter (drop (p + 1) r))
             | [] \<Rightarrow> None)
          else None
      | [] \<Rightarrow> None)"

lemma email_match_shorter: "email_match s = Some r \<Longrightarrow> length r < length s"
proof -
  have d: "length (dropWhile P xs) \<le> length xs" for P and xs :: js_string
    by (rule length_dropWhile_le)
  have "length (dropWhile is_letter (drop (p + 1) r')) < length s" if "dropWhile local_char s = c # r'" for p c r'
    using d [of is_letter "drop (p + 1) r'"] d [of local_char s] that by simp
  then show "email_match s = Some r \<Longrightarrow> length r < length s"
    by (auto simp: email_match_def split: list.splits if_splits)
qed

text \<open>\<open>json.replace(EMAIL_REGEX, "[REDACTED]")\<close>.\<close>

function redact_emails :: "js_string \<Rightarrow> js_string" where
  "redact_emails s =
     (case email_match s of
        Some rest \<Rightarrow> ''[REDACTED]'' @ redact_emails rest
      | None \<Rightarrow> (case s of [] \<Rightarrow> [] | c # cs \<Rightarrow> c # redact_emails cs))"
  by auto
termination
  by (relation "measure length") (auto simp: email_match_shorter)

declare redact_emails.simps [simp del]

text \<open>\<open>JSON.stringify(undefined)\<close> is no text, and parsing it throws: \<open>None\<close>.\<close>

definition redactPii :: "(number \<Rightarrow> js_string) \<Rightarrow> jsval \<Rightarrow> js_string option" where
  "redactPii num payload =
     (if payload = JUndefined then None
      else
        let clone = fold deleteNestedPath BLOCKED_PATHS (json_clone payload)
        in Some (redact_emails (json_text num clone)))"

section \<open>No address survives\<close>

text \<open>Some position of the text starts an address.\<close>

fun has_email :: "js_string \<Rightarrow> bool" where
  "has_email [] = False"
| "has_email (c # s) = (email_match (c # s) \<noteq> None \<or> has_email s)"

text \<open>Whether there is a match: a run of local characters, an at sign, and a place for the dot.\<close>

lemma email_match_iff:
  "email_match s \<noteq> None \<longleftrightarrow>
     (\<exists>l r p. s = l @ CHR ''@'' # r \<and> l \<noteq> [] \<and> list_all local_char l \<and> dot_at r p)"
  (is "?m \<longleftrightarrow> ?e")
proof
  have dot: "(\<exists>p. dot_at r p) \<longleftrightarrow> filter (dot_at r) (rev [0..<length r]) \<noteq> []" for r
    by (auto simp: filter_empty_conv dot_at_def)
  show "?e" if ?m
  proof -
    from that obtain r where r: "dropWhile local_char s = CHR ''@'' # r" "takeWhile local_char s \<noteq> []"
      "filter (dot_at r) (rev [0..<length r]) \<noteq> []"
      by (auto simp: email_match_def split: list.splits if_splits)
    then obtain p where "dot_at r p" using dot by blast
    moreover have "s = takeWhile local_char s @ CHR ''@'' # r" using r(1) by (metis takeWhile_dropWhile_id)
    moreover have "list_all local_char (takeWhile local_char s)"
      by (auto simp: list_all_iff dest: set_takeWhileD)
    ultimately show ?e using r(2) by blast
  qed
  show ?m if ?e
  proof -
    from that obtain l r p where e: "s = l @ CHR ''@'' # r" "l \<noteq> []" "list_all local_char l" "dot_at r p" by blast
    have at: "\<not> local_char (CHR ''@'')" by (simp add: local_char_def is_letter_def is_upper_def is_lower_def is_digit_def less_eq_char_nat)
    have "takeWhile local_char s = l" "dropWhile local_char s = CHR ''@'' # r"
      using e at by (simp_all add: e(1) list_all_iff takeWhile_append dropWhile_append)
    moreover have "filter (dot_at r) (rev [0..<length r]) \<noteq> []" using e(4) dot by blast
    ultimately show ?m using e(2) by (auto simp: email_match_def split: list.splits)
  qed
qed


lemma email_match_Nil [simp]: "email_match [] = None"
  by (simp add: email_match_def)

lemma dot_at_prefix:
  assumes "dot_at r p"
  shows "dot_at (take (p + 3) r @ v) p" and "c \<in> set (take (p + 3) r) \<Longrightarrow> domain_char c"
proof -
  have len: "p + 2 < length r" using assms by (simp add: dot_at_def)
  show "dot_at (take (p + 3) r @ v) p"
    using assms len by (simp add: dot_at_def nth_append)
  have "take (p + 3) r = take p r @ [r ! p, r ! (p + 1), r ! (p + 2)]"
    using len take_Suc_conv_app_nth [of p r] take_Suc_conv_app_nth [of "p + 1" r]
      take_Suc_conv_app_nth [of "p + 2" r] by (simp add: numeral_3_eq_3)
  moreover have "domain_char (r ! p)" "domain_char (r ! (p + 1))" "domain_char (r ! (p + 2))"
    using assms by (simp_all add: dot_at_def domain_char_def)
  ultimately show "domain_char c" if "c \<in> set (take (p + 3) r)"
    using that assms by (auto simp: dot_at_def list_all_iff)
qed

lemma bracket_chars: "\<not> local_char (CHR ''['')" "\<not> domain_char (CHR ''['')" "\<not> local_char (CHR '']'')"
  by (simp_all add: local_char_def domain_char_def is_letter_def is_upper_def is_lower_def is_digit_def
      less_eq_char_nat)

text \<open>What precedes the first bracket of the output is copied from the input.\<close>

lemma redact_copies:
  "redact_emails s = u @ w \<Longrightarrow> CHR ''['' \<notin> set u \<Longrightarrow> \<exists>v. s = u @ v"
proof (induction u arbitrary: s)
  case (Cons c u)
  show ?case
  proof (cases "email_match s")
    case (Some rest)
    then show ?thesis using Cons.prems by (auto simp: redact_emails.simps [of s])
  next
    case None
    then obtain cs where "s = c # cs" "redact_emails cs = u @ w"
      using Cons.prems(1) by (auto simp: redact_emails.simps [of s] split: list.splits)
    then show ?thesis using Cons.IH [of cs] Cons.prems(2) by auto
  qed
qed simp

lemma bracket_no_match:
  assumes "CHR ''@'' \<notin> set u"
  shows "email_match (u @ CHR '']'' # t) = None"
proof (cases "\<exists>x \<in> set u. \<not> local_char x")
  case True
  then have "dropWhile local_char (u @ CHR '']'' # t) = dropWhile local_char u @ CHR '']'' # t"
    by (metis dropWhile_append1)
  moreover obtain c v where c: "dropWhile local_char u = c # v" using True
    by (metis dropWhile_eq_Nil_conv neq_Nil_conv)
  moreover have "c \<noteq> CHR ''@''" using assms c by (metis list.set_intros(1) set_dropWhileD)
  ultimately show ?thesis by (simp add: email_match_def)
next
  case False
  then show ?thesis using bracket_chars by (simp add: email_match_def dropWhile_append2)
qed

lemma marker_no_email: "CHR ''@'' \<notin> set u \<Longrightarrow> has_email (u @ CHR '']'' # s) \<longleftrightarrow> has_email s"
proof (induction u)
  case Nil
  then show ?case using bracket_no_match [of "[]" s] by simp
next
  case (Cons c u)
  then show ?case using bracket_no_match [of "c # u" s] by simp
qed

lemma redacted_no_email: "\<not> has_email (redact_emails s)"
proof (induction s rule: redact_emails.induct)
  case (1 s)
  show ?case
  proof (cases "email_match s")
    case (Some rest)
    have "\<not> has_email (redact_emails rest)" using 1(2) Some by simp
    moreover have "redact_emails s = ''[REDACTED'' @ CHR '']'' # redact_emails rest"
      by (simp add: redact_emails.simps [of s] Some)
    ultimately show ?thesis using marker_no_email [of "''[REDACTED''" "redact_emails rest"] by simp
  next
    case None
    show ?thesis
    proof (cases s)
      case Nil
      then show ?thesis by (simp add: redact_emails.simps [of "[]"])
    next
      case (Cons c cs)
      have "email_match (c # redact_emails cs) = None"
      proof (rule ccontr)
        assume "\<not> ?thesis"
        then obtain l r p where e: "c # redact_emails cs = l @ CHR ''@'' # r" "l \<noteq> []" "list_all local_char l"
          "dot_at r p"
          using email_match_iff by blast
        let ?u = "tl l @ CHR ''@'' # take (p + 3) r"
        have l: "l = c # tl l" using e(1,2) by (cases l) auto
        then have "redact_emails cs = ?u @ drop (p + 3) r" using e(1)
          by (metis append_Cons append_assoc append_take_drop_id list.inject)
        moreover have "CHR ''['' \<notin> set ?u"
          using e(2,3) l dot_at_prefix(2) [OF e(4)] bracket_chars
          by (auto simp: list_all_iff dest: list.set_sel(2))
        ultimately obtain v where "cs = ?u @ v" using redact_copies by blast
        then have "c # cs = l @ CHR ''@'' # (take (p + 3) r @ v)" using l
          by (metis append_Cons append_assoc)
        then have "email_match (c # cs) \<noteq> None"
          using e(2,3) dot_at_prefix(1) [OF e(4), of v] email_match_iff by blast
        then show False using None Cons by simp
      qed
      then show ?thesis using 1(1) None Cons by (simp add: redact_emails.simps [of "c # cs"])
    qed
  qed
qed

lemma redact_clean: "\<not> has_email s \<Longrightarrow> redact_emails s = s"
proof (induction s)
  case (Cons c s)
  then show ?case by (simp add: redact_emails.simps [of "c # s"])
qed (simp add: redact_emails.simps)

section \<open>No blocked path survives\<close>

text \<open>The value a path leads to through objects.\<close>

fun path_value :: "js_string list \<Rightarrow> jsval \<Rightarrow> jsval" where
  "path_value [] v = v"
| "path_value (k # ps) v = (case v of JObj kvs \<Rightarrow> path_value ps (get kvs k) | _ \<Rightarrow> JUndefined)"

lemma path_value_undefined [simp]: "ps \<noteq> [] \<Longrightarrow> path_value ps JUndefined = JUndefined"
  by (cases ps) auto

lemma get_filter_other: "get (filter (\<lambda>(k', x). k' \<noteq> k) kvs) k' = (if k' = k then JUndefined else get kvs k')"
  by (induction kvs) auto

lemma get_map_at: "get (map (\<lambda>(k', x). (k', if k' = k then f x else x)) kvs) k'
    = (if k' = k \<and> has_key kvs k then f (get kvs k) else get kvs k')"
  by (induction kvs) auto

lemma deleted_path: "ps \<noteq> [] \<Longrightarrow> path_value ps (deleteNestedPath ps v) = JUndefined"
proof (induction ps arbitrary: v)
  case (Cons k qs)
  show ?case
  proof (cases qs)
    case Nil
    then show ?thesis by (auto simp: get_filter_other split: jsval.splits)
  next
    case (Cons q rs)
    note del = Cons.IH [unfolded Cons]
    show ?thesis
    proof (cases v)
      case (JObj kvs)
      have step: "path_value (k # ps) (JObj kvs') = path_value ps (get kvs' k)" for ps kvs' by simp
      show ?thesis
        unfolding JObj Cons deleteNestedPath.simps jsval.case step get_map_at
        using del by (simp add: get_no_key del: path_value.simps(2) deleteNestedPath.simps)
    qed (simp_all add: Cons)
  qed
qed simp

text \<open>Deleting one path never brings back what another led to.\<close>

lemma path_value_delete:
  "path_value qs v = JUndefined \<Longrightarrow> qs \<noteq> [] \<Longrightarrow> path_value qs (deleteNestedPath ps v) = JUndefined"
proof (induction ps arbitrary: qs v)
  case (Cons k ps)
  obtain q qs' where q: "qs = q # qs'" using Cons.prems(2) by (cases qs) auto
  show ?case
  proof (cases ps)
    case Nil
    then show ?thesis using Cons.prems(1)
      by (cases v; cases "q = k"; cases qs') (auto simp: q get_filter_other)
  next
    case ps: (Cons p rs)
    show ?thesis
    proof (cases v)
      case (JObj kvs)
      have IH: "path_value qs' (deleteNestedPath ps x) = JUndefined"
        if "path_value qs' x = JUndefined" "x = JUndefined \<or> qs' \<noteq> []" for x
      proof (cases "qs' = []")
        case True
        then show ?thesis using that by (cases rs) (simp_all add: ps)
      next
        case False
        then show ?thesis using that Cons.IH [of qs' x] by simp
      qed
      have "path_value qs' (get kvs q) = JUndefined" using Cons.prems(1) by (simp add: q JObj)
      then show ?thesis
        using IH [of "get kvs k"] by (cases qs') (auto simp: q JObj ps get_map_at)
    qed (use Cons.prems in \<open>simp_all add: ps\<close>)
  qed
qed simp


section \<open>Properties\<close>

text \<open>C34: What is written to the failure log holds no e-mail address, wherever in the payload or in a
  key one stood, and none of the blocked fields: every blocked path of the value that is
  serialised leads to nothing. A text without addresses passes unchanged, so redacting twice is
  redacting once. Only an undefined payload cannot be redacted.\<close>

theorem redactPii_safe:
  "case redactPii num payload of
     None \<Rightarrow> payload = JUndefined
   | Some body \<Rightarrow>
       payload \<noteq> JUndefined
       \<and> \<not> has_email body \<and> redact_emails body = body
       \<and> (\<exists>v. body = redact_emails (json_text num v)
             \<and> (\<forall>ps \<in> set BLOCKED_PATHS. path_value ps v = JUndefined))"
proof -
  let ?v = "fold deleteNestedPath BLOCKED_PATHS (json_clone payload)"
  have "\<forall>ps \<in> set BLOCKED_PATHS. path_value ps ?v = JUndefined"
    by (simp add: BLOCKED_PATHS_def deleted_path path_value_delete
        del: path_value.simps deleteNestedPath.simps)
  then show ?thesis
    using redacted_no_email redact_clean by (auto simp: redactPii_def Let_def)
qed

theorem redactPii_safe_witness:
  "\<exists>body. redactPii (\<lambda>x. ''0'') (JObj [(''note'', JStr ''mail bob@example.com now''), (''user_token'', JStr ''x'')])
      = Some body \<and> \<not> has_email body"
  using redactPii_safe [where num = "\<lambda>x. ''0''"
      and payload = "JObj [(''note'', JStr ''mail bob@example.com now''), (''user_token'', JStr ''x'')]"]
  by (simp split: option.splits)

lemma redactPii_example:
  "redactPii (\<lambda>x. ''0'') (JObj [(''note'', JStr ''mail bob@example.com now''), (''user_token'', JStr ''x'')])
   = Some (CHR 0x7B # CHR 0x22 # ''note'' @ CHR 0x22 # CHR 0x3A # CHR 0x22 # ''mail [REDACTED] now''
           @ [CHR 0x22, CHR 0x7D])"
  by code_simp

end
