(* ===== verification/Outbox.thy ===== *)
theory Outbox
  imports Database "HOL-Library.Multiset"
begin

text \<open>
  \<open>ingestion/outbox-publisher.service.ts\<close>: one poll cycle of the transactional outbox. The listeners
  of the event emitter are a parameter: a function of the event that may change a state of any
  type and that returns normally or throws. The rows other replicas hold locks on, and whether the
  delete commits, are arguments, so that the lemmas cover every schedule.
\<close>

section \<open>One cycle\<close>

definition BATCH_SIZE :: nat where
  "BATCH_SIZE = 100"

type_synonym 'e listener = "NormalisedShot \<Rightarrow> 'e \<Rightarrow> bool \<times> 'e"

text \<open>\<open>{ ...row.payload, raw_payload: {} }\<close>.\<close>

definition event_of :: "OutboxRow \<Rightarrow> NormalisedShot" where
  "event_of row = ShotCore.extend (ob_payload row) (NormalisedShot.fields (JObj []))"

text \<open>\<open>ORDER BY created_at LIMIT 100 FOR UPDATE SKIP LOCKED\<close>.\<close>

definition claim :: "nat set \<Rightarrow> Db \<Rightarrow> OutboxRow list" where
  "claim locked d =
     take BATCH_SIZE (filter (\<lambda>r. ob_id r \<notin> locked) (sort_key ob_created_at (outbox_events d)))"

text \<open>The loop over the batch: the ids of the rows to delete, and the listeners' state.\<close>

fun publish_rows :: "'e listener \<Rightarrow> OutboxRow list \<Rightarrow> 'e \<Rightarrow> nat list \<times> 'e" where
  "publish_rows emit [] e = ([], e)"
| "publish_rows emit (row # rows) e =
     (if ob_event_type row = ''shot.persisted'' then
        (case emit (event_of row) e of
           (True, e') \<Rightarrow> (let (ids, e'') = publish_rows emit rows e' in (ob_id row # ids, e''))
         | (False, e') \<Rightarrow> publish_rows emit rows e')
      else (let (ids, e'') = publish_rows emit rows e in (ob_id row # ids, e'')))"

definition publishPending ::
    "'e listener \<Rightarrow> nat set \<Rightarrow> bool \<Rightarrow> Db \<times> 'e \<Rightarrow> exn option \<times> (Db \<times> 'e)" where
  "publishPending emit locked commits = (\<lambda>(d, e).
     (let rows = claim locked d in
      if rows = [] then (None, (d, e))
      else
        let (successfulIds, e') = publish_rows emit rows e in
        if successfulIds = [] then (None, (d, e'))
        else if commits
        then (None, (d\<lparr>outbox_events := filter (\<lambda>r. ob_id r \<notin> set successfulIds) (outbox_events d)\<rparr>, e'))
        else (Some DbError, (d, e'))))"

text \<open>The call in \<open>onModuleInit\<close> is not awaited and has no \<open>catch\<close>: its rejection is nobody's. The
  calls of the interval log theirs.\<close>

definition onModuleInit :: "'e listener \<Rightarrow> nat set \<Rightarrow> bool \<Rightarrow> Db \<times> 'e \<Rightarrow> exn option \<times> (Db \<times> 'e)" where
  "onModuleInit emit locked commits s = publishPending emit locked commits s"

definition poll :: "'e listener \<Rightarrow> nat set \<Rightarrow> bool \<Rightarrow> Db \<times> 'e \<Rightarrow> Db \<times> 'e" where
  "poll emit locked commits s = snd (publishPending emit locked commits s)"

section \<open>Lemmas\<close>

lemma claim_set: "r \<in> set (claim locked d) \<Longrightarrow> r \<in> set (outbox_events d) \<and> ob_id r \<notin> locked"
  by (auto simp: claim_def dest: in_set_takeD)

lemma claim_Nil: "claim {} d = [] \<longleftrightarrow> outbox_events d = []"
proof -
  have "sort_key ob_created_at (outbox_events d) = [] \<longleftrightarrow> outbox_events d = []"
    by (metis set_empty set_sort)
  then show ?thesis by (simp add: claim_def BATCH_SIZE_def)
qed

lemma sort_key_ids: "distinct (map ob_id rows) \<Longrightarrow> distinct (map ob_id (sort_key f rows))"
proof -
  have "mset (map ob_id (sort_key f rows)) = mset (map ob_id rows)" by simp
  then show "distinct (map ob_id rows) \<Longrightarrow> distinct (map ob_id (sort_key f rows))"
    by (metis mset_eq_imp_distinct_iff)
qed

text \<open>A row is published when its listener returns normally, or when its type is unknown.\<close>

lemma publish_rows_published:
  "publish_rows emit rows e = (ids, e') \<Longrightarrow> i \<in> set ids \<Longrightarrow>
     \<exists>r \<in> set rows. ob_id r = i
       \<and> (ob_event_type r \<noteq> ''shot.persisted'' \<or> (\<exists>e1. fst (emit (event_of r) e1)))"
proof (induction rows arbitrary: e ids e')
  case (Cons row rows)
  show ?case
  proof (cases "ob_event_type row = ''shot.persisted''")
    case True
    obtain ok e1 where em: "emit (event_of row) e = (ok, e1)" by fastforce
    obtain ids2 e2 where r: "publish_rows emit rows e1 = (ids2, e2)" by fastforce
    have "i \<in> set ids2 \<or> ok \<and> i = ob_id row"
      using Cons.prems True em r by (cases ok) auto
    then show ?thesis using Cons.IH [OF r] em by (metis fst_conv list.set_intros(1,2))
  next
    case False
    obtain ids2 e2 where r: "publish_rows emit rows e = (ids2, e2)" by fastforce
    then show ?thesis using Cons.prems False Cons.IH [OF r] by auto
  qed
qed simp

lemma publish_rows_all:
  "(\<And>r e. r \<in> set rows \<Longrightarrow> fst (emit (event_of r) e)) \<Longrightarrow> fst (publish_rows emit rows e) = map ob_id rows"
proof (induction rows arbitrary: e)
  case (Cons row rows)
  obtain ok e1 where em: "emit (event_of row) e = (ok, e1)" by fastforce
  have "ok" using Cons.prems [of row e] em by simp
  then show ?case using Cons em by (auto split: prod.splits) (metis fst_conv)+
qed simp

lemma publish_rows_none:
  "(\<And>r e. r \<in> set rows \<Longrightarrow> ob_event_type r = ''shot.persisted'' \<and> \<not> fst (emit (event_of r) e)) \<Longrightarrow>
     fst (publish_rows emit rows e) = []"
proof (induction rows arbitrary: e)
  case (Cons row rows)
  obtain ok e1 where em: "emit (event_of row) e = (ok, e1)" by fastforce
  have "\<not> ok" "ob_event_type row = ''shot.persisted''" using Cons.prems [of row e] em by auto
  then show ?case using Cons em by simp
qed simp

lemma publish_cases:
  "publishPending emit locked commits (d, e) =
     (let (ids, e') = publish_rows emit (claim locked d) e;
          d' = d\<lparr>outbox_events := filter (\<lambda>r. ob_id r \<notin> set ids) (outbox_events d)\<rparr>
      in if ids \<noteq> [] \<and> \<not> commits then (Some DbError, (d, e')) else (None, (d', e')))"
  by (auto simp: publishPending_def Let_def split: prod.splits)

lemma publish_frame:
  assumes "publishPending emit locked commits (d, e) = (err, (d', e'))"
  shows "d' = d\<lparr>outbox_events := outbox_events d'\<rparr>"
    and "\<exists>p. outbox_events d' = filter p (outbox_events d)"
proof -
  obtain ids e1 where p: "publish_rows emit (claim locked d) e = (ids, e1)" by fastforce
  have "d' = d \<or> d' = d\<lparr>outbox_events := filter (\<lambda>r. ob_id r \<notin> set ids) (outbox_events d)\<rparr>"
    using assms p by (auto simp: publish_cases Let_def split: if_splits)
  then show "d' = d\<lparr>outbox_events := outbox_events d'\<rparr>" "\<exists>p. outbox_events d' = filter p (outbox_events d)"
    by (auto intro: exI [of _ "\<lambda>r. True"])
qed

lemma publish_inv:
  assumes "db_inv d \<and> outbox_inv d" and "publishPending emit locked commits (d, e) = (err, (d', e'))"
  shows "db_inv d' \<and> outbox_inv d'"
proof -
  obtain p where p: "outbox_events d' = filter p (outbox_events d)" using publish_frame(2) [OF assms(2)] by blast
  have d': "d' = d\<lparr>outbox_events := filter p (outbox_events d)\<rparr>" using publish_frame(1) [OF assms(2)] p by simp
  show ?thesis using assms(1) unfolding d' by (simp add: db_inv_def outbox_inv_def distinct_map_filter)
qed

text \<open>With no lock and nothing failing, a cycle removes the oldest hundred rows.\<close>

lemma poll_drains:
  assumes "distinct (map ob_id (outbox_events d))" and "\<And>s e. fst (emit s e)"
  shows "length (outbox_events (fst (poll emit {} True (d, e)))) = length (outbox_events d) - 100"
    and "distinct (map ob_id (outbox_events (fst (poll emit {} True (d, e)))))"
proof -
  let ?rows = "claim {} d"
  have ids: "fst (publish_rows emit ?rows e) = map ob_id ?rows" using assms(2) by (intro publish_rows_all)
  have d': "outbox_events (fst (poll emit {} True (d, e)))
            = filter (\<lambda>r. ob_id r \<notin> set (map ob_id ?rows)) (outbox_events d)"
    using ids by (auto simp: poll_def publish_cases Let_def split: prod.splits)
  show "distinct (map ob_id (outbox_events (fst (poll emit {} True (d, e)))))"
    using assms(1) by (simp add: d' distinct_map_filter)
  let ?s = "sort_key ob_created_at (outbox_events d)"
  have s: "?rows = take 100 ?s" by (simp add: claim_def BATCH_SIZE_def)
  have dist: "distinct (map ob_id ?s)" using assms(1) by (rule sort_key_ids)
  have "mset (filter (\<lambda>r. ob_id r \<notin> set (map ob_id ?rows)) (outbox_events d))
        = mset (filter (\<lambda>r. ob_id r \<notin> set (map ob_id ?rows)) ?s)"
    by (simp add: mset_filter)
  then have "length (outbox_events (fst (poll emit {} True (d, e))))
             = length (filter (\<lambda>r. ob_id r \<notin> set (map ob_id ?rows)) ?s)"
    unfolding d' by (metis size_mset)
  also have "filter (\<lambda>r. ob_id r \<notin> set (map ob_id ?rows)) ?s = drop 100 ?s"
  proof -
    have "distinct (map ob_id (take 100 ?s @ drop 100 ?s))" using dist by simp
    then have "set (map ob_id (take 100 ?s)) \<inter> set (map ob_id (drop 100 ?s)) = {}"
      unfolding map_append distinct_append by blast
    then have "filter (\<lambda>r. ob_id r \<notin> set (map ob_id (take 100 ?s))) (take 100 ?s @ drop 100 ?s) = drop 100 ?s"
      unfolding filter_append by (auto simp: filter_empty_conv filter_id_conv)
    then show ?thesis unfolding s append_take_drop_id .
  qed
  finally show "length (outbox_events (fst (poll emit {} True (d, e)))) = length (outbox_events d) - 100" by simp
qed


text \<open>A listener that writes down the events it is given, and then throws or not.\<close>

definition recorder :: "(NormalisedShot \<Rightarrow> NormalisedShot list \<Rightarrow> bool) \<Rightarrow> NormalisedShot list listener" where
  "recorder ok s evs = (ok s evs, evs @ [s])"

lemma recorder_log:
  "snd (publish_rows (recorder ok) rows evs)
   = evs @ map event_of (filter (\<lambda>r. ob_event_type r = ''shot.persisted'') rows)"
proof (induction rows arbitrary: evs)
  case (Cons row rows)
  show ?case
    using Cons [of "evs @ [event_of row]"] Cons [of evs]
    by (cases "ok (event_of row) evs") (auto simp: recorder_def split: prod.splits)
qed simp

section \<open>Properties\<close>

text \<open>C11: At-least-once delivery. One cycle hands every claimed event to the listeners, in the order of
  creation, and a row disappears only when the transaction commits, no other replica had locked
  it, and its listener returned normally (or its type is unknown, and it is dropped). When the
  transaction fails, every row is still there and will be published again. Nothing else changes.\<close>

theorem outbox_at_least_once:
  assumes "db_inv d" and "publishPending (recorder ok) locked commits (d, evs) = (err, (d', evs'))"
  shows "evs' = evs @ map event_of (filter (\<lambda>r. ob_event_type r = ''shot.persisted'') (claim locked d))
         \<and> sorted (map ob_created_at (claim locked d))
         \<and> (err \<noteq> None \<longrightarrow> d' = d)
         \<and> d' = d\<lparr>outbox_events := outbox_events d'\<rparr>
         \<and> (\<forall>r \<in> set (outbox_events d). r \<in> set (outbox_events d') \<or>
              (commits \<and> ob_id r \<notin> locked \<and> r \<in> set (claim locked d)
               \<and> (ob_event_type r \<noteq> ''shot.persisted''
                  \<or> event_of r \<in> set evs' \<and> (\<exists>l. ok (event_of r) l))))"
proof -
  obtain ids e1 where p: "publish_rows (recorder ok) (claim locked d) evs = (ids, e1)" by fastforce
  have evs': "evs' = e1" and d': "d' = (if ids \<noteq> [] \<and> \<not> commits then d
      else d\<lparr>outbox_events := filter (\<lambda>r. ob_id r \<notin> set ids) (outbox_events d)\<rparr>)"
    and err: "err \<noteq> None \<longrightarrow> d' = d"
    using assms(2) p by (auto simp: publish_cases Let_def split: if_splits)
  have log: "evs' = evs @ map event_of (filter (\<lambda>r. ob_event_type r = ''shot.persisted'') (claim locked d))"
    using recorder_log [of ok "claim locked d" evs] p by (simp add: evs')
  have removed: "commits \<and> ob_id r \<notin> locked \<and> r \<in> set (claim locked d)
        \<and> (ob_event_type r \<noteq> ''shot.persisted'' \<or> event_of r \<in> set evs' \<and> (\<exists>l. ok (event_of r) l))"
    if r: "r \<in> set (outbox_events d)" "r \<notin> set (outbox_events d')" for r
  proof -
    have "ob_id r \<in> set ids" "commits" using r by (auto simp: d' split: if_splits)
    then obtain q where q: "q \<in> set (claim locked d)" "ob_id q = ob_id r"
      "ob_event_type q \<noteq> ''shot.persisted'' \<or> (\<exists>l. fst (recorder ok (event_of q) l))"
      using publish_rows_published [OF p] by blast
    then have "q = r" using assms(1) r(1) claim_set by (metis db_inv_def distinct_map inj_onD)
    then show ?thesis using q \<open>commits\<close> claim_set log by (auto simp: recorder_def)
  qed
  have "sorted (map ob_created_at (claim locked d))"
    unfolding claim_def by (metis sorted_filter sorted_sort_key sorted_wrt_take take_map)
  then show ?thesis using log err publish_frame(1) [OF assms(2)] removed by blast
qed

text \<open>Two pending events.\<close>

definition pending_db :: Db where
  "pending_db = empty_db\<lparr>outbox_events :=
     [\<lparr>ob_id = 1, ob_event_type = ''shot.persisted'',
       ob_payload = ShotCore.truncate sample_normalised, ob_created_at = 5\<rparr>,
      \<lparr>ob_id = 0, ob_event_type = ''shot.deleted'',
       ob_payload = ShotCore.truncate sample_normalised, ob_created_at = 3\<rparr>], outbox_seq := 2\<rparr>"

lemma pending_db: "db_inv pending_db"
  by (auto simp: db_inv_def pending_db_def empty_db_def)

theorem outbox_at_least_once_witness:
  "\<exists>err d' evs'. publishPending (recorder (\<lambda>s l. False)) {} True (pending_db, []) = (err, (d', evs'))
     \<and> map ob_id (outbox_events pending_db) = [1, 0]
     \<and> (\<forall>r \<in> set (outbox_events pending_db). ob_event_type r = ''shot.persisted'' \<longrightarrow> r \<in> set (outbox_events d'))"
proof -
  obtain err d' evs' where
    p: "publishPending (recorder (\<lambda>s l. False)) {} True (pending_db, []) = (err, (d', evs'))"
    by (metis surj_pair)
  with outbox_at_least_once [OF pending_db p] show ?thesis by (auto simp: pending_db_def)
qed

text \<open>C38: Without failures a backlog is published: after \<open>n\<close> cycles it is shorter by \<open>100 * n\<close>, so
  any backlog is empty after finitely many.\<close>

theorem outbox_drains:
  assumes "db_inv d" and "\<And>s e. fst (emit s e)"
  shows "length (outbox_events (fst ((poll emit {} True ^^ n) (d, e)))) = length (outbox_events d) - BATCH_SIZE * n"
proof -
  have "length (outbox_events (fst ((poll emit {} True ^^ n) (d, e)))) = length (outbox_events d) - 100 * n
        \<and> distinct (map ob_id (outbox_events (fst ((poll emit {} True ^^ n) (d, e)))))"
  proof (induction n)
    case 0
    then show ?case using assms(1) by (simp add: db_inv_def)
  next
    case (Suc n)
    obtain d1 e1 where s: "(poll emit {} True ^^ n) (d, e) = (d1, e1)" by fastforce
    show ?case using Suc poll_drains [of d1 emit e1, OF _ assms(2)] by (simp add: s)
  qed
  then show ?thesis by (simp add: BATCH_SIZE_def)
qed

theorem outbox_drains_witness:
  "outbox_events (fst ((poll (recorder (\<lambda>s l. True)) {} True ^^ 1) (pending_db, []))) = []"
  using outbox_drains [OF pending_db, of "recorder (\<lambda>s l. True)" 1 "[]"]
  by (simp add: recorder_def pending_db_def BATCH_SIZE_def)

text \<open>Starvation. When the hundred oldest events keep failing, every cycle claims exactly those
  hundred again and no later event is ever published: nothing moves a failing row out of the
  way.\<close>

theorem outbox_starved:
  assumes "length (outbox_events d) \<ge> BATCH_SIZE"
    and "\<forall>r \<in> set (claim {} d). ob_event_type r = ''shot.persisted'' \<and> (\<forall>e. \<not> fst (emit (event_of r) e))"
  shows "fst ((poll emit {} True ^^ n) (d, e)) = d \<and> length (claim {} d) = BATCH_SIZE"
proof -
  have "fst (poll emit {} True (d, e)) = d" for e
    using publish_rows_none [of "claim {} d" emit e] assms(2)
    by (auto simp: poll_def publish_cases Let_def split: prod.splits)
  then have "fst ((poll emit {} True ^^ n) (d, e)) = d"
    by (induction n) (simp, metis comp_apply funpow.simps(2) prod.collapse)
  then show ?thesis using assms(1) by (simp add: claim_def)
qed

text \<open>A hundred and one events, the youngest of which nobody objects to.\<close>

definition backlog_row :: "nat \<Rightarrow> OutboxRow" where
  "backlog_row i =
     \<lparr>ob_id = i, ob_event_type = ''shot.persisted'',
      ob_payload = (ShotCore.truncate sample_normalised)\<lparr>vendor_user_id := if i < 100 then ''bad'' else ''good''\<rparr>,
      ob_created_at = int i\<rparr>"

definition backlog_db :: Db where
  "backlog_db = empty_db\<lparr>outbox_events := map backlog_row [0..<101], outbox_seq := 101\<rparr>"

lemma backlog_claim: "claim {} backlog_db = map backlog_row [0..<100]"
proof -
  have "sorted (map ob_created_at (map backlog_row [0..<101]))"
    by (simp add: comp_def backlog_row_def sorted_wrt_map sorted_wrt_iff_nth_less)
  then have "sort_key ob_created_at (map backlog_row [0..<101]) = map backlog_row [0..<101]"
    by (rule sort_key_id_if_sorted)
  then show ?thesis by (simp add: claim_def backlog_db_def BATCH_SIZE_def take_map)
qed

theorem outbox_starved_witness:
  "fst ((poll (recorder (\<lambda>s l. vendor_user_id s = ''good'')) {} True ^^ 1000) (backlog_db, [])) = backlog_db"
proof -
  have "\<forall>r \<in> set (claim {} backlog_db). ob_event_type r = ''shot.persisted''
          \<and> (\<forall>e. \<not> fst (recorder (\<lambda>s l. vendor_user_id s = ''good'') (event_of r) e))"
    by (auto simp: backlog_claim backlog_row_def recorder_def event_of_def ShotCore.extend_def)
  with outbox_starved [of backlog_db "recorder (\<lambda>s l. vendor_user_id s = ''good'')" 1000 "[]"]
  show ?thesis by (simp add: backlog_db_def BATCH_SIZE_def)
qed

end
