(* ===== verification/Processor.thy ===== *)
theory Processor
  imports Queue Repository Identity Redaction Outbox
begin

text \<open>
  \<open>ingestion/shot-ingestion.processor.ts\<close>: the worker's handler of a queued shot, cut at its
  awaits into stages, so that crashes, retries and the interleaving of the sixteen concurrent
  jobs are sequences of stages. The metrics are a list of the calls made on them.
\<close>

section \<open>The worker's state\<close>

datatype outcome = Rejected_clock | Duplicate_exact | Duplicate_near | Accepted | Failed

datatype metric =
    ShotsTotal js_string outcome js_string
  | NearDuplicates js_string
  | E2eLag js_string "int option"
  | JobsFailed js_string

record 'r World =
  w_db :: Db
  w_redis :: 'r
  w_metrics :: "metric list"

record 'r WorkerEnv =
  we_platform :: Platform
  we_number_text :: "number \<Rightarrow> js_string"
  we_redis :: "'r Redis"

definition inc :: "metric list \<Rightarrow> 'r World \<Rightarrow> 'r World" where
  "inc ms w = w\<lparr>w_metrics := w_metrics w @ ms\<rparr>"

definition count_shot :: "NormalisedShot \<Rightarrow> outcome \<Rightarrow> metric" where
  "count_shot shot oc = ShotsTotal (vendor_string (vendor shot)) oc (parser_version shot)"

section \<open>The stages of a job\<close>

text \<open>Before the first await; before the upsert; before the near-duplicate check; before the event
  of a near duplicate is updated; done.\<close>

datatype stage =
    Begin
  | Upserting NormalisedShot
  | Checking NormalisedShot js_string
  | Propagating js_string js_string
  | Finished outcome

definition clock_failure :: "'r WorkerEnv \<Rightarrow> ShotJob \<Rightarrow> IngestionFailure" where
  "clock_failure env job =
     (let shot = j_normalisedShot job in
      \<lparr>if_vendor = vendor shot, if_received_at_utc = j_receivedAtUtc job,
       if_raw_body = (case redactPii (we_number_text env) (raw_payload shot) of
                        Some body \<Rightarrow> body | None \<Rightarrow> ''[PII_REDACTION_ERROR]''),
       if_http_status = 0, if_error_code = ''CLOCK_SKEW_EXCESSIVE'',
       if_error_detail = JObj [(''captured_at_utc'', JStr (captured_at_utc shot))],
       if_correlation_id = Some (j_correlationId job)\<rparr>)"

text \<open>\<open>canonicalUserId ? { ...shot, canonical_user_id } : shot\<close>.\<close>

definition resolved_shot :: "js_string option \<Rightarrow> NormalisedShot \<Rightarrow> NormalisedShot" where
  "resolved_shot canonicalUserId shot =
     (case canonicalUserId of
        Some c \<Rightarrow> if c = [] then shot else shot\<lparr>canonical_user_id := Some c\<rparr>
      | None \<Rightarrow> shot)"

definition lag_metric :: "'r WorkerEnv \<Rightarrow> int \<Rightarrow> ShotJob \<Rightarrow> metric" where
  "lag_metric env now job =
     E2eLag (vendor_string (vendor (j_normalisedShot job)))
       (map_option (\<lambda>received. now - received)
         (date_parse (legacy_date (we_platform env)) (j_receivedAtUtc job)))"

fun process_step ::
    "'r WorkerEnv \<Rightarrow> int \<Rightarrow> ShotJob \<Rightarrow> stage \<Rightarrow> 'r World \<Rightarrow> (exn + stage) \<times> 'r World" where
  "process_step env now job Begin w =
     (let shot = j_normalisedShot job in
      if hasExcessiveClockSkew (we_platform env) (captured_at_utc shot) (j_receivedAtUtc job) then
        (case recordIngestionFailure (clock_failure env job) (w_db w) of
           Inl e \<Rightarrow> (Inl e, w)
         | Inr d \<Rightarrow> (Inr (Finished Rejected_clock), inc [count_shot shot Rejected_clock] (w\<lparr>w_db := d\<rparr>)))
      else
        let (canonicalUserId, r) =
              resolveCanonicalUserId (we_redis env) now (vendor_string (vendor shot)) (vendor_user_id shot)
                (w_db w, w_redis w)
        in (Inr (Upserting (resolved_shot canonicalUserId shot)), w\<lparr>w_redis := r\<rparr>))"
| "process_step env now job (Upserting resolvedShot) w =
     (case upsertIfNew now resolvedShot (w_db w) of
        Inl e \<Rightarrow> (Inl e, w)
      | Inr (result, d) \<Rightarrow>
          if up_inserted result
          then (Inr (Checking resolvedShot (up_canonical_shot_id result)), w\<lparr>w_db := d\<rparr>)
          else (Inr (Finished Duplicate_exact),
                inc [count_shot (j_normalisedShot job) Duplicate_exact] (w\<lparr>w_db := d\<rparr>)))"
| "process_step env now job (Checking resolvedShot canonicalShotId) w =
     (let shot = j_normalisedShot job in
      case checkAndFlagNearDuplicates (we_platform env) resolvedShot (w_db w) of
        Inl e \<Rightarrow> (Inl e, w)
      | Inr (Some nearDupOriginId, d) \<Rightarrow>
          (Inr (Propagating canonicalShotId nearDupOriginId),
           inc [NearDuplicates (vendor_string (vendor shot)), count_shot shot Duplicate_near] (w\<lparr>w_db := d\<rparr>))
      | Inr (None, d) \<Rightarrow>
          (Inr (Finished Accepted), inc [count_shot shot Accepted, lag_metric env now job] (w\<lparr>w_db := d\<rparr>)))"
| "process_step env now job (Propagating canonicalShotId nearDupOriginId) w =
     (Inr (Finished Duplicate_near),
      inc [lag_metric env now job]
        (w\<lparr>w_db := updateOutboxEventDuplicateOf canonicalShotId nearDupOriginId (w_db w)\<rparr>))"
| "process_step env now job (Finished oc) w = (Inr (Finished oc), w)"

text \<open>The handler runs its stages one after the other; \<open>None\<close> would be a run that did not end.\<close>

fun run_stages ::
    "nat \<Rightarrow> 'r WorkerEnv \<Rightarrow> int \<Rightarrow> ShotJob \<Rightarrow> stage \<Rightarrow> 'r World \<Rightarrow> (exn + outcome) option \<times> 'r World" where
  "run_stages fuel env now job (Finished oc) w = (Some (Inr oc), w)"
| "run_stages 0 env now job st w = (None, w)"
| "run_stages (Suc fuel) env now job st w =
     (case process_step env now job st w of
        (Inl e, w') \<Rightarrow> (Some (Inl e), w')
      | (Inr st', w') \<Rightarrow> run_stages fuel env now job st' w')"

definition process :: "'r WorkerEnv \<Rightarrow> int \<Rightarrow> ShotJob \<Rightarrow> 'r World \<Rightarrow> (exn + outcome) option \<times> 'r World" where
  "process env now job w = run_stages 4 env now job Begin w"

section \<open>Attempts\<close>

definition onFailed :: "ShotJob option \<Rightarrow> 'r World \<Rightarrow> 'r World" where
  "onFailed job w =
     (let v = (case job of Some j \<Rightarrow> vendor_string (vendor (j_normalisedShot j)) | None \<Rightarrow> ''unknown'');
          parserVersion = (case job of Some j \<Rightarrow> parser_version (j_normalisedShot j) | None \<Rightarrow> ''unknown'')
      in inc [JobsFailed v, ShotsTotal v Failed parserVersion] w)"

text \<open>The queue runs the handler again after a failure, here at the given times (five of them by the
  job's options), and the worker emits \<open>failed\<close> for every failed attempt.\<close>

fun run_job :: "'r WorkerEnv \<Rightarrow> int list \<Rightarrow> ShotJob \<Rightarrow> 'r World \<Rightarrow> (exn + outcome) option \<times> 'r World" where
  "run_job env [] job w = (None, w)"
| "run_job env (now # nows) job w =
     (case process env now job w of
        (Some (Inl e), w') \<Rightarrow>
          (if nows = [] then (Some (Inl e), onFailed (Some job) w')
           else run_job env nows job (onFailed (Some job) w'))
      | done \<Rightarrow> done)"


section \<open>The system\<close>

text \<open>The shared state, the jobs the workers are running with their stages, and the events handed to
  the listeners so far. Jobs arrive in any number (the same one several times, too); any of them
  advances by one stage, or crashes or fails and is put back to its beginning; outbox cycles run
  with listeners that may throw, with rows locked elsewhere and with commits that fail; identity
  operations are served in between.\<close>

record 'r System =
  sys_world :: "'r World"
  sys_jobs :: "(ShotJob \<times> stage) list"
  sys_events :: "NormalisedShot list"

inductive sys_step :: "'r WorkerEnv \<Rightarrow> 'r System \<Rightarrow> 'r System \<Rightarrow> bool" for env where
  arrive: "sys_step env s (s\<lparr>sys_jobs := sys_jobs s @ [(job, Begin)]\<rparr>)"
| advance: "i < length (sys_jobs s) \<Longrightarrow> sys_jobs s ! i = (job, st) \<Longrightarrow>
     process_step env now job st (sys_world s) = (Inr st', w') \<Longrightarrow>
     sys_step env s (s\<lparr>sys_world := w', sys_jobs := (sys_jobs s)[i := (job, st')]\<rparr>)"
| crash: "i < length (sys_jobs s) \<Longrightarrow> sys_jobs s ! i = (job, st) \<Longrightarrow>
     sys_step env s (s\<lparr>sys_world := onFailed (Some job) (sys_world s), sys_jobs := (sys_jobs s)[i := (job, Begin)]\<rparr>)"
| publish: "publishPending (recorder ok) locked commits (w_db (sys_world s), sys_events s) = (err, (d', evs)) \<Longrightarrow>
     sys_step env s (s\<lparr>sys_world := (sys_world s)\<lparr>w_db := d'\<rparr>, sys_events := evs\<rparr>)"
| identity: "identity_step (we_redis env) actor now op (w_db (sys_world s), w_redis (sys_world s)) = (d', r') \<Longrightarrow>
     sys_step env s (s\<lparr>sys_world := (sys_world s)\<lparr>w_db := d', w_redis := r'\<rparr>\<rparr>)"

inductive sys_reachable :: "'r WorkerEnv \<Rightarrow> 'r System \<Rightarrow> 'r System \<Rightarrow> bool" for env s0 where
  start: "sys_reachable env s0 s0"
| step: "sys_reachable env s0 s \<Longrightarrow> sys_step env s t \<Longrightarrow> sys_reachable env s0 t"

section \<open>Lemmas\<close>

definition shot_ids :: "Db \<Rightarrow> js_string set" where
  "shot_ids d = canonical_shot_id ` set (shots d)"

definition event_ids :: "Db \<Rightarrow> js_string set" where
  "event_ids d = (canonical_shot_id \<circ> ob_payload) ` set (outbox_events d)"

text \<open>The constraints, and no stored shot without its event, pending or published.\<close>

definition covered :: "Db \<Rightarrow> NormalisedShot list \<Rightarrow> bool" where
  "covered d evs \<longleftrightarrow>
     db_inv d \<and> outbox_inv d \<and> shot_ids d \<subseteq> event_ids d \<union> canonical_shot_id ` set evs"

lemma covered_frame:
  assumes "covered d evs" and "db_inv d' \<and> outbox_inv d'"
    and "shot_ids d' = shot_ids d" and "event_ids d' = event_ids d"
  shows "covered d' evs"
  using assms by (simp add: covered_def)

lemma upsert_covered: "covered d evs \<Longrightarrow> upsertIfNew now s d = Inr (r, d') \<Longrightarrow> covered d' evs"
proof -
  assume c: "covered d evs" and u: "upsertIfNew now s d = Inr (r, d')"
  have inv: "db_inv d'" "outbox_inv d'"
    using c upsert_db_inv [OF _ u] upsert_outbox_inv [OF _ u] by (simp_all add: covered_def)
  have "d' = d \<or> (shot_ids d' = insert (canonical_shot_id s) (shot_ids d)
                   \<and> event_ids d' = insert (canonical_shot_id s) (event_ids d))"
    using u unfolding upsertIfNew_Inr by (elim conjE disjE exE) (auto simp: shot_ids_def event_ids_def)
  then show "covered d' evs" using c inv by (auto simp: covered_def)
qed

text \<open>What the near-duplicate check leaves: nothing new, or one row flagged.\<close>

lemma checkAndFlag_None: "checkAndFlagNearDuplicates P s d = Inr (None, d1) \<Longrightarrow> d1 = d"
  by (auto simp: checkAndFlagNearDuplicates_def split: option.splits)

lemma checkAndFlag_Some:
  "checkAndFlagNearDuplicates P s d = Inr (Some o1, d1) \<Longrightarrow> d1 = flag_duplicate (canonical_shot_id s) o1 d"
  by (auto simp: checkAndFlagNearDuplicates_def split: option.splits)

lemma flag_ids [simp]: "shot_ids (flag_duplicate sid o1 d) = shot_ids d" "event_ids (flag_duplicate sid o1 d) = event_ids d"
  by (simp_all add: shot_ids_def event_ids_def flag_duplicate_def update_where_image)

lemma check_covered:
  assumes "covered d evs" and "checkAndFlagNearDuplicates P s d = Inr (r, d')"
  shows "covered d' evs"
proof -
  have "d' = d \<or> (\<exists>o1. d' = flag_duplicate (canonical_shot_id s) o1 d)"
    using assms(2) by (cases r) (auto dest: checkAndFlag_Some checkAndFlag_None)
  then have "shot_ids d' = shot_ids d" "event_ids d' = event_ids d" by auto
  moreover have "db_inv d \<and> outbox_inv d" using assms(1) by (simp add: covered_def)
  ultimately show ?thesis using covered_frame [OF assms(1) check_flag_inv [OF _ assms(2)]] by simp
qed

lemma update_event_covered:
  assumes "covered d evs"
  shows "covered (updateOutboxEventDuplicateOf sid o1 d) evs"
proof (rule covered_frame [OF assms])
  show "event_ids (updateOutboxEventDuplicateOf sid o1 d) = event_ids d"
    unfolding event_ids_def updateOutboxEventDuplicateOf_def by (simp add: update_where_image)
  show "shot_ids (updateOutboxEventDuplicateOf sid o1 d) = shot_ids d"
    by (simp add: shot_ids_def updateOutboxEventDuplicateOf_def)
qed (rule update_event_inv, use assms in \<open>simp add: covered_def\<close>)

lemma record_failure_covered:
  assumes "covered d evs" and "recordIngestionFailure f d = Inr d'"
  shows "covered d' evs"
proof -
  have "shot_ids d' = shot_ids d" "event_ids d' = event_ids d"
    using assms(2) by (auto simp: recordIngestionFailure_def shot_ids_def event_ids_def split: if_splits)
  moreover have "db_inv d \<and> outbox_inv d" using assms(1) by (simp add: covered_def)
  ultimately show ?thesis using covered_frame [OF assms(1) record_failure_inv [OF _ assms(2)]] by simp
qed

lemma process_step_covered:
  assumes "covered (w_db w) evs" and "process_step env now job st w = (res, w')"
  shows "covered (w_db w') evs"
proof (cases st)
  case Begin
  then show ?thesis using assms record_failure_covered
    by (auto simp: Let_def inc_def split: if_splits sum.splits prod.splits)
next
  case (Upserting s)
  then show ?thesis using assms upsert_covered
    by (auto simp: inc_def split: if_splits sum.splits prod.splits)
next
  case (Checking s cid)
  then show ?thesis using assms check_covered
    by (auto simp: inc_def Let_def split: if_splits sum.splits prod.splits option.splits)
next
  case (Propagating cid o1)
  then show ?thesis using assms update_event_covered by (auto simp: inc_def)
next
  case (Finished oc)
  then show ?thesis using assms by auto
qed

lemma publish_covered:
  assumes "covered d evs" and "publishPending (recorder ok) locked commits (d, evs) = (err, (d', evs'))"
  shows "covered d' evs'"
proof -
  have inv: "db_inv d" "outbox_inv d" using assms(1) by (simp_all add: covered_def)
  obtain ids where p: "publish_rows (recorder ok) (claim locked d) evs = (ids, evs')"
    and d': "d' = d \<or> d' = d\<lparr>outbox_events := filter (\<lambda>r. ob_id r \<notin> set ids) (outbox_events d)\<rparr>"
    using assms(2) by (auto simp: publish_cases Let_def split: prod.splits if_splits)
  have evs': "evs' = evs @ map event_of (filter (\<lambda>r. ob_event_type r = ''shot.persisted'') (claim locked d))"
    using recorder_log [of ok "claim locked d" evs] p by simp
  have "event_ids d \<subseteq> event_ids d' \<union> canonical_shot_id ` set evs'"
  proof
    fix i assume "i \<in> event_ids d"
    then obtain r where r: "r \<in> set (outbox_events d)" "canonical_shot_id (ob_payload r) = i"
      by (auto simp: event_ids_def)
    show "i \<in> event_ids d' \<union> canonical_shot_id ` set evs'"
    proof (cases "r \<in> set (outbox_events d')")
      case True
      then show ?thesis using r(2) by (auto simp: event_ids_def)
    next
      case False
      then have "ob_id r \<in> set ids" using d' r(1) by auto
      then obtain q where q: "q \<in> set (claim locked d)" "ob_id q = ob_id r"
        using publish_rows_published [OF p] by blast
      then have "q = r" using inv(1) r(1) claim_set by (metis db_inv_def distinct_map inj_onD)
      moreover have "ob_event_type r = ''shot.persisted''" using inv(2) r(1) by (simp add: outbox_inv_def)
      ultimately have "event_of r \<in> set evs'" using q(1) by (auto simp: evs')
      moreover have "canonical_shot_id (event_of r) = i" using r(2) by (simp add: event_of_def ShotCore.extend_def)
      ultimately show ?thesis by force
    qed
  qed
  moreover have "shot_ids d' = shot_ids d" using d' by (auto simp: shot_ids_def)
  moreover have "canonical_shot_id ` set evs \<subseteq> canonical_shot_id ` set evs'" by (auto simp: evs')
  ultimately show ?thesis
    using assms(1) publish_inv [OF conjI [OF inv] assms(2)] unfolding covered_def by blast
qed

lemma identity_step_covered:
  assumes "covered d evs" and "identity_step R actor now op (d, r) = (d', r')"
  shows "covered d' evs"
proof -
  have inv: "db_inv d" "outbox_inv d" using assms(1) by (simp_all add: covered_def)
  have "db_inv d' \<and> outbox_events d' = outbox_events d \<and> shot_ids d' = shot_ids d"
  proof (cases op)
    case (Link v u c)
    show ?thesis
    proof (cases "linkIdentity R now v u c actor (d, r)")
      case (Inl e)
      then show ?thesis using assms(2) inv Link by simp
    next
      case (Inr p)
      obtain row where p: "p = (row, (d', r'))" using assms(2) Link Inr by (cases p) auto
      show ?thesis
        using link_Inr(3,5) [OF Inr [unfolded p]] link_outbox [OF Inr [unfolded p]] inv by (simp add: shot_ids_def)
    qed
  next
    case (Unlink v u c)
    show ?thesis
    proof (cases "unlinkIdentity R v u c actor (d, r)")
      case (Inl e)
      then show ?thesis using assms(2) inv Unlink by simp
    next
      case (Inr p)
      then have "p = (d', r')" using assms(2) Unlink by simp
      then show ?thesis using unlink_frame [OF Inr [unfolded \<open>p = (d', r')\<close>]] inv by (simp add: shot_ids_def)
    qed
  next
    case (ListOf c)
    obtain res where "listByCanonicalUser R now c actor (d, r) = (res, (d', r'))"
      using assms(2) ListOf by (metis identity_step.simps(4) prod.collapse)
    from list_frame [OF this] show ?thesis using inv by (simp add: shot_ids_def)
  next
    case (Backfill v u c)
    have "shot_ids (backfill v u c d) = shot_ids d" "outbox_events (backfill v u c d) = outbox_events d"
      by (simp_all add: backfill_def shot_ids_def update_where_image)
    then show ?thesis using assms(2) inv backfill_inv [of d v u c] Backfill by simp
  qed (use assms(2) inv in auto)
  then show ?thesis using assms(1) by (auto simp: covered_def outbox_inv_def event_ids_def shot_ids_def)
qed

lemma sys_step_covered:
  assumes "sys_step env s t" and "covered (w_db (sys_world s)) (sys_events s)"
  shows "covered (w_db (sys_world t)) (sys_events t)"
  using assms
proof (cases rule: sys_step.cases)
  case (advance i job st now st' w')
  then show ?thesis using process_step_covered [OF assms(2)] by simp
next
  case (publish ok locked commits err d' evs)
  then show ?thesis using publish_covered [OF assms(2)] by simp
next
  case (identity actor now op d' r')
  then show ?thesis using identity_step_covered [OF assms(2)] by simp
qed (use assms(2) in \<open>simp_all add: onFailed_def inc_def Let_def\<close>)

lemma sys_covered:
  "sys_reachable env s0 s \<Longrightarrow> covered (w_db (sys_world s0)) (sys_events s0) \<Longrightarrow>
     covered (w_db (sys_world s)) (sys_events s)"
  by (induction rule: sys_reachable.induct) (auto intro: sys_step_covered)


section \<open>Lemmas on a single job\<close>

fun counted :: "metric list \<Rightarrow> outcome list" where
  "counted [] = []"
| "counted (ShotsTotal v oc p # ms) = oc # counted ms"
| "counted (m # ms) = counted ms"

lemma counted_append [simp]: "counted (xs @ ys) = counted xs @ counted ys"
  by (induction xs rule: counted.induct) auto

lemma resolved_shot_fields [simp]:
  "shot_key (resolved_shot c shot) = shot_key shot" "vendor (resolved_shot c shot) = vendor shot"
  "idempotency_key (resolved_shot c shot) = idempotency_key shot"
  "canonical_shot_id (resolved_shot c shot) = canonical_shot_id shot"
  "duplicate_of (resolved_shot c shot) = duplicate_of shot"
  by (auto simp: resolved_shot_def shot_key_def split: option.splits)

text \<open>Stage by stage, each job ends within four steps.\<close>

fun stages_left :: "stage \<Rightarrow> nat" where
  "stages_left Begin = 4"
| "stages_left (Upserting s) = 3"
| "stages_left (Checking s c) = 2"
| "stages_left (Propagating c o1) = 1"
| "stages_left (Finished oc) = 0"

lemma stage_progress:
  assumes "process_step env now job st w = (Inr st', w')" and "stages_left st \<noteq> 0"
  shows "stages_left st' < stages_left st"
  using assms by (cases st) (auto simp: Let_def split: if_splits sum.splits prod.splits option.splits)

lemma run_stages_ends: "stages_left st \<le> fuel \<Longrightarrow> fst (run_stages fuel env now job st w) \<noteq> None"
proof (induction fuel arbitrary: st w)
  case 0
  then show ?case by (cases st) auto
next
  case (Suc fuel)
  show ?case
  proof (cases "stages_left st = 0")
    case True
    then show ?thesis by (cases st) auto
  next
    case False
    then have step: "run_stages (Suc fuel) env now job st w =
        (case process_step env now job st w of
          (Inl e, w') \<Rightarrow> (Some (Inl e), w') | (Inr st', w') \<Rightarrow> run_stages fuel env now job st' w')"
      by (cases st) auto
    obtain res w' where r: "process_step env now job st w = (res, w')" by fastforce
    show ?thesis
      unfolding step r using stage_progress [of env now job st w _ w'] False Suc r
      by (cases res) fastforce+
  qed
qed

text \<open>What is left of a run from each stage, on the state it finds.\<close>

definition row_and_event :: "js_string \<Rightarrow> Db \<Rightarrow> bool" where
  "row_and_event sid d \<longleftrightarrow>
     (\<exists>r \<in> set (shots d). \<exists>ev \<in> set (outbox_events d).
        canonical_shot_id r = sid \<and> ob_payload ev = ShotCore.truncate r)"

lemma flag_row_and_event:
  assumes "row_and_event sid d" and "outbox_inv d" and "db_inv d"
  shows "row_and_event sid (updateOutboxEventDuplicateOf sid o1 (flag_duplicate sid o1 d))"
    and "\<exists>r \<in> set (shots (flag_duplicate sid o1 d)). canonical_shot_id r = sid \<and> duplicate_of r = Some o1"
proof -
  obtain r ev where r: "r \<in> set (shots d)" "canonical_shot_id r = sid"
    and ev: "ev \<in> set (outbox_events d)" "ob_payload ev = ShotCore.truncate r"
    using assms(1) by (auto simp: row_and_event_def)
  let ?r = "r\<lparr>duplicate_of := Some o1\<rparr>" and ?ev = "ev\<lparr>ob_payload := (ob_payload ev)\<lparr>duplicate_of := Some o1\<rparr>\<rparr>"
  have r': "?r \<in> set (shots (flag_duplicate sid o1 d))"
    using r by (auto simp: flag_duplicate_def update_where_set)
  then show "\<exists>r \<in> set (shots (flag_duplicate sid o1 d)). canonical_shot_id r = sid \<and> duplicate_of r = Some o1"
    using r(2) by (intro bexI [of _ ?r]) auto
  have "ob_event_type ev = ''shot.persisted''" using assms(2) ev(1) by (simp add: outbox_inv_def)
  then have "?ev \<in> set (outbox_events (updateOutboxEventDuplicateOf sid o1 (flag_duplicate sid o1 d)))"
    using ev r(2) by (auto simp: updateOutboxEventDuplicateOf_def flag_duplicate_def update_where_set
        intro!: bexI [of _ ev])
  moreover have "ob_payload ?ev = ShotCore.truncate ?r"
    using ev(2) by (simp add: ShotCore.truncate_def)
  moreover have "?r \<in> set (shots (updateOutboxEventDuplicateOf sid o1 (flag_duplicate sid o1 d)))"
    using r' by (simp add: updateOutboxEventDuplicateOf_def)
  ultimately show "row_and_event sid (updateOutboxEventDuplicateOf sid o1 (flag_duplicate sid o1 d))"
    unfolding row_and_event_def using r(2) by (intro bexI [of _ ?r] bexI [of _ ?ev] conjI) simp_all
qed

lemma upsert_row_and_event:
  assumes "upsertIfNew now s d = Inr (r, d')" and "up_inserted r"
  shows "row_and_event (canonical_shot_id s) d'" and "up_canonical_shot_id r = canonical_shot_id s"
  using assms unfolding row_and_event_def upsertIfNew_Inr by auto

text \<open>The run of a job that is not rejected, from its upsert on.\<close>

lemma run_from_upsert:
  "run_stages 3 env now job (Upserting s) w =
     (case upsertIfNew now s (w_db w) of
        Inl e \<Rightarrow> (Some (Inl e), w)
      | Inr (result, d) \<Rightarrow>
          if \<not> up_inserted result
          then (Some (Inr Duplicate_exact), inc [count_shot (j_normalisedShot job) Duplicate_exact] (w\<lparr>w_db := d\<rparr>))
          else
            (case checkAndFlagNearDuplicates (we_platform env) s d of
               Inl e \<Rightarrow> (Some (Inl e), w\<lparr>w_db := d\<rparr>)
             | Inr (Some origin, d1) \<Rightarrow>
                 (Some (Inr Duplicate_near),
                  inc [NearDuplicates (vendor_string (vendor (j_normalisedShot job))),
                       count_shot (j_normalisedShot job) Duplicate_near, lag_metric env now job]
                    (w\<lparr>w_db := updateOutboxEventDuplicateOf (up_canonical_shot_id result) origin d1\<rparr>))
             | Inr (None, d1) \<Rightarrow>
                 (Some (Inr Accepted),
                  inc [count_shot (j_normalisedShot job) Accepted, lag_metric env now job] (w\<lparr>w_db := d1\<rparr>))))"
  by (auto simp: numeral_3_eq_3 Let_def inc_def split: sum.splits prod.splits option.splits)

lemma process_first:
  "process env now job w
   = (case process_step env now job Begin w of
        (Inl e, w') \<Rightarrow> (Some (Inl e), w') | (Inr st', w') \<Rightarrow> run_stages 3 env now job st' w')"
proof -
  have "process env now job w = run_stages (Suc 3) env now job Begin w" by (simp add: process_def)
  then show ?thesis by (simp only: run_stages.simps)
qed

lemma process_no_skew:
  assumes "\<not> hasExcessiveClockSkew (we_platform env) (captured_at_utc (j_normalisedShot job)) (j_receivedAtUtc job)"
    and "resolveCanonicalUserId (we_redis env) now (vendor_string (vendor (j_normalisedShot job)))
           (vendor_user_id (j_normalisedShot job)) (w_db w, w_redis w) = (c, r)"
  shows "process env now job w
         = run_stages 3 env now job (Upserting (resolved_shot c (j_normalisedShot job))) (w\<lparr>w_redis := r\<rparr>)"
  using assms by (simp add: process_first Let_def)

lemma process_skew:
  assumes "hasExcessiveClockSkew (we_platform env) (captured_at_utc (j_normalisedShot job)) (j_receivedAtUtc job)"
  shows "process env now job w =
     (case recordIngestionFailure (clock_failure env job) (w_db w) of
        Inl e \<Rightarrow> (Some (Inl e), w)
      | Inr d \<Rightarrow> (Some (Inr Rejected_clock), inc [count_shot (j_normalisedShot job) Rejected_clock] (w\<lparr>w_db := d\<rparr>)))"
  using assms by (simp add: process_first Let_def split: sum.splits)


text \<open>Flagging a row keeps every key of the table.\<close>

lemma flag_keeps_found:
  "findByIdempotencyKey v k (updateOutboxEventDuplicateOf sid o1 (flag_duplicate sid o1 d)) \<noteq> None
   \<longleftrightarrow> findByIdempotencyKey v k d \<noteq> None"
proof -
  have found: "findByIdempotencyKey v k q \<noteq> None \<longleftrightarrow> (v, k) \<in> shot_key ` set (shots q)" for q
    by (simp add: findByIdempotencyKey_def find_None_key)
  have "map shot_key (shots (updateOutboxEventDuplicateOf sid o1 (flag_duplicate sid o1 d))) = map shot_key (shots d)"
    by (simp add: updateOutboxEventDuplicateOf_def flag_duplicate_def update_where_map shot_key_def)
  then show ?thesis unfolding found by (metis list.set_map)
qed

text \<open>A run that stores the shot: what each outcome leaves.\<close>

definition stored_effect :: "NormalisedShot \<Rightarrow> 'r World \<Rightarrow> outcome \<Rightarrow> 'r World \<Rightarrow> bool" where
  "stored_effect s w oc w' \<longleftrightarrow>
     findByIdempotencyKey (vendor s) (idempotency_key s) (w_db w') \<noteq> None
     \<and> counted (w_metrics w') = counted (w_metrics w) @ [oc]
     \<and> (case oc of
          Duplicate_exact \<Rightarrow> w_db w' = w_db w
        | Accepted \<Rightarrow> row_and_event (canonical_shot_id s) (w_db w')
        | Duplicate_near \<Rightarrow> row_and_event (canonical_shot_id s) (w_db w')
            \<and> (\<exists>r \<in> set (shots (w_db w')). canonical_shot_id r = canonical_shot_id s \<and> duplicate_of r \<noteq> None)
        | _ \<Rightarrow> False)"

lemma run_from_upsert_stored:
  assumes "db_inv (w_db w)" and "outbox_inv (w_db w)"
    and "run_stages 3 env now job (Upserting s) w = (Some (Inr oc), w')"
  shows "stored_effect s w oc w'"
proof -
  obtain result d where u: "upsertIfNew now s (w_db w) = Inr (result, d)"
    using assms(3) by (auto simp: run_from_upsert split: sum.splits)
  have known: "findByIdempotencyKey (vendor s) (idempotency_key s) d \<noteq> None"
    using pg.up_found [OF assms(1) u] by simp
  show ?thesis
  proof (cases "up_inserted result")
    case False
    then have "d = w_db w" using u by (auto simp: upsertIfNew_Inr)
    then show ?thesis using assms(3) u False known
      by (auto simp: run_from_upsert inc_def count_shot_def stored_effect_def)
  next
    case True
    note re = upsert_row_and_event [OF u True]
    obtain origin d1 where p: "checkAndFlagNearDuplicates (we_platform env) s d = Inr (origin, d1)"
      using assms(3) u True by (auto simp: run_from_upsert split: sum.splits prod.splits)
    show ?thesis
    proof (cases origin)
      case None
      then show ?thesis using assms(3) u True p known re checkAndFlag_None [of "we_platform env" s d d1]
        by (auto simp: run_from_upsert inc_def count_shot_def lag_metric_def stored_effect_def)
    next
      case (Some o1)
      let ?d1 = "flag_duplicate (canonical_shot_id s) o1 d"
      let ?d2 = "updateOutboxEventDuplicateOf (canonical_shot_id s) o1 ?d1"
      have w': "oc = Duplicate_near" "w_db w' = ?d2" "counted (w_metrics w') = counted (w_metrics w) @ [oc]"
        using assms(3) u True p Some re(2) checkAndFlag_Some [of "we_platform env" s d o1 d1]
        by (auto simp: run_from_upsert inc_def count_shot_def lag_metric_def)
      have "db_inv d" "outbox_inv d"
        using upsert_db_inv [OF assms(1) u] upsert_outbox_inv [OF assms(2) u] by simp_all
      note fl = flag_row_and_event [OF re(1) this(2,1), of o1]
      have "shots ?d2 = shots ?d1" by (simp add: updateOutboxEventDuplicateOf_def)
      moreover have "findByIdempotencyKey (vendor s) (idempotency_key s) ?d2 \<noteq> None"
        unfolding flag_keeps_found by (rule known)
      ultimately show ?thesis using fl w' by (auto simp: stored_effect_def)
    qed
  qed
qed

section \<open>Properties\<close>

text \<open>C1: The pipeline's invariant. Whatever jobs arrive, however their stages interleave with each
  other, with outbox cycles (whose listeners may throw and whose commits may fail) and with
  identity operations, and wherever jobs crash and are retried: the constraints hold, no key is
  stored twice, no shot has two pending events, and no stored shot is without its event: it is
  pending in the outbox or has been handed to the listeners.\<close>

theorem pipeline_invariant:
  assumes "sys_reachable env s0 s" and "w_db (sys_world s0) = empty_db"
  shows "db_inv (w_db (sys_world s)) \<and> outbox_inv (w_db (sys_world s))
         \<and> (\<forall>r \<in> set (shots (w_db (sys_world s))).
              (\<exists>ev \<in> set (outbox_events (w_db (sys_world s))). canonical_shot_id (ob_payload ev) = canonical_shot_id r)
              \<or> (\<exists>e \<in> set (sys_events s). canonical_shot_id e = canonical_shot_id r))"
proof -
  have "covered (w_db (sys_world s0)) (sys_events s0)"
    using empty_db_inv by (simp add: assms(2) covered_def) (simp add: shot_ids_def empty_db_def)
  from sys_covered [OF assms(1) this] show ?thesis
    by (fastforce simp: covered_def shot_ids_def event_ids_def)
qed

text \<open>A worker on a concrete platform, and a fresh shot's job.\<close>

definition sample_env :: "map_store WorkerEnv" where
  "sample_env = \<lparr>we_platform = sample_platform, we_number_text = (\<lambda>x. ''0''), we_redis = map_redis\<rparr>"

definition sample_world :: "map_store World" where
  "sample_world = \<lparr>w_db = empty_db, w_redis = (\<lambda>k. None), w_metrics = []\<rparr>"

definition sample_job :: "NormalisedShot \<Rightarrow> ShotJob" where
  "sample_job s = \<lparr>j_vendor = vendor s, j_normalisedShot = s, j_correlationId = ''c-1'',
                   j_receivedAtUtc = captured_at_utc s\<rparr>"

lemma no_skew_self: "\<not> hasExcessiveClockSkew P t t"
  by (auto simp: hasExcessiveClockSkew_def hasExcessiveClockSkew_within_def split: option.splits)

lemma sample_resolve:
  "user_identities d = [] \<Longrightarrow>
     resolveCanonicalUserId map_redis now v u (d, \<lambda>k. None)
     = (None, if map_of VALID_VENDORS v = None then \<lambda>k. None
              else resolve_write map_redis now v u None (\<lambda>k. None))"
  by (auto simp: resolveCanonicalUserId_def resolve_read_def map_redis_empty lookup_identity_def
      split: option.splits)

lemma sample_db_facts: "db_inv sample_db" "outbox_inv sample_db" "user_identities empty_db = []" "user_identities sample_db = []"
  using upsert_db_inv [OF empty_db_inv(1) sample_upsert] upsert_outbox_inv [OF empty_db_inv(2) sample_upsert]
  by (simp_all add: empty_db_def sample_db_def)

lemma sample_begin:
  "process_step sample_env 7 (sample_job sample_normalised) Begin sample_world
   = (Inr (Upserting sample_normalised), sample_world\<lparr>w_redis :=
        resolve_write map_redis 7 (vendor_string (vendor sample_normalised))
          (vendor_user_id sample_normalised) None (\<lambda>k. None)\<rparr>)"
  by (simp add: sample_job_def no_skew_self sample_env_def sample_world_def sample_resolve sample_db_facts
      resolved_shot_def)

lemma sample_stored:
  "process_step sample_env 0 (sample_job sample_normalised) (Upserting sample_normalised) (sample_world\<lparr>w_redis := r\<rparr>)
   = (Inr (Checking sample_normalised (canonical_shot_id sample_normalised)),
      sample_world\<lparr>w_db := sample_db, w_redis := r\<rparr>)"
  using sample_upsert by (simp add: sample_world_def)

theorem pipeline_invariant_witness:
  "\<exists>s :: map_store System. w_db (sys_world s) = sample_db \<and> db_inv (w_db (sys_world s)) \<and> outbox_inv (w_db (sys_world s))"
proof -
  let ?s0 = "\<lparr>sys_world = sample_world, sys_jobs = [], sys_events = []\<rparr>"
  let ?r = "resolve_write map_redis 7 (vendor_string (vendor sample_normalised))
              (vendor_user_id sample_normalised) None (\<lambda>k. None)"
  let ?job = "sample_job sample_normalised"
  let ?s1 = "?s0\<lparr>sys_jobs := [(?job, Begin)]\<rparr>"
  let ?s2 = "?s0\<lparr>sys_world := sample_world\<lparr>w_redis := ?r\<rparr>, sys_jobs := [(?job, Upserting sample_normalised)]\<rparr>"
  let ?s3 = "?s0\<lparr>sys_world := sample_world\<lparr>w_db := sample_db, w_redis := ?r\<rparr>,
               sys_jobs := [(?job, Checking sample_normalised (canonical_shot_id sample_normalised))]\<rparr>"
  have "sys_reachable sample_env ?s0 ?s1"
    using sys_reachable.step [OF sys_reachable.start sys_step.arrive [of sample_env ?s0 ?job]] by simp
  moreover have "sys_step sample_env ?s1 ?s2"
    using sys_step.advance [of 0 ?s1 ?job Begin sample_env 7] sample_begin by simp
  moreover have "sys_step sample_env ?s2 ?s3"
    using sys_step.advance [of 0 ?s2 ?job "Upserting sample_normalised" sample_env 0] sample_stored by simp
  ultimately have "sys_reachable sample_env ?s0 ?s3" by (meson sys_reachable.step)
  from pipeline_invariant [OF this] show ?thesis by (intro exI [of _ ?s3]) (simp add: sample_world_def)
qed


text \<open>C17: What a run of the handler does. It always ends. A job outside the clock window is the one
  outcome that stores no shot: one failure record with the redacted payload is appended, nothing
  else. Otherwise, when the run succeeds, the shot's key is stored; an exact duplicate changes no
  table; an accepted shot or near duplicate has its row and an event whose payload is that row
  (the near duplicate's, with its \<open>duplicate_of\<close>). Each run counts exactly one outcome.\<close>

theorem process_outcomes:
  assumes "db_inv (w_db w)" and "outbox_inv (w_db w)"
  shows "case process env now job w of
           (None, w') \<Rightarrow> False
         | (Some (Inl e), w') \<Rightarrow> counted (w_metrics w') = counted (w_metrics w)
         | (Some (Inr oc), w') \<Rightarrow>
             counted (w_metrics w') = counted (w_metrics w) @ [oc]
             \<and> (if hasExcessiveClockSkew (we_platform env) (captured_at_utc (j_normalisedShot job)) (j_receivedAtUtc job)
                then oc = Rejected_clock
                  \<and> w_db w' = (w_db w)\<lparr>ingestion_failures := ingestion_failures (w_db w) @ [clock_failure env job]\<rparr>
                else findByIdempotencyKey (vendor (j_normalisedShot job)) (idempotency_key (j_normalisedShot job)) (w_db w') \<noteq> None
                  \<and> (if oc = Duplicate_exact then w_db w' = w_db w
                     else oc \<in> {Duplicate_near, Accepted}
                       \<and> row_and_event (canonical_shot_id (j_normalisedShot job)) (w_db w')
                       \<and> (oc = Duplicate_near \<longrightarrow>
                            (\<exists>r \<in> set (shots (w_db w')). canonical_shot_id r = canonical_shot_id (j_normalisedShot job)
                               \<and> duplicate_of r \<noteq> None))))"
proof (cases "hasExcessiveClockSkew (we_platform env) (captured_at_utc (j_normalisedShot job)) (j_receivedAtUtc job)")
  case True
  then show ?thesis
    by (simp add: process_skew recordIngestionFailure_def inc_def count_shot_def)
next
  case False
  let ?shot = "j_normalisedShot job"
  obtain c r where cr: "resolveCanonicalUserId (we_redis env) now (vendor_string (vendor ?shot))
      (vendor_user_id ?shot) (w_db w, w_redis w) = (c, r)" by fastforce
  let ?s = "resolved_shot c ?shot" and ?w = "w\<lparr>w_redis := r\<rparr>"
  note run = process_no_skew [OF False cr]
  obtain res w' where pr: "run_stages 3 env now job (Upserting ?s) ?w = (res, w')" by fastforce
  have ends: "res \<noteq> None" using run_stages_ends [of "Upserting ?s" 3 env now job ?w] pr by simp
  show ?thesis
  proof (cases "\<exists>oc. res = Some (Inr oc)")
    case True
    then obtain oc where oc: "res = Some (Inr oc)" by blast
    then have "stored_effect ?s ?w oc w'" using run_from_upsert_stored [of ?w env now job ?s oc w'] assms pr by simp
    then show ?thesis
      using pr oc False by (cases oc) (auto simp: run stored_effect_def)
  next
    case nr: False
    then obtain e where e: "res = Some (Inl e)" using ends by (cases res) (auto, metis sumE)
    have "w_metrics w' = w_metrics w"
      using pr e by (auto simp: run_from_upsert inc_def split: sum.splits prod.splits if_splits option.splits)
    then show ?thesis using pr e by (simp add: run)
  qed
qed

text \<open>Processing the sample shot again, in a world that holds it.\<close>

lemma sample_again:
  "\<exists>w'. process sample_env 9 (sample_job sample_normalised) (sample_world\<lparr>w_db := sample_db\<rparr>)
        = (Some (Inr Duplicate_exact), w')"
proof -
  let ?job = "sample_job sample_normalised"
  have noskew: "\<not> hasExcessiveClockSkew (we_platform sample_env)
      (captured_at_utc (j_normalisedShot ?job)) (j_receivedAtUtc ?job)"
    by (simp add: sample_job_def no_skew_self)
  obtain c r where cr: "resolveCanonicalUserId (we_redis sample_env) 9 (vendor_string (vendor (j_normalisedShot ?job)))
      (vendor_user_id (j_normalisedShot ?job)) (sample_db, w_redis sample_world) = (c, r)" by fastforce
  then have "c = None" by (simp add: sample_env_def sample_world_def sample_job_def sample_resolve sample_db_facts)
  moreover have "upsertIfNew 9 sample_normalised sample_db
      = Inr (\<lparr>up_inserted = False, up_canonical_shot_id = canonical_shot_id sample_normalised\<rparr>, sample_db)"
    using sample_check by (simp add: upsertIfNew_def sample_db_def)
  ultimately show ?thesis
    using cr by (subst process_no_skew [OF noskew, of 9 _ c r])
      (simp_all add: run_from_upsert resolved_shot_def sample_job_def)
qed

theorem process_outcomes_witness:
  "\<exists>oc w'. process sample_env 9 (sample_job sample_normalised) (sample_world\<lparr>w_db := sample_db\<rparr>) = (Some (Inr oc), w')
     \<and> counted (w_metrics w') = [oc]"
proof -
  obtain w' where p: "process sample_env 9 (sample_job sample_normalised) (sample_world\<lparr>w_db := sample_db\<rparr>)
        = (Some (Inr Duplicate_exact), w')"
    using sample_again by blast
  with process_outcomes [where w = "sample_world\<lparr>w_db := sample_db\<rparr>" and env = sample_env and now = 9
      and job = "sample_job sample_normalised"]
  have "counted (w_metrics w') = counted (w_metrics sample_world) @ [Duplicate_exact]"
    by (simp add: sample_db_facts)
  then show ?thesis using p by (simp add: sample_world_def)
qed


text \<open>Every attempt of a job whose shot the table refuses.\<close>

lemma refused_run:
  assumes "\<And>c. \<not> shots_check ((j_normalisedShot job)\<lparr>canonical_user_id := c\<rparr>)" and "nows \<noteq> []"
    and "\<not> hasExcessiveClockSkew (we_platform env) (captured_at_utc (j_normalisedShot job)) (j_receivedAtUtc job)"
  shows "case run_job env nows job w of (res, w') \<Rightarrow>
           res = Some (Inl DbError) \<and> w_db w' = w_db w
           \<and> counted (w_metrics w') = counted (w_metrics w) @ replicate (length nows) Failed"
  using assms(2)
proof (induction nows arbitrary: w)
  case (Cons now nows)
  let ?shot = "j_normalisedShot job"
  obtain c r where cr: "resolveCanonicalUserId (we_redis env) now (vendor_string (vendor ?shot))
      (vendor_user_id ?shot) (w_db w, w_redis w) = (c, r)" by fastforce
  have "\<not> shots_check (resolved_shot c ?shot)"
    using assms(1) [of "canonical_user_id ?shot"] assms(1) [of c]
    by (auto simp: resolved_shot_def split: option.splits)
  then have p: "process env now job w = (Some (Inl DbError), w\<lparr>w_redis := r\<rparr>)"
    by (simp add: process_no_skew [OF assms(3) cr] run_from_upsert upsertIfNew_def)
  let ?w = "onFailed (Some job) (w\<lparr>w_redis := r\<rparr>)"
  have w: "w_db ?w = w_db w" "counted (w_metrics ?w) = counted (w_metrics w) @ [Failed]"
    by (simp_all add: onFailed_def Let_def inc_def)
  show ?case
  proof (cases nows)
    case Nil
    then show ?thesis using w p by simp
  next
    case (Cons n ns)
    then show ?thesis using Cons.IH [of ?w] w p by (simp split: prod.splits)
  qed
qed simp

text \<open>A shot the table's checks refuse is lost. Its job fails at every attempt; after the last one
  the database is as it was: no row, no event, and no failure record either. Each attempt counts
  one failed job and one failed shot, although the log line and the metric speak of a job that
  has failed permanently.\<close>

theorem refused_shot_lost:
  assumes "\<And>c. \<not> shots_check ((j_normalisedShot job)\<lparr>canonical_user_id := c\<rparr>)" and "nows \<noteq> []"
    and "\<not> hasExcessiveClockSkew (we_platform env) (captured_at_utc (j_normalisedShot job)) (j_receivedAtUtc job)"
  shows "case run_job env nows job w of (res, w') \<Rightarrow>
           res = Some (Inl DbError) \<and> w_db w' = w_db w
           \<and> counted (w_metrics w') = counted (w_metrics w) @ replicate (length nows) Failed"
  by (rule refused_run [OF assms])

text \<open>A ball speed the payload schema admits and the table does not.\<close>

theorem refused_shot_lost_witness:
  "fst (run_job sample_env [0, 1, 3, 7, 15] (sample_job (sample_normalised\<lparr>ball_speed_mps := 120\<rparr>)) sample_world)
   = Some (Inl DbError)"
proof -
  have "\<not> shots_check ((j_normalisedShot (sample_job (sample_normalised\<lparr>ball_speed_mps := 120\<rparr>)))\<lparr>canonical_user_id := c\<rparr>)" for c
    by (simp add: shots_check_def sample_job_def)
  from refused_shot_lost [OF this, of "[0, 1, 3, 7, 15]" sample_env sample_world] show ?thesis
    by (simp add: sample_job_def no_skew_self split: prod.splits)
qed

text \<open>A crash between the upsert and the near-duplicate check loses the check for good: the retry
  finds the shot stored, ends as an exact duplicate and changes no table, so the row and its
  event keep the \<open>duplicate_of\<close> they were inserted with, whatever near duplicates are stored.\<close>

theorem crash_loses_near_duplicate:
  assumes "db_inv (w_db w)"
    and "process_step env now job (Upserting s) w = (Inr (Checking s sid), w1)"
    and "\<not> hasExcessiveClockSkew (we_platform env) (captured_at_utc (j_normalisedShot job)) (j_receivedAtUtc job)"
    and "\<And>now'. resolved_shot (fst (resolveCanonicalUserId (we_redis env) now' (vendor_string (vendor (j_normalisedShot job)))
           (vendor_user_id (j_normalisedShot job)) (w_db w1, w_redis w1))) (j_normalisedShot job) = s"
  shows "case process env now' job w1 of (res, w2) \<Rightarrow>
           res = Some (Inr Duplicate_exact) \<and> w_db w2 = w_db w1
           \<and> s \<in> set (shots (w_db w2))"
proof -
  obtain r d where u: "upsertIfNew now s (w_db w) = Inr (r, d)" "up_inserted r" "w1 = w\<lparr>w_db := d\<rparr>"
    using assms(2) by (auto split: sum.splits prod.splits if_splits)
  have inv: "db_inv d" by (rule upsert_db_inv [OF assms(1) u(1)])
  have s: "s \<in> set (shots d)" "shots_check s" using u(1,2) by (auto simp: upsertIfNew_Inr)
  then have "find (\<lambda>r. shot_key r = shot_key s) (shots d) = Some s"
    using inv by (intro find_unique) (simp_all add: db_inv_def)
  then have again: "upsertIfNew now' s d = Inr (\<lparr>up_inserted = False, up_canonical_shot_id = canonical_shot_id s\<rparr>, d)"
    using s(2) by (simp add: upsertIfNew_def)
  obtain c q where cq: "resolveCanonicalUserId (we_redis env) now' (vendor_string (vendor (j_normalisedShot job)))
           (vendor_user_id (j_normalisedShot job)) (w_db w1, w_redis w1) = (c, q)" by fastforce
  then have "resolved_shot c (j_normalisedShot job) = s" using assms(4) [of now'] by simp
  then show ?thesis
    unfolding process_no_skew [OF assms(3) cq] using again s(1) u(3) by (simp add: run_from_upsert inc_def)
qed

theorem crash_loses_near_duplicate_witness:
  "\<exists>w2. process sample_env 9 (sample_job sample_normalised) (sample_world\<lparr>w_db := sample_db\<rparr>)
        = (Some (Inr Duplicate_exact), w2)"
proof -
  have step: "process_step sample_env 0 (sample_job sample_normalised) (Upserting sample_normalised) sample_world
      = (Inr (Checking sample_normalised (canonical_shot_id sample_normalised)), sample_world\<lparr>w_db := sample_db\<rparr>)"
    using sample_upsert by (simp add: sample_world_def)
  have "resolved_shot (fst (resolveCanonicalUserId (we_redis sample_env) now'
          (vendor_string (vendor (j_normalisedShot (sample_job sample_normalised))))
          (vendor_user_id (j_normalisedShot (sample_job sample_normalised)))
          (w_db (sample_world\<lparr>w_db := sample_db\<rparr>), w_redis (sample_world\<lparr>w_db := sample_db\<rparr>))))
          (j_normalisedShot (sample_job sample_normalised)) = sample_normalised" for now'
    by (simp add: sample_env_def sample_world_def sample_job_def sample_resolve sample_db_facts resolved_shot_def)
  from crash_loses_near_duplicate [OF _ step _ this, of 9] show ?thesis
    by (auto simp: sample_world_def empty_db_inv sample_job_def no_skew_self)
qed


lemma filter_update_where:
  "(\<And>r. p (f r) \<longleftrightarrow> p r) \<Longrightarrow> filter p (update_where q f rows) = update_where q f (filter p rows)"
  by (induction rows) (auto simp: update_where_def)

lemma near_rows_flag:
  "near_rows P s t (flag_duplicate x o1 d)
   = update_where (\<lambda>r. canonical_shot_id r = x) (\<lambda>r. r\<lparr>duplicate_of := Some o1\<rparr>) (near_rows P s t d)"
  by (simp add: near_rows_def flag_duplicate_def filter_update_where)

lemma flag_member:
  "r \<in> set (shots d) \<Longrightarrow>
     (if canonical_shot_id r = x then r\<lparr>duplicate_of := Some o1\<rparr> else r) \<in> set (shots (flag_duplicate x o1 d))"
  unfolding flag_duplicate_def update_where_def by simp

text \<open>Two workers can make two shots duplicates of each other. When both shots of a pair are
  inserted before either is checked, each check finds the other: afterwards each row names the
  other as its original, and no original is left.\<close>

theorem mutual_near_duplicates:
  assumes "captured_at_utc a = iso_format ta" and "\<bar>ta\<bar> \<le> 8640000000000000 - 60000"
    and "captured_at_utc b = iso_format tb" and "\<bar>tb\<bar> \<le> 8640000000000000 - 60000"
    and "near_rows (we_platform env) a ta (w_db w) = [b]" and "near_rows (we_platform env) b tb (w_db w) = [a]"
  shows "\<exists>w1 w2. process_step env now ja (Checking a (canonical_shot_id a)) w
                   = (Inr (Propagating (canonical_shot_id a) (canonical_shot_id b)), w1)
           \<and> process_step env now jb (Checking b (canonical_shot_id b)) w1
                   = (Inr (Propagating (canonical_shot_id b) (canonical_shot_id a)), w2)
           \<and> (\<exists>r \<in> set (shots (w_db w2)). canonical_shot_id r = canonical_shot_id a \<and> duplicate_of r = Some (canonical_shot_id b))
           \<and> (\<exists>r \<in> set (shots (w_db w2)). canonical_shot_id r = canonical_shot_id b \<and> duplicate_of r = Some (canonical_shot_id a))"
proof -
  let ?P = "we_platform env" and ?d = "w_db w" and ?a = "canonical_shot_id a" and ?b = "canonical_shot_id b"
  let ?d1 = "flag_duplicate ?a ?b ?d"
  let ?d2 = "flag_duplicate ?b ?a ?d1"
  have mem: "a \<in> set (shots ?d)" "b \<in> set (shots ?d)" "?a \<noteq> ?b"
    using arg_cong [OF assms(5), of set] arg_cong [OF assms(6), of set] by (auto simp: near_rows_def)
  let ?m = "\<lambda>j. [NearDuplicates (vendor_string (vendor (j_normalisedShot j))), count_shot (j_normalisedShot j) Duplicate_near]"
  let ?w1 = "inc (?m ja) (w\<lparr>w_db := ?d1\<rparr>)"
  let ?w2 = "inc (?m jb) (?w1\<lparr>w_db := ?d2\<rparr>)"
  have "checkAndFlagNearDuplicates ?P a ?d = Inr (Some ?b, ?d1)"
    using assms(5) by (simp add: check_result [OF assms(1,2)] first_captured_def)
  then have p1: "process_step env now ja (Checking a ?a) w = (Inr (Propagating ?a ?b), ?w1)"
    by (simp add: Let_def)
  have "checkAndFlagNearDuplicates ?P b ?d1 = Inr (Some ?a, ?d2)"
    using assms(6) by (simp add: check_result [OF assms(3,4)] near_rows_flag update_where_def first_captured_def)
  then have p2: "process_step env now jb (Checking b ?b) ?w1 = (Inr (Propagating ?b ?a), ?w2)"
    by (simp add: Let_def inc_def)
  have w2: "shots (w_db ?w2) = shots ?d2" by (simp add: inc_def)
  have rows: "a\<lparr>duplicate_of := Some ?b\<rparr> \<in> set (shots ?d2)" "b\<lparr>duplicate_of := Some ?a\<rparr> \<in> set (shots ?d2)"
    using mem(3) flag_member [OF flag_member [OF mem(1), of ?a ?b], of ?b ?a]
      flag_member [OF flag_member [OF mem(2), of ?a ?b], of ?b ?a] by simp_all
  have "\<exists>r \<in> set (shots (w_db ?w2)). canonical_shot_id r = ?a \<and> duplicate_of r = Some ?b"
    "\<exists>r \<in> set (shots (w_db ?w2)). canonical_shot_id r = ?b \<and> duplicate_of r = Some ?a"
    unfolding w2 by (rule bexI [OF _ rows(1)], simp) (rule bexI [OF _ rows(2)], simp)
  with p1 p2 show ?thesis by blast
qed

theorem mutual_near_duplicates_witness:
  "\<exists>w2. \<exists>r \<in> set (shots (w_db w2)). \<exists>q \<in> set (shots (w_db (w2 :: map_store World))).
     duplicate_of r = Some ''b'' \<and> duplicate_of q = Some ''a''"
proof -
  let ?a = "sample_at ''a'' 1705307460000" and ?b = "sample_at ''b'' 1705307460000"
  let ?w = "sample_world\<lparr>w_db := empty_db\<lparr>shots := [?a, ?b]\<rparr>\<rparr>"
  have t: "\<bar>1705307460000 :: int\<bar> \<le> 8640000000000000 - 60000" by simp
  have "near_rows sample_platform ?a 1705307460000 (w_db ?w) = [?b]"
    "near_rows sample_platform ?b 1705307460000 (w_db ?w) = [?a]"
    by (simp_all add: near_rows_def sample_at_fields)
  then have "near_rows (we_platform sample_env) ?a 1705307460000 (w_db ?w) = [?b]"
    "near_rows (we_platform sample_env) ?b 1705307460000 (w_db ?w) = [?a]"
    by (simp_all add: sample_env_def)
  from mutual_near_duplicates [OF sample_at_fields(2) t sample_at_fields(2) t this]
  show ?thesis by (auto simp only: sample_at_fields) blast
qed

end
