(* ===== verification/Metrics.thy ===== *)
theory Metrics
  imports Prelude
begin

text \<open>
  \<open>shared/metrics/ingest-metrics.ts\<close>, the start-up part of \<open>shared/metrics/metrics.module.ts\<close>, and
  the depth gauge of \<open>ingestion/shot-ingestion.queue.ts\<close>. The six metrics are created on first use
  and kept in module variables. prom-client is a parameter: a record of the two calls made on a
  registry of any type, with its documented behaviour as the predicate \<open>prom_ok\<close>. The module
  variables are a map from metric names to the metrics they hold.
\<close>

section \<open>prom-client\<close>

datatype MetricKind = Counter | Histogram "nat list" | Gauge

record MetricSpec =
  ms_kind :: MetricKind
  ms_name :: js_string
  ms_help :: js_string
  ms_labelNames :: "js_string list"

text \<open>The constructors throw (\<open>None\<close>) on a name that is already registered; \<open>getSingleMetric\<close> finds
  what is registered under a name.\<close>

record ('m, 'r) PromClient =
  pc_new :: "MetricSpec \<Rightarrow> 'r \<Rightarrow> ('m \<times> 'r) option"
  pc_getSingleMetric :: "js_string \<Rightarrow> 'r \<Rightarrow> 'm option"

definition prom_ok :: "('m, 'r) PromClient \<Rightarrow> ('m \<Rightarrow> MetricSpec) \<Rightarrow> bool" where
  "prom_ok C described \<longleftrightarrow>
     (\<forall>s r. pc_new C s r = None \<longleftrightarrow> pc_getSingleMetric C (ms_name s) r \<noteq> None)
     \<and> (\<forall>s r m r'. pc_new C s r = Some (m, r') \<longrightarrow> described m = s
          \<and> (\<forall>n. pc_getSingleMetric C n r' = (if n = ms_name s then Some m else pc_getSingleMetric C n r)))"

section \<open>The metrics\<close>

definition shots_total :: MetricSpec where
  "shots_total = \<lparr>ms_kind = Counter, ms_name = ''pureplay_ingest_shots_total'', ms_help = ''Ingest funnel counts'',
     ms_labelNames = [''vendor'', ''outcome'', ''parser_version'']\<rparr>"

definition e2e_lag :: MetricSpec where
  "e2e_lag = \<lparr>ms_kind = Histogram [50, 100, 250, 500, 1000, 2500, 5000, 10000],
     ms_name = ''pureplay_ingest_e2e_lag_ms'', ms_help = ''Lag from received_at_utc to DB row visible (ms)'',
     ms_labelNames = [''vendor'']\<rparr>"

definition near_duplicates :: MetricSpec where
  "near_duplicates = \<lparr>ms_kind = Counter, ms_name = ''pureplay_ingest_near_duplicates_total'',
     ms_help = ''Near-duplicate detections (duplicate_of set)'', ms_labelNames = [''vendor'']\<rparr>"

definition queue_depth :: MetricSpec where
  "queue_depth = \<lparr>ms_kind = Gauge, ms_name = ''pureplay_ingest_queue_depth'',
     ms_help = ''Current BullMQ waiting job count'', ms_labelNames = []\<rparr>"

definition jobs_failed :: MetricSpec where
  "jobs_failed = \<lparr>ms_kind = Counter, ms_name = ''pureplay_ingest_jobs_failed_total'',
     ms_help = ''BullMQ jobs that failed all retry attempts (dead-lettered)'', ms_labelNames = [''vendor'']\<rparr>"

definition auth_failures :: MetricSpec where
  "auth_failures = \<lparr>ms_kind = Counter, ms_name = ''pureplay_ingest_auth_failures_total'',
     ms_help = ''Webhook authentication failures by vendor and mode'', ms_labelNames = [''vendor'', ''mode'']\<rparr>"

lemmas metric_specs = shots_total_def e2e_lag_def near_duplicates_def queue_depth_def jobs_failed_def auth_failures_def

text \<open>The body that all six getters have: the variable, else a new metric, else the registered one.\<close>

type_synonym ('m, 'r) metrics_state = "(js_string \<rightharpoonup> 'm) \<times> 'r"

definition get_metric ::
    "('m, 'r) PromClient \<Rightarrow> MetricSpec \<Rightarrow> ('m, 'r) metrics_state \<Rightarrow> 'm option \<times> ('m, 'r) metrics_state" where
  "get_metric C spec = (\<lambda>(vars, r).
     case vars (ms_name spec) of
       Some m \<Rightarrow> (Some m, (vars, r))
     | None \<Rightarrow>
         (case pc_new C spec r of
            Some (m, r') \<Rightarrow> (Some m, (vars(ms_name spec \<mapsto> m), r'))
          | None \<Rightarrow>
              let m = pc_getSingleMetric C (ms_name spec) r in (m, (vars(ms_name spec := m), r))))"

definition getShotsTotal :: "('m, 'r) PromClient \<Rightarrow> ('m, 'r) metrics_state \<Rightarrow> 'm option \<times> ('m, 'r) metrics_state" where
  "getShotsTotal C = get_metric C shots_total"

definition getE2eLag :: "('m, 'r) PromClient \<Rightarrow> ('m, 'r) metrics_state \<Rightarrow> 'm option \<times> ('m, 'r) metrics_state" where
  "getE2eLag C = get_metric C e2e_lag"

definition getNearDuplicates :: "('m, 'r) PromClient \<Rightarrow> ('m, 'r) metrics_state \<Rightarrow> 'm option \<times> ('m, 'r) metrics_state" where
  "getNearDuplicates C = get_metric C near_duplicates"

definition getQueueDepth :: "('m, 'r) PromClient \<Rightarrow> ('m, 'r) metrics_state \<Rightarrow> 'm option \<times> ('m, 'r) metrics_state" where
  "getQueueDepth C = get_metric C queue_depth"

definition getJobsFailed :: "('m, 'r) PromClient \<Rightarrow> ('m, 'r) metrics_state \<Rightarrow> 'm option \<times> ('m, 'r) metrics_state" where
  "getJobsFailed C = get_metric C jobs_failed"

definition getAuthFailures :: "('m, 'r) PromClient \<Rightarrow> ('m, 'r) metrics_state \<Rightarrow> 'm option \<times> ('m, 'r) metrics_state" where
  "getAuthFailures C = get_metric C auth_failures"

text \<open>The module's body runs them all when it is loaded.\<close>

definition register_all :: "('m, 'r) PromClient \<Rightarrow> ('m, 'r) metrics_state \<Rightarrow> ('m, 'r) metrics_state" where
  "register_all C st =
     snd (getAuthFailures C (snd (getJobsFailed C (snd (getQueueDepth C
       (snd (getNearDuplicates C (snd (getE2eLag C (snd (getShotsTotal C st)))))))))))"

definition getters :: "(('m, 'r) PromClient \<Rightarrow> ('m, 'r) metrics_state \<Rightarrow> 'm option \<times> ('m, 'r) metrics_state) list" where
  "getters = [getShotsTotal, getE2eLag, getNearDuplicates, getQueueDepth, getJobsFailed, getAuthFailures]"

section \<open>One metric per name\<close>

text \<open>Every variable that is set holds what the registry has under its name.\<close>

definition synced :: "('m, 'r) PromClient \<Rightarrow> ('m, 'r) metrics_state \<Rightarrow> bool" where
  "synced C = (\<lambda>(vars, r). \<forall>n m. vars n = Some m \<longrightarrow> pc_getSingleMetric C n r = Some m)"

abbreviation registered :: "('m, 'r) PromClient \<Rightarrow> ('m, 'r) metrics_state \<Rightarrow> js_string \<Rightarrow> 'm option" where
  "registered C st n \<equiv> pc_getSingleMetric C n (snd st)"

lemma get_metric_synced:
  assumes "prom_ok C described" and "synced C st" and "get_metric C spec st = (m, st')"
  shows "synced C st' \<and> m \<noteq> None \<and> registered C st' (ms_name spec) = m \<and> fst st' (ms_name spec) = m
       \<and> (\<forall>n. registered C st n \<noteq> None \<longrightarrow> registered C st' n = registered C st n)
       \<and> (\<forall>n. n \<noteq> ms_name spec \<longrightarrow> registered C st' n = registered C st n)
       \<and> (registered C st (ms_name spec) = None \<longrightarrow> (\<exists>x. m = Some x \<and> described x = spec))"
proof -
  obtain vars r where st: "st = (vars, r)" by (cases st)
  show ?thesis
  proof (cases "vars (ms_name spec)")
    case (Some x)
    then have "m = Some x" "st' = (vars, r)" using assms(3) by (simp_all add: st get_metric_def)
    moreover have "pc_getSingleMetric C (ms_name spec) r = Some x" using assms(2) Some by (simp add: st synced_def)
    ultimately show ?thesis using assms(2) Some by (simp add: st)
  next
    case None
    show ?thesis
    proof (cases "pc_new C spec r")
      case fresh: None
      then have "pc_getSingleMetric C (ms_name spec) r \<noteq> None" using assms(1) by (simp add: prom_ok_def)
      then show ?thesis using assms fresh None by (auto simp: st get_metric_def synced_def Let_def split: if_splits)
    next
      case (Some p)
      then obtain x r' where p: "pc_new C spec r = Some (x, r')" by (cases p) auto
      have law: "described x = spec"
        "\<And>n. pc_getSingleMetric C n r' = (if n = ms_name spec then Some x else pc_getSingleMetric C n r)"
        using assms(1) p by (auto simp: prom_ok_def)
      have "pc_getSingleMetric C (ms_name spec) r = None" using assms(1) p by (metis option.distinct(1) prom_ok_def)
      then show ?thesis using assms p None law by (auto simp: st get_metric_def synced_def)
    qed
  qed
qed

text \<open>Any sequence of calls: what each of them returned, and the final state.\<close>

fun get_metrics ::
    "('m, 'r) PromClient \<Rightarrow> MetricSpec list \<Rightarrow> ('m, 'r) metrics_state \<Rightarrow> 'm option list \<times> ('m, 'r) metrics_state" where
  "get_metrics C [] st = ([], st)"
| "get_metrics C (spec # specs) st =
     (let (m, st1) = get_metric C spec st; (ms, st2) = get_metrics C specs st1 in (m # ms, st2))"

lemma get_metrics_stable:
  assumes "prom_ok C described" and "synced C st" and "get_metrics C specs st = (ms, st')"
  shows "synced C st' \<and> map (\<lambda>s. registered C st' (ms_name s)) specs = ms \<and> None \<notin> set ms
       \<and> (\<forall>n. registered C st n \<noteq> None \<or> n \<notin> ms_name ` set specs \<longrightarrow> registered C st' n = registered C st n)"
  using assms(2,3)
proof (induction specs arbitrary: st ms)
  case (Cons spec specs)
  obtain m st1 where 1: "get_metric C spec st = (m, st1)" by (cases "get_metric C spec st")
  obtain ms1 where 2: "get_metrics C specs st1 = (ms1, st')" "ms = m # ms1"
    using Cons.prems(2) 1 by (auto simp: Let_def split: prod.splits)
  have g: "synced C st1" "m \<noteq> None" "registered C st1 (ms_name spec) = m"
    "\<And>n. registered C st n \<noteq> None \<Longrightarrow> registered C st1 n = registered C st n"
    "\<And>n. n \<noteq> ms_name spec \<Longrightarrow> registered C st1 n = registered C st n"
    using get_metric_synced [OF assms(1) Cons.prems(1) 1] by blast+
  have ih: "synced C st'" "map (\<lambda>s. registered C st' (ms_name s)) specs = ms1" "None \<notin> set ms1"
    "\<And>n. registered C st1 n \<noteq> None \<or> n \<notin> ms_name ` set specs \<Longrightarrow> registered C st' n = registered C st1 n"
    using Cons.IH [OF g(1) 2(1)] by blast+
  have "registered C st' (ms_name spec) = m" using ih(4) [of "ms_name spec"] g(2,3) by auto
  moreover have "registered C st' n = registered C st n"
    if "registered C st n \<noteq> None \<or> n \<notin> ms_name ` set (spec # specs)" for n
  proof (cases "registered C st n = None")
    case True
    with that have n: "n \<noteq> ms_name spec" "n \<notin> ms_name ` set specs" by auto
    then show ?thesis using ih(4) [of n] g(5) [of n] by auto
  next
    case False
    then show ?thesis using ih(4) [of n] g(4) [of n] by auto
  qed
  ultimately show ?case using ih(1-3) g(2) 2(2) by auto
qed simp

definition all_specs :: "MetricSpec list" where
  "all_specs = [shots_total, e2e_lag, near_duplicates, queue_depth, jobs_failed, auth_failures]"

lemma register_all_specs: "register_all C st = snd (get_metrics C all_specs st)"
  by (simp add: register_all_def all_specs_def getShotsTotal_def getE2eLag_def getNearDuplicates_def
      getQueueDepth_def getJobsFailed_def getAuthFailures_def Let_def case_prod_beta)

lemma specs_distinct: "distinct (map ms_name all_specs)"
  unfolding all_specs_def metric_specs by code_simp

text \<open>Loading the module registers all six names, on whatever registry, and from then on every call of
  a getter, in any order and any number, returns the metric the registry exports under its name.\<close>

theorem metrics_registered:
  assumes "prom_ok C described"
  shows "(\<forall>spec \<in> set all_specs. registered C (register_all C (Map.empty, r)) (ms_name spec) \<noteq> None)
       \<and> (set specs \<subseteq> set all_specs \<longrightarrow>
            get_metrics C specs (register_all C (Map.empty, r))
              = (map (\<lambda>s. registered C (register_all C (Map.empty, r)) (ms_name s)) specs,
                 snd (get_metrics C specs (register_all C (Map.empty, r))))
            \<and> (\<forall>n. registered C (snd (get_metrics C specs (register_all C (Map.empty, r)))) n
                   = registered C (register_all C (Map.empty, r)) n))"
proof -
  let ?st = "register_all C (Map.empty, r)"
  have s0: "synced C (Map.empty, r)" by (simp add: synced_def)
  obtain ms where load: "get_metrics C all_specs (Map.empty, r) = (ms, ?st)"
    by (metis prod.collapse register_all_specs)
  have l: "synced C ?st" "map (\<lambda>s. registered C ?st (ms_name s)) all_specs = ms" "None \<notin> set ms"
    using get_metrics_stable [OF assms s0 load] by blast+
  have all: "\<forall>spec \<in> set all_specs. registered C ?st (ms_name spec) \<noteq> None"
    using l(2,3) by (metis (no_types, lifting) image_eqI list.set_map)
  obtain ms' st' where run: "get_metrics C specs ?st = (ms', st')" by (cases "get_metrics C specs ?st")
  note r = get_metrics_stable [OF assms l(1) run]
  have keep: "registered C st' n = registered C ?st n" if "set specs \<subseteq> set all_specs" for n
  proof -
    have "registered C ?st n \<noteq> None \<or> n \<notin> ms_name ` set specs" using all that by blast
    then show ?thesis using r by blast
  qed
  then have "set specs \<subseteq> set all_specs \<Longrightarrow> ms' = map (\<lambda>s. registered C ?st (ms_name s)) specs"
    using r by auto
  then show ?thesis using all run keep by simp
qed

section \<open>The depth gauge\<close>

text \<open>The interval of \<open>onModuleInit\<close> starts a call every ten seconds; its answer comes later, possibly
  after \<open>onModuleDestroy\<close>, and may be an error (\<open>None\<close>).\<close>

datatype poll_event = Module_init | Tick | Waiting_count "nat option" | Module_destroy

record DepthPoll =
  dp_interval :: bool
  dp_pending :: nat
  dp_gauge :: "nat option"

definition depth_poll :: "poll_event \<Rightarrow> DepthPoll \<Rightarrow> DepthPoll" where
  "depth_poll ev p =
     (case ev of
        Module_init \<Rightarrow> p\<lparr>dp_interval := True\<rparr>
      | Tick \<Rightarrow> if dp_interval p then p\<lparr>dp_pending := dp_pending p + 1\<rparr> else p
      | Waiting_count answer \<Rightarrow>
          if dp_pending p = 0 then p
          else (case answer of
                  Some count \<Rightarrow> p\<lparr>dp_pending := dp_pending p - 1, dp_gauge := Some count\<rparr>
                | None \<Rightarrow> p\<lparr>dp_pending := dp_pending p - 1\<rparr>)
      | Module_destroy \<Rightarrow> p\<lparr>dp_interval := False\<rparr>)"

definition run_polls :: "poll_event list \<Rightarrow> DepthPoll \<Rightarrow> DepthPoll" where
  "run_polls evs p = fold depth_poll evs p"

text \<open>After the module is destroyed at most the pending answers still reach the gauge, and failed polls
  leave it as it was.\<close>

lemma polls_after_destroy:
  assumes "Module_init \<notin> set evs"
  shows "dp_pending (run_polls evs (depth_poll Module_destroy p)) \<le> dp_pending p
       \<and> (dp_pending p = 0 \<longrightarrow> dp_gauge (run_polls evs (depth_poll Module_destroy p)) = dp_gauge p)"
proof -
  have "dp_pending (run_polls evs q) \<le> dp_pending q \<and> (dp_pending q = 0 \<longrightarrow> dp_gauge (run_polls evs q) = dp_gauge q)"
    if "\<not> dp_interval q" for q
    using assms that
  proof (induction evs arbitrary: q)
    case (Cons ev evs)
    let ?q = "depth_poll ev q"
    have "\<not> dp_interval ?q" "dp_pending ?q \<le> dp_pending q" "dp_pending q = 0 \<longrightarrow> dp_gauge ?q = dp_gauge q"
      using Cons.prems by (auto simp: depth_poll_def split: poll_event.splits option.splits)
    then show ?case using Cons.IH [of ?q] Cons.prems by (auto simp: run_polls_def)
  qed (simp add: run_polls_def)
  from this [of "depth_poll Module_destroy p"] show ?thesis by (simp add: depth_poll_def)
qed

lemma failed_polls_keep_gauge:
  "(\<And>c. Waiting_count (Some c) \<notin> set evs) \<Longrightarrow> dp_gauge (run_polls evs p) = dp_gauge p"
proof (induction evs arbitrary: p)
  case (Cons ev evs)
  have "dp_gauge (depth_poll ev p) = dp_gauge p"
    using Cons.prems by (auto simp: depth_poll_def split: poll_event.splits option.splits)
  then show ?case using Cons by (simp add: run_polls_def)
qed (simp add: run_polls_def)

end
