(* ===== verification/Env_Schema.thy ===== *)
theory Env_Schema
  imports Js_Value
begin

text \<open>
  \<open>config/env.schema.ts\<close>: the schema of the environment, the production checks, and
  \<open>validate\<close>, which either yields the typed configuration or stops the boot. The environment is a
  map from names to strings. An issue of the production checks keeps its path; its text is named by
  a constructor. zod runs \<open>superRefine\<close> only on an object whose fields were all accepted.
\<close>

section \<open>\<open>Number\<close> of a string\<close>

text \<open>\<open>Number(s)\<close>, with \<open>None\<close> for NaN: white space around an empty, decimal or prefixed literal.
  (An infinite value is a number too large for every field below.)\<close>

definition all_digits :: "js_string \<Rightarrow> bool" where
  "all_digits s \<longleftrightarrow> s \<noteq> [] \<and> list_all is_digit s"

definition exponent :: "js_string \<Rightarrow> int option" where
  "exponent s =
     (case s of
        [] \<Rightarrow> Some 0
      | c # cs \<Rightarrow>
          let (sg, ds) = parse_sign cs
          in if c \<in> {CHR ''e'', CHR ''E''} \<and> all_digits ds then Some (sg * int (undec ds)) else None)"

definition decimal_literal :: "js_string \<Rightarrow> number option" where
  "decimal_literal s =
     (let (sg, r) = parse_sign s;
          ip = takeWhile is_digit r; r1 = dropWhile is_digit r;
          dot = (take 1 r1 = ''.'');
          fp = (if dot then takeWhile is_digit (drop 1 r1) else []);
          r2 = (if dot then dropWhile is_digit (drop 1 r1) else r1)
      in if ip @ fp = [] then None
         else case exponent r2 of
                None \<Rightarrow> None
              | Some e \<Rightarrow> Some (fl (of_int sg * of_nat (undec (ip @ fp)) * 10 powi (e - int (length fp)))))"

definition radix_digit :: "char \<Rightarrow> nat" where
  "radix_digit c =
     (if is_digit c then digit_val c
      else if is_lower (lower_char c) then of_char (lower_char c) - 87 else 99)"

fun radix_val :: "nat \<Rightarrow> js_string \<Rightarrow> nat \<Rightarrow> nat option" where
  "radix_val b [] acc = Some acc"
| "radix_val b (c # cs) acc = (if radix_digit c < b then radix_val b cs (acc * b + radix_digit c) else None)"

definition radix_of :: "js_string \<Rightarrow> nat option" where
  "radix_of p = map_of [(''0x'', 16), (''0o'', 8), (''0b'', 2)] (toLowerCase p)"

definition Number :: "js_string \<Rightarrow> number option" where
  "Number s =
     (let t = trim s in
      if t = [] then Some 0
      else case radix_of (take 2 t) of
             Some b \<Rightarrow> if drop 2 t = [] then None
                       else map_option (\<lambda>n. fl (of_nat n)) (radix_val b (drop 2 t) 0)
           | None \<Rightarrow> decimal_literal t)"

section \<open>The typed environment\<close>

datatype NodeEnv = Development | Production | Testing

datatype AuthMode = AuthNone | ApiKey | Hmac

record Env =
  NODE_ENV :: NodeEnv
  DATABASE_URL :: js_string
  REDIS_URL :: js_string
  PORT :: int
  WEBHOOK_AUTH_MODE :: AuthMode
  TRACKPRO_API_KEY :: "js_string option"
  SWINGMETRIC_API_KEY :: "js_string option"
  PROSWING_API_KEY :: "js_string option"
  QUEUE_NAME :: js_string
  MAX_QUEUE_DEPTH :: int
  WORKER_CONCURRENCY :: int
  RUN_MIGRATIONS :: bool
  OTEL_SERVICE_NAME :: js_string
  OTEL_EXPORTER_OTLP_ENDPOINT :: "js_string option"
  DB_POOL_MAX :: int
  CORS_ORIGIN :: js_string
  TRACKPRO_HMAC_SECRET :: "js_string option"
  SWINGMETRIC_HMAC_SECRET :: "js_string option"
  PROSWING_HMAC_SECRET :: "js_string option"
  THROTTLE_ENABLED :: bool
  INTERNAL_API_KEY :: "js_string option"

section \<open>The fields\<close>

type_synonym environ = "(js_string \<times> js_string) list"

definition var :: "environ \<Rightarrow> js_string \<Rightarrow> jsval" where
  "var cfg k = opt_val JStr (map_of cfg k)"

definition z_default :: "'a \<Rightarrow> 'a schema \<Rightarrow> 'a schema" where
  "z_default d p v = (if v = JUndefined then Some d else p v)"

text \<open>\<open>z.string()\<close> and \<open>z.string().min(n)\<close>, without an upper bound.\<close>

definition z_min_string :: "nat \<Rightarrow> js_string schema" where
  "z_min_string n = z_format (\<lambda>s. n \<le> length s)"

text \<open>\<open>z.coerce.number().int().min(lo).max(hi)\<close> on strings.\<close>

definition z_coerce_int :: "int \<Rightarrow> int \<Rightarrow> int schema" where
  "z_coerce_int lo hi v =
     (case v of JStr s \<Rightarrow> (case Number s of Some x \<Rightarrow> z_int lo hi (JNum x) | None \<Rightarrow> None) | _ \<Rightarrow> None)"

definition z_enum_map :: "(js_string \<times> 'a) list \<Rightarrow> 'a schema" where
  "z_enum_map options v = (case v of JStr s \<Rightarrow> map_of options s | _ \<Rightarrow> None)"

definition true_false :: "(js_string \<times> bool) list" where
  "true_false = [(''true'', True), (''false'', False)]"

definition env_fields :: "environ \<Rightarrow> Env option" where
  "env_fields cfg =
     do { node \<leftarrow> z_default Development
                  (z_enum_map [(''development'', Development), (''production'', Production), (''test'', Testing)])
                  (var cfg ''NODE_ENV'');
          db \<leftarrow> z_min_string 1 (var cfg ''DATABASE_URL'');
          redis \<leftarrow> z_min_string 1 (var cfg ''REDIS_URL'');
          port \<leftarrow> z_default 3000 (z_coerce_int 1 65535) (var cfg ''PORT'');
          mode \<leftarrow> z_default AuthNone
                  (z_enum_map [(''none'', AuthNone), (''api_key'', ApiKey), (''hmac'', Hmac)])
                  (var cfg ''WEBHOOK_AUTH_MODE'');
          tk \<leftarrow> z_optional (z_min_string 1) (var cfg ''TRACKPRO_API_KEY'');
          sk \<leftarrow> z_optional (z_min_string 1) (var cfg ''SWINGMETRIC_API_KEY'');
          pk \<leftarrow> z_optional (z_min_string 1) (var cfg ''PROSWING_API_KEY'');
          queue \<leftarrow> z_default ''shot-ingestion'' (z_min_string 1) (var cfg ''QUEUE_NAME'');
          depth \<leftarrow> z_default 10000 (z_coerce_int 1 MAX_SAFE_INTEGER) (var cfg ''MAX_QUEUE_DEPTH'');
          conc \<leftarrow> z_default 16 (z_coerce_int 1 64) (var cfg ''WORKER_CONCURRENCY'');
          migrate \<leftarrow> z_default False (z_enum_map true_false) (var cfg ''RUN_MIGRATIONS'');
          service \<leftarrow> z_default ''pureplay-analytics-ingest'' (z_min_string 0) (var cfg ''OTEL_SERVICE_NAME'');
          endpoint \<leftarrow> z_optional (z_min_string 0) (var cfg ''OTEL_EXPORTER_OTLP_ENDPOINT'');
          pool \<leftarrow> z_default 20 (z_coerce_int 1 100) (var cfg ''DB_POOL_MAX'');
          cors \<leftarrow> z_default ''*'' (z_min_string 0) (var cfg ''CORS_ORIGIN'');
          th \<leftarrow> z_optional (z_min_string 1) (var cfg ''TRACKPRO_HMAC_SECRET'');
          sh \<leftarrow> z_optional (z_min_string 1) (var cfg ''SWINGMETRIC_HMAC_SECRET'');
          ph \<leftarrow> z_optional (z_min_string 1) (var cfg ''PROSWING_HMAC_SECRET'');
          throttle \<leftarrow> z_default True (z_enum_map true_false) (var cfg ''THROTTLE_ENABLED'');
          internal \<leftarrow> z_optional (z_min_string 32) (var cfg ''INTERNAL_API_KEY'');
          Some \<lparr>NODE_ENV = node, DATABASE_URL = db, REDIS_URL = redis, PORT = port,
                WEBHOOK_AUTH_MODE = mode, TRACKPRO_API_KEY = tk, SWINGMETRIC_API_KEY = sk,
                PROSWING_API_KEY = pk, QUEUE_NAME = queue, MAX_QUEUE_DEPTH = depth,
                WORKER_CONCURRENCY = conc, RUN_MIGRATIONS = migrate, OTEL_SERVICE_NAME = service,
                OTEL_EXPORTER_OTLP_ENDPOINT = endpoint, DB_POOL_MAX = pool, CORS_ORIGIN = cors,
                TRACKPRO_HMAC_SECRET = th, SWINGMETRIC_HMAC_SECRET = sh, PROSWING_HMAC_SECRET = ph,
                THROTTLE_ENABLED = throttle, INTERNAL_API_KEY = internal\<rparr> }"

section \<open>The production checks\<close>

datatype issue_text =
    ModeIsNone
  | NoVendorKey
  | KeyTooShort
  | ThrottleDisabled
  | NoInternalKey
  | CorsWildcard

type_synonym issue = "js_string \<times> issue_text"

definition api_keys :: "Env \<Rightarrow> (js_string \<times> js_string option) list" where
  "api_keys e =
     [(''TRACKPRO_API_KEY'', TRACKPRO_API_KEY e), (''SWINGMETRIC_API_KEY'', SWINGMETRIC_API_KEY e),
      (''PROSWING_API_KEY'', PROSWING_API_KEY e)]"

definition hmac_secrets :: "Env \<Rightarrow> (js_string \<times> js_string option) list" where
  "hmac_secrets e =
     [(''TRACKPRO_HMAC_SECRET'', TRACKPRO_HMAC_SECRET e), (''SWINGMETRIC_HMAC_SECRET'', SWINGMETRIC_HMAC_SECRET e),
      (''PROSWING_HMAC_SECRET'', PROSWING_HMAC_SECRET e)]"

text \<open>\<open>Boolean(v)\<close> on an optional string.\<close>

definition set_string :: "js_string option \<Rightarrow> bool" where
  "set_string v \<longleftrightarrow> v \<noteq> None \<and> v \<noteq> Some []"

definition key_issues :: "(js_string \<times> js_string option) list \<Rightarrow> issue list" where
  "key_issues ks =
     (if list_ex (\<lambda>(name, v). set_string v) ks then [] else [(''WEBHOOK_AUTH_MODE'', NoVendorKey)])
     @ map (\<lambda>(name, v). (name, KeyTooShort))
         (filter (\<lambda>(name, v). case v of Some s \<Rightarrow> length s < 32 | None \<Rightarrow> False) ks)"

definition production_issues :: "Env \<Rightarrow> issue list" where
  "production_issues e =
     (if NODE_ENV e = Production
      then (if WEBHOOK_AUTH_MODE e = AuthNone then [(''WEBHOOK_AUTH_MODE'', ModeIsNone)] else [])
           @ (if WEBHOOK_AUTH_MODE e = ApiKey then key_issues (api_keys e) else [])
           @ (if WEBHOOK_AUTH_MODE e = Hmac then key_issues (hmac_secrets e) else [])
           @ (if THROTTLE_ENABLED e then [] else [(''THROTTLE_ENABLED'', ThrottleDisabled)])
           @ (if set_string (INTERNAL_API_KEY e) then [] else [(''INTERNAL_API_KEY'', NoInternalKey)])
           @ (if CORS_ORIGIN e = ''*'' then [(''CORS_ORIGIN'', CorsWildcard)] else [])
      else [])"

datatype env_error = FieldsRejected | Issues "issue list"

definition validate :: "environ \<Rightarrow> env_error + Env" where
  "validate cfg =
     (case env_fields cfg of
        None \<Rightarrow> Inl FieldsRejected
      | Some e \<Rightarrow> if production_issues e = [] then Inr e else Inl (Issues (production_issues e)))"

section \<open>Lemmas\<close>

lemma z_default_accepts:
  "z_default d p v = Some x \<longleftrightarrow> (if v = JUndefined then x = d else p v = Some x)"
  by (auto simp: z_default_def)

lemma z_min_string_bound [z_bounds]: "z_min_string n v = Some s \<Longrightarrow> n \<le> length s"
  by (auto simp: z_min_string_def dest: z_field_bounds)

lemma z_min_string_optional [z_bounds]:
  "z_optional (z_min_string n) v = Some w \<Longrightarrow> pred_option (\<lambda>s. n \<le> length s) w"
  by (auto simp: z_optional_def dest: z_min_string_bound split: if_splits)

lemma z_coerce_int_bounds [z_bounds]: "z_coerce_int lo hi v = Some i \<Longrightarrow> i \<in> {lo..hi}"
  by (auto simp: z_coerce_int_def split: jsval.splits option.splits dest: z_field_bounds)

lemma z_default_int [z_bounds]:
  "z_default d (z_coerce_int lo hi) v = Some i \<Longrightarrow> lo \<le> d \<Longrightarrow> d \<le> hi \<Longrightarrow> i \<in> {lo..hi}"
  by (auto simp: z_default_accepts dest: z_coerce_int_bounds split: if_splits)

text \<open>The field bounds every accepted environment satisfies, production or not.\<close>

definition env_bounds :: "Env \<Rightarrow> bool" where
  "env_bounds e \<longleftrightarrow>
     DATABASE_URL e \<noteq> [] \<and> REDIS_URL e \<noteq> [] \<and> PORT e \<in> {1..65535}
     \<and> 1 \<le> MAX_QUEUE_DEPTH e \<and> WORKER_CONCURRENCY e \<in> {1..64} \<and> DB_POOL_MAX e \<in> {1..100}
     \<and> list_all (\<lambda>(name, v). v \<noteq> Some []) (api_keys e @ hmac_secrets e)
     \<and> pred_option (\<lambda>s. 32 \<le> length s) (INTERNAL_API_KEY e)"

lemma env_fields_parsed:
  assumes "env_fields cfg = Some e"
  shows "z_min_string 1 (var cfg ''DATABASE_URL'') = Some (DATABASE_URL e)
     \<and> z_min_string 1 (var cfg ''REDIS_URL'') = Some (REDIS_URL e)
     \<and> z_default 3000 (z_coerce_int 1 65535) (var cfg ''PORT'') = Some (PORT e)
     \<and> z_default 10000 (z_coerce_int 1 MAX_SAFE_INTEGER) (var cfg ''MAX_QUEUE_DEPTH'') = Some (MAX_QUEUE_DEPTH e)
     \<and> z_default 16 (z_coerce_int 1 64) (var cfg ''WORKER_CONCURRENCY'') = Some (WORKER_CONCURRENCY e)
     \<and> z_default 20 (z_coerce_int 1 100) (var cfg ''DB_POOL_MAX'') = Some (DB_POOL_MAX e)
     \<and> (\<forall>(name, v) \<in> set (api_keys e @ hmac_secrets e). z_optional (z_min_string 1) (var cfg name) = Some v)
     \<and> z_optional (z_min_string 32) (var cfg ''INTERNAL_API_KEY'') = Some (INTERNAL_API_KEY e)"
  using assms unfolding env_fields_def bind_eq_Some_conv api_keys_def hmac_secrets_def
  by (elim exE conjE) (simp only: option.inject, clarify, simp)

lemma env_fields_bounds:
  assumes "env_fields cfg = Some e"
  shows "env_bounds e"
proof -
  note acc = env_fields_parsed [OF assms]
  have "DATABASE_URL e \<noteq> []" "REDIS_URL e \<noteq> []"
    using acc z_min_string_bound by fastforce+
  moreover have "PORT e \<in> {1..65535}" using acc z_default_int [of 3000 1 65535 "var cfg ''PORT''" "PORT e"] by simp
  moreover have "WORKER_CONCURRENCY e \<in> {1..64}" using acc z_default_int [of 16 1 64 "var cfg ''WORKER_CONCURRENCY''" "WORKER_CONCURRENCY e"] by simp
  moreover have "DB_POOL_MAX e \<in> {1..100}" using acc z_default_int [of 20 1 100 "var cfg ''DB_POOL_MAX''" "DB_POOL_MAX e"] by simp
  moreover have "MAX_QUEUE_DEPTH e \<in> {1..MAX_SAFE_INTEGER}"
    using acc z_default_int [of 10000 1 MAX_SAFE_INTEGER "var cfg ''MAX_QUEUE_DEPTH''" "MAX_QUEUE_DEPTH e"]
    by (simp add: MAX_SAFE_INTEGER_def)
  moreover have "pred_option (\<lambda>s. 32 \<le> length s) (INTERNAL_API_KEY e)"
    using acc z_min_string_optional by blast
  moreover have "v \<noteq> Some []" if "(name, v) \<in> set (api_keys e @ hmac_secrets e)" for name v
  proof -
    have "z_optional (z_min_string 1) (var cfg name) = Some v" using acc that by blast
    from z_min_string_optional [OF this] show ?thesis by auto
  qed
  ultimately show ?thesis by (auto simp: env_bounds_def list_all_iff)
qed

text \<open>What production requires: the keys of the mode in force.\<close>

definition mode_keys :: "Env \<Rightarrow> (js_string \<times> js_string option) list" where
  "mode_keys e =
     (case WEBHOOK_AUTH_MODE e of AuthNone \<Rightarrow> [] | ApiKey \<Rightarrow> api_keys e | Hmac \<Rightarrow> hmac_secrets e)"

definition secure_env :: "Env \<Rightarrow> bool" where
  "secure_env e \<longleftrightarrow>
     WEBHOOK_AUTH_MODE e \<noteq> AuthNone
     \<and> list_ex (\<lambda>(name, v). v \<noteq> None) (mode_keys e)
     \<and> list_all (\<lambda>(name, v). pred_option (\<lambda>s. 32 \<le> length s) v) (mode_keys e)
     \<and> THROTTLE_ENABLED e \<and> INTERNAL_API_KEY e \<noteq> None \<and> CORS_ORIGIN e \<noteq> ''*''"

lemma key_issues_none:
  assumes "list_all (\<lambda>(name, v). v \<noteq> Some []) ks"
  shows "key_issues ks = [] \<longleftrightarrow>
           list_ex (\<lambda>(name, v). v \<noteq> None) ks \<and> list_all (\<lambda>(name, v). pred_option (\<lambda>s. 32 \<le> length s) v) ks"
proof -
  have "list_ex (\<lambda>(name, v). set_string v) ks = list_ex (\<lambda>(name, v). v \<noteq> None) ks"
    using assms by (induction ks) (auto simp: set_string_def)
  moreover have "filter (\<lambda>(name, v). case v of Some s \<Rightarrow> length s < 32 | None \<Rightarrow> False) ks = []
      \<longleftrightarrow> list_all (\<lambda>(name, v). pred_option (\<lambda>s. 32 \<le> length s) v) ks"
    by (induction ks) (auto simp: not_less split: option.splits)
  ultimately show ?thesis by (simp add: key_issues_def)
qed

lemma production_issues_none:
  assumes "env_bounds e"
  shows "production_issues e = [] \<longleftrightarrow> NODE_ENV e = Production \<longrightarrow> secure_env e"
proof -
  have k: "list_all (\<lambda>(name, v). v \<noteq> Some []) (api_keys e)" "list_all (\<lambda>(name, v). v \<noteq> Some []) (hmac_secrets e)"
    and i: "INTERNAL_API_KEY e \<noteq> Some []"
    using assms by (auto simp: env_bounds_def)
  show ?thesis
    using i by (cases "WEBHOOK_AUTH_MODE e")
      (auto simp: production_issues_def secure_env_def mode_keys_def key_issues_none [OF k(1)]
        key_issues_none [OF k(2)] set_string_def)
qed

lemma validate_Inr:
  assumes "validate cfg = Inr e"
  shows "env_bounds e" and "NODE_ENV e = Production \<Longrightarrow> secure_env e"
proof -
  have f: "env_fields cfg = Some e" "production_issues e = []"
    using assms by (auto simp: validate_def split: option.splits if_splits)
  show b: "env_bounds e" by (rule env_fields_bounds [OF f(1)])
  show "NODE_ENV e = Production \<Longrightarrow> secure_env e" using production_issues_none [OF b] f(2) by simp
qed

section \<open>Accepted environments\<close>

text \<open>C19: \<open>validate\<close> returns a configuration exactly when every field is accepted and, under
  \<open>NODE_ENV=production\<close>, the configuration is secure: a webhook mode other than \<open>none\<close> with a
  key for at least one vendor and every set key of that mode of 32 characters or more, throttling
  on, an internal key, and no wildcard CORS origin. A rejected production environment reports
  at least one issue, and the ranges of the fields hold in every accepted one.\<close>

theorem validate_environment:
  "case validate cfg of
     Inr e \<Rightarrow> env_fields cfg = Some e \<and> env_bounds e \<and> (NODE_ENV e = Production \<longrightarrow> secure_env e)
   | Inl FieldsRejected \<Rightarrow> env_fields cfg = None
   | Inl (Issues xs) \<Rightarrow>
       xs \<noteq> [] \<and> (\<exists>e. env_fields cfg = Some e \<and> NODE_ENV e = Production \<and> \<not> secure_env e
                    \<and> xs = production_issues e)"
proof (cases "env_fields cfg")
  case None
  then show ?thesis by (simp add: validate_def)
next
  case (Some e)
  note b = env_fields_bounds [OF Some]
  show ?thesis
    using production_issues_none [OF b] b Some by (simp add: validate_def)
qed

definition sample_environ :: environ where
  "sample_environ =
     [(''NODE_ENV'', ''production''), (''DATABASE_URL'', ''postgres://db''), (''REDIS_URL'', ''redis://r''),
      (''PORT'', ''8080''), (''WEBHOOK_AUTH_MODE'', ''hmac''),
      (''TRACKPRO_HMAC_SECRET'', ''0123456789abcdef0123456789abcdef''),
      (''INTERNAL_API_KEY'', ''fedcba9876543210fedcba9876543210''),
      (''CORS_ORIGIN'', ''https://portal.example'')]"

definition sample_env_typed :: Env where
  "sample_env_typed =
     \<lparr>NODE_ENV = Production, DATABASE_URL = ''postgres://db'', REDIS_URL = ''redis://r'', PORT = 8080,
      WEBHOOK_AUTH_MODE = Hmac, TRACKPRO_API_KEY = None, SWINGMETRIC_API_KEY = None,
      PROSWING_API_KEY = None, QUEUE_NAME = ''shot-ingestion'', MAX_QUEUE_DEPTH = 10000,
      WORKER_CONCURRENCY = 16, RUN_MIGRATIONS = False, OTEL_SERVICE_NAME = ''pureplay-analytics-ingest'',
      OTEL_EXPORTER_OTLP_ENDPOINT = None, DB_POOL_MAX = 20, CORS_ORIGIN = ''https://portal.example'',
      TRACKPRO_HMAC_SECRET = Some ''0123456789abcdef0123456789abcdef'', SWINGMETRIC_HMAC_SECRET = None,
      PROSWING_HMAC_SECRET = None, THROTTLE_ENABLED = True,
      INTERNAL_API_KEY = Some ''fedcba9876543210fedcba9876543210''\<rparr>"

lemma sample_port: "Number ''8080'' = Some 8080"
proof -
  have "decimal_literal ''8080'' = Some (fl (of_int 8080))"
    by (simp add: decimal_literal_def is_digit_def less_eq_char_nat exponent_def digit_val_def Let_def)
  then show ?thesis
    using fl_int_small [of 8080]
    by (simp add: Number_def trim_def is_space_def Let_def radix_of_def toLowerCase_def lower_char_def is_upper_def less_eq_char_nat)
qed

lemma sample_environ: "env_fields sample_environ = Some sample_env_typed"
  using sample_port
  by (simp add: env_fields_def sample_environ_def sample_env_typed_def var_def opt_val_def z_default_def
      z_enum_map_def z_min_string_def z_format_def z_optional_def z_coerce_int_def true_false_def z_int_def)

lemma sample_validated: "secure_env sample_env_typed" "validate sample_environ = Inr sample_env_typed"
proof -
  show "secure_env sample_env_typed"
    by (simp add: secure_env_def mode_keys_def hmac_secrets_def sample_env_typed_def)
  then show "validate sample_environ = Inr sample_env_typed"
    using production_issues_none [OF env_fields_bounds [OF sample_environ]]
    by (simp add: validate_def sample_environ)
qed

theorem validate_environment_witness:
  "validate sample_environ = Inr sample_env_typed \<and> secure_env sample_env_typed"
  using validate_environment [of sample_environ] sample_validated by (simp add: sample_env_typed_def)

end
