(* ===== verification/Guards.thy ===== *)
theory Guards
  imports Env_Schema Shot
begin

text \<open>
  \<open>shared/auth/internal-api.guard.ts\<close> and \<open>shared/auth/webhook-auth.guard.ts\<close>: which requests reach
  the query and identity endpoints, and which reach the webhook handlers. A guard returns
  \<open>true\<close> or throws; the webhook guard also increments the auth-failure counter, whose increments
  are the second component of its result. The HMAC of \<open>crypto\<close> is a parameter. What both guards owe
  the handlers behind them is the locale \<open>guard\<close>.
\<close>

section \<open>Buffers\<close>

text \<open>\<open>Buffer.from(s, "utf8")\<close> on 8-bit characters.\<close>

definition utf8_char :: "char \<Rightarrow> nat list" where
  "utf8_char c = (let n = of_char c in if n < 128 then [n] else [192 + n div 64, 128 + n mod 64])"

definition utf8 :: "js_string \<Rightarrow> nat list" where
  "utf8 s = concat (map utf8_char s)"

text \<open>\<open>crypto.timingSafeEqual\<close> throws on buffers of different lengths; both guards check the
  lengths first.\<close>

definition timingSafeEqual :: "nat list \<Rightarrow> nat list \<Rightarrow> bool" where
  "timingSafeEqual a b \<longleftrightarrow> list_all2 (=) a b"

definition buffers_differ :: "js_string \<Rightarrow> js_string \<Rightarrow> bool" where
  "buffers_differ expected provided \<longleftrightarrow>
     length (utf8 expected) \<noteq> length (utf8 provided) \<or> \<not> timingSafeEqual (utf8 expected) (utf8 provided)"

lemma utf8_char_inj: "utf8_char c @ xs = utf8_char d @ ys \<longleftrightarrow> c = d \<and> xs = ys"
proof
  assume eq: "utf8_char c @ xs = utf8_char d @ ys"
  have small: "(of_char c :: nat) < 256" "(of_char d :: nat) < 256"
    using nat_of_char_less_256 by simp_all
  have "(of_char c :: nat) = of_char d"
  proof (cases "(of_char c :: nat) < 128"; cases "(of_char d :: nat) < 128")
    assume "\<not> (of_char c :: nat) < 128" "\<not> (of_char d :: nat) < 128"
    then have "(of_char c :: nat) div 64 = of_char d div 64" "(of_char c :: nat) mod 64 = of_char d mod 64"
      using eq by (simp_all add: utf8_char_def Let_def)
    then show ?thesis by (metis div_mult_mod_eq)
  qed (use eq in \<open>auto simp: utf8_char_def Let_def\<close>)
  then have "c = d" by simp
  with eq show "c = d \<and> xs = ys" by simp
qed simp

lemma utf8_inj [simp]: "utf8 s = utf8 t \<longleftrightarrow> s = t"
proof (induction s arbitrary: t)
  case Nil
  then show ?case by (cases t) (auto simp: utf8_def utf8_char_def Let_def split: if_splits)
next
  case (Cons c s)
  then show ?case
    by (cases t) (auto simp: utf8_def utf8_char_inj utf8_char_def [of c, THEN arg_cong [where f = "\<lambda>x. x = []"]] Let_def split: if_splits)
qed

lemma buffers_differ_iff [simp]: "buffers_differ a b \<longleftrightarrow> a \<noteq> b"
  by (auto simp: buffers_differ_def timingSafeEqual_def list_all2_eq [symmetric])

section \<open>Requests and exceptions\<close>

type_synonym headers = "js_string \<Rightarrow> js_string option"

definition UnauthorizedException :: exn where
  "UnauthorizedException = Http 401 None None"

text \<open>\<open>!s\<close> on an optional string is \<open>given s = None\<close>.\<close>

definition given :: "js_string option \<Rightarrow> js_string option" where
  "given v = (if set_string v then v else None)"

section \<open>The internal key\<close>

definition bearer :: "js_string option \<Rightarrow> js_string option" where
  "bearer h =
     (case h of
        Some a \<Rightarrow> if startsWith ''Bearer '' a then Some (drop 7 a) else None
      | None \<Rightarrow> None)"

definition InternalApiGuard :: "Env \<Rightarrow> headers \<Rightarrow> exn + bool" where
  "InternalApiGuard e hs =
     (case given (INTERNAL_API_KEY e) of
        None \<Rightarrow> Inr True
      | Some key \<Rightarrow>
          (case given (bearer (hs ''authorization'')) of
             None \<Rightarrow> Inl UnauthorizedException
           | Some provided \<Rightarrow>
               if buffers_differ key provided then Inl UnauthorizedException else Inr True))"

section \<open>The webhook guard\<close>

text \<open>\<open>config.get(name)\<close> on the names the guard builds.\<close>

definition config_get :: "Env \<Rightarrow> js_string \<Rightarrow> js_string option" where
  "config_get e name = (case map_of (api_keys e @ hmac_secrets e) name of Some v \<Rightarrow> v | None \<Rightarrow> None)"

record WebhookRequest =
  wr_headers :: headers
  wr_raw_body :: "js_string option"
  wr_now :: int

type_synonym metric = "js_string \<times> js_string"

definition nowSec :: "int \<Rightarrow> int" where
  "nowSec now = \<lfloor>fl (of_int now / 1000)\<rfloor>"

text \<open>The time stamp is a number within five minutes of the server's clock.\<close>

definition in_replay_window :: "int \<Rightarrow> js_string \<Rightarrow> bool" where
  "in_replay_window now ts \<longleftrightarrow>
     (case parseInt ts of None \<Rightarrow> False | Some tsSec \<Rightarrow> \<not> \<bar>fl (of_int (nowSec now) - tsSec)\<bar> > 300)"

definition signed_payload :: "js_string \<Rightarrow> js_string option \<Rightarrow> js_string" where
  "signed_payload ts raw = ts @ ''.'' @ (case raw of Some b \<Rightarrow> b | None \<Rightarrow> [])"

definition hmac_branch ::
    "(js_string \<Rightarrow> js_string \<Rightarrow> js_string) \<Rightarrow> Env \<Rightarrow> Vendor \<Rightarrow> WebhookRequest \<Rightarrow> (exn + bool) \<times> metric list" where
  "hmac_branch hmac e v rq =
     (case given (config_get e (toUpperCase (vendor_string v) @ ''_HMAC_SECRET'')) of
        None \<Rightarrow> (Inl UnauthorizedException, [(vendor_string v, ''hmac'')])
      | Some secret \<Rightarrow>
          (case (given (wr_headers rq ''x-webhook-timestamp''), given (wr_headers rq ''x-webhook-signature'')) of
             (Some ts, Some sig) \<Rightarrow>
               if \<not> in_replay_window (wr_now rq) ts then (Inl UnauthorizedException, [])
               else if buffers_differ (''sha256='' @ hmac secret (signed_payload ts (wr_raw_body rq))) sig
               then (Inl UnauthorizedException, [(vendor_string v, ''hmac'')])
               else (Inr True, [])
           | _ \<Rightarrow> (Inl UnauthorizedException, [])))"

definition api_key_branch :: "Env \<Rightarrow> Vendor \<Rightarrow> WebhookRequest \<Rightarrow> (exn + bool) \<times> metric list" where
  "api_key_branch e v rq =
     (case (given (wr_headers rq ''x-webhook-auth''),
            given (config_get e (toUpperCase (vendor_string v) @ ''_API_KEY''))) of
        (Some provided, Some expected) \<Rightarrow>
          if buffers_differ expected provided
          then (Inl UnauthorizedException, [(vendor_string v, ''api_key'')])
          else (Inr True, [])
      | _ \<Rightarrow> (Inl UnauthorizedException, [(vendor_string v, ''api_key'')]))"

text \<open>The vendor is the route's \<open>@Vendor\<close> metadata.\<close>

definition WebhookAuthGuard ::
    "(js_string \<Rightarrow> js_string \<Rightarrow> js_string) \<Rightarrow> Env \<Rightarrow> Vendor option \<Rightarrow> WebhookRequest \<Rightarrow> (exn + bool) \<times> metric list" where
  "WebhookAuthGuard hmac e vd rq =
     (case WEBHOOK_AUTH_MODE e of
        AuthNone \<Rightarrow> (Inr True, [])
      | Hmac \<Rightarrow> (case vd of None \<Rightarrow> (Inl UnauthorizedException, []) | Some v \<Rightarrow> hmac_branch hmac e v rq)
      | ApiKey \<Rightarrow> (case vd of None \<Rightarrow> (Inl UnauthorizedException, []) | Some v \<Rightarrow> api_key_branch e v rq))"

text \<open>A guarded webhook route: the handler, a state transformer, runs only behind the guard.\<close>

definition guarded ::
    "(js_string \<Rightarrow> js_string \<Rightarrow> js_string) \<Rightarrow> Env \<Rightarrow> Vendor \<Rightarrow> WebhookRequest
       \<Rightarrow> ('s \<Rightarrow> (exn + 'a) \<times> 's) \<Rightarrow> 's \<Rightarrow> (exn + 'a) \<times> 's" where
  "guarded hmac e v rq handler s =
     (case fst (WebhookAuthGuard hmac e (Some v) rq) of Inl x \<Rightarrow> (Inl x, s) | Inr _ \<Rightarrow> handler s)"

section \<open>Lemmas\<close>

lemma given_Some [simp]: "given v = Some s \<longleftrightarrow> v = Some s \<and> s \<noteq> []"
  by (cases v) (auto simp: given_def set_string_def)

lemma given_simps [simp]: "given None = None" "given (Some s) = (if s = [] then None else Some s)"
  by (simp_all add: given_def set_string_def)

lemma given_None: "given v = None \<longleftrightarrow> v = None \<or> v = Some []"
  by (auto simp: given_def set_string_def)

lemma bearer_Some: "bearer h = Some k \<longleftrightarrow> h = Some (''Bearer '' @ k)"
proof -
  have "startsWith ''Bearer '' a \<and> drop 7 a = k \<longleftrightarrow> a = ''Bearer '' @ k" for a
  proof
    assume a: "startsWith ''Bearer '' a \<and> drop 7 a = k"
    have "length ''Bearer '' = 7" by simp
    then have "take 7 a = ''Bearer ''" using a by (simp only: startsWith_def)
    with a show "a = ''Bearer '' @ k" using append_take_drop_id [of 7 a] by argo
  qed (simp add: startsWith_def)
  then show ?thesis by (auto simp: bearer_def split: option.splits)
qed

text \<open>The configured secret of a vendor, by mode.\<close>

definition api_key_of :: "Env \<Rightarrow> Vendor \<Rightarrow> js_string option" where
  "api_key_of e v =
     (case v of Trackpro \<Rightarrow> TRACKPRO_API_KEY e | Swingmetric \<Rightarrow> SWINGMETRIC_API_KEY e | Proswing \<Rightarrow> PROSWING_API_KEY e)"

definition hmac_secret_of :: "Env \<Rightarrow> Vendor \<Rightarrow> js_string option" where
  "hmac_secret_of e v =
     (case v of Trackpro \<Rightarrow> TRACKPRO_HMAC_SECRET e | Swingmetric \<Rightarrow> SWINGMETRIC_HMAC_SECRET e
              | Proswing \<Rightarrow> PROSWING_HMAC_SECRET e)"

lemma upper_vendor:
  "toUpperCase (vendor_string Trackpro) = ''TRACKPRO''"
  "toUpperCase (vendor_string Swingmetric) = ''SWINGMETRIC''"
  "toUpperCase (vendor_string Proswing) = ''PROSWING''"
  by code_simp+

lemma config_get_vendor:
  "config_get e (toUpperCase (vendor_string v) @ ''_API_KEY'') = api_key_of e v"
  "config_get e (toUpperCase (vendor_string v) @ ''_HMAC_SECRET'') = hmac_secret_of e v"
  by (cases v; simp add: upper_vendor config_get_def api_keys_def hmac_secrets_def api_key_of_def hmac_secret_of_def)+

lemma mode_key_mem:
  "(toUpperCase (vendor_string v) @ ''_API_KEY'', api_key_of e v) \<in> set (api_keys e)"
  "(toUpperCase (vendor_string v) @ ''_HMAC_SECRET'', hmac_secret_of e v) \<in> set (hmac_secrets e)"
  by (cases v; simp add: upper_vendor api_keys_def hmac_secrets_def api_key_of_def hmac_secret_of_def)+

lemma fl_of_int_Ints: "fl (of_int n) \<in> \<int>"
proof (cases "\<bar>n\<bar> \<le> 2 ^ 53")
  case True
  then show ?thesis by (simp add: fl_int_small)
next
  case False
  then have big: "(2::rat) powi 53 \<le> \<bar>of_int n\<bar>" by (simp add: of_int_abs [symmetric] del: of_int_abs)
  have "53 \<le> flog2 \<bar>of_int n :: rat\<bar>"
    using flog2_mono [OF _ big] flog2_pow2 [of 53] by (simp del: flog2_pow2)
  then have "0 \<le> ulp_exp (of_int n)" by (simp add: ulp_exp_def)
  then obtain k where k: "ulp_exp (of_int n) = int k" by (rule nonneg_int_cases)
  have "fl (of_int n) = (if n = 0 then 0 else of_int (rne (of_int n / 2 powi int k) * 2 ^ k))"
    by (simp add: fl_def k pow2_nat)
  then show ?thesis by (metis Ints_0 Ints_of_int)
qed

lemma parseInt_Ints: "parseInt ts = Some t \<Longrightarrow> t \<in> \<int>"
  using fl_of_int_Ints [of "_ * int _"] by (auto simp: parseInt_def Let_def split: prod.splits if_splits)

lemma fl_le_300:
  assumes "x \<in> \<int>"
  shows "\<bar>fl x\<bar> \<le> 300 \<longleftrightarrow> \<bar>x\<bar> \<le> 300"
proof -
  obtain n where n: "x = of_int n" using assms by (auto elim: Ints_cases)
  have f: "fl (300::rat) = 300" "fl (- 300::rat) = - 300" "fl (301::rat) = 301" "fl (- 301::rat) = - 301"
    using fl_int_small [of 300] fl_int_small [of "- 300"] fl_int_small [of 301] fl_int_small [of "- 301"] by simp_all
  have "n \<le> 300 \<or> 301 \<le> n" "- 300 \<le> n \<or> n \<le> - 301" by linarith+
  then have "(x \<le> 300 \<or> 301 \<le> x) \<and> (- 300 \<le> x \<or> x \<le> - 301)" by (auto simp: n)
  then show ?thesis
    using fl_mono [of x 300] fl_mono [of 301 x] fl_mono [of "- 300" x] fl_mono [of x "- 301"] by (auto simp: f)
qed

lemma in_replay_window_exact:
  assumes "0 \<le> now" and "now \<le> 2 ^ 53"
  shows "in_replay_window now ts \<longleftrightarrow> (\<exists>t. parseInt ts = Some t \<and> \<bar>of_int (now div 1000) - t\<bar> \<le> 300)"
proof -
  have n: "nowSec now = now div 1000" using floor_fl_seconds [OF assms] by (simp add: nowSec_def)
  have "parseInt ts = Some t \<Longrightarrow> of_int (now div 1000) - t \<in> \<int>" for t
    using parseInt_Ints by simp
  then show ?thesis using fl_le_300 by (auto simp: in_replay_window_def n not_less split: option.splits)
qed

section \<open>What the guards admit\<close>

text \<open>A request that carries the vendor's credential.\<close>

definition presents_key :: "Env \<Rightarrow> Vendor \<Rightarrow> WebhookRequest \<Rightarrow> js_string \<Rightarrow> bool" where
  "presents_key e v rq k \<longleftrightarrow>
     WEBHOOK_AUTH_MODE e = ApiKey \<and> api_key_of e v = Some k \<and> k \<noteq> [] \<and> wr_headers rq ''x-webhook-auth'' = Some k"

definition presents_signature ::
    "(js_string \<Rightarrow> js_string \<Rightarrow> js_string) \<Rightarrow> Env \<Rightarrow> Vendor \<Rightarrow> WebhookRequest \<Rightarrow> js_string \<Rightarrow> bool" where
  "presents_signature hmac e v rq k \<longleftrightarrow>
     WEBHOOK_AUTH_MODE e = Hmac \<and> hmac_secret_of e v = Some k \<and> k \<noteq> []
     \<and> (\<exists>ts t. wr_headers rq ''x-webhook-timestamp'' = Some ts \<and> parseInt ts = Some t
          \<and> \<bar>of_int (wr_now rq div 1000) - t\<bar> \<le> 300
          \<and> wr_headers rq ''x-webhook-signature'' = Some (''sha256='' @ hmac k (signed_payload ts (wr_raw_body rq))))"

lemma parseInt_Nil [simp]: "parseInt [] = None"
  by (simp add: parseInt_def)

lemma api_key_branch_iff:
  assumes "WEBHOOK_AUTH_MODE e = ApiKey"
  shows "api_key_branch e v rq =
     (if \<exists>k. presents_key e v rq k then (Inr True, [])
      else (Inl UnauthorizedException, [(vendor_string v, ''api_key'')]))"
proof (cases "given (wr_headers rq ''x-webhook-auth'')"; cases "given (api_key_of e v)")
  fix a b
  assume "given (wr_headers rq ''x-webhook-auth'') = Some a" "given (api_key_of e v) = Some b"
  then show ?thesis
    using assms by (auto simp: api_key_branch_def config_get_vendor presents_key_def)
qed (use assms in \<open>auto simp: api_key_branch_def config_get_vendor presents_key_def given_None split: option.splits\<close>)

lemma hmac_branch_iff:
  assumes "WEBHOOK_AUTH_MODE e = Hmac" and "0 \<le> wr_now rq" and "wr_now rq \<le> 2 ^ 53"
  shows "fst (hmac_branch hmac e v rq) =
     (if \<exists>k. presents_signature hmac e v rq k then Inr True else Inl UnauthorizedException)"
    and "snd (hmac_branch hmac e v rq) \<in> {[], [(vendor_string v, ''hmac'')]}"
    and "fst (hmac_branch hmac e v rq) = Inr True \<Longrightarrow> snd (hmac_branch hmac e v rq) = []"
proof -
  note w = in_replay_window_exact [OF assms(2,3)]
  let ?s = "given (hmac_secret_of e v)"
  let ?t = "given (wr_headers rq ''x-webhook-timestamp'')"
  let ?g = "given (wr_headers rq ''x-webhook-signature'')"
  show "fst (hmac_branch hmac e v rq) =
     (if \<exists>k. presents_signature hmac e v rq k then Inr True else Inl UnauthorizedException)"
  proof (cases "\<exists>k ts sg. ?s = Some k \<and> ?t = Some ts \<and> ?g = Some sg")
    case True
    then obtain k ts sg where g: "?s = Some k" "?t = Some ts" "?g = Some sg" by blast
    then have f: "hmac_secret_of e v = Some k" "k \<noteq> []" "wr_headers rq ''x-webhook-timestamp'' = Some ts"
      "wr_headers rq ''x-webhook-signature'' = Some sg" by simp_all
    have p: "presents_signature hmac e v rq k' \<longleftrightarrow>
        k' = k \<and> in_replay_window (wr_now rq) ts \<and> sg = ''sha256='' @ hmac k (signed_payload ts (wr_raw_body rq))" for k'
      unfolding presents_signature_def f w using assms(1) f(2) by (simp only: option.inject) blast
    have "hmac_branch hmac e v rq =
        (if \<not> in_replay_window (wr_now rq) ts then (Inl UnauthorizedException, [])
         else if buffers_differ (''sha256='' @ hmac k (signed_payload ts (wr_raw_body rq))) sg
         then (Inl UnauthorizedException, [(vendor_string v, ''hmac'')]) else (Inr True, []))"
      unfolding hmac_branch_def config_get_vendor g by (simp only: option.case prod.case)
    then show ?thesis unfolding p by (simp only: buffers_differ_iff) (auto simp only: fst_conv split: if_splits)
  next
    case False
    then have "\<not> presents_signature hmac e v rq k" for k
      by (auto simp: presents_signature_def)
    with False show ?thesis
      by (auto simp: hmac_branch_def config_get_vendor split: option.splits)
  qed
  show "snd (hmac_branch hmac e v rq) \<in> {[], [(vendor_string v, ''hmac'')]}"
    and "fst (hmac_branch hmac e v rq) = Inr True \<Longrightarrow> snd (hmac_branch hmac e v rq) = []"
    by (auto simp: hmac_branch_def split: option.splits if_splits)
qed

text \<open>What the two guards have in common, for whatever stands behind them: a request is let through
  exactly when it carries the credential, and otherwise the answer is 401 and the handler does
  not run.\<close>

definition behind :: "exn + bool \<Rightarrow> ('s \<Rightarrow> (exn + 'a) \<times> 's) \<Rightarrow> 's \<Rightarrow> (exn + 'a) \<times> 's" where
  "behind verdict handler s = (case verdict of Inl x \<Rightarrow> (Inl x, s) | Inr _ \<Rightarrow> handler s)"

locale guard =
  fixes wf :: "'c \<Rightarrow> bool" and admit :: "'c \<Rightarrow> exn + bool" and credential :: "'c \<Rightarrow> bool"
  assumes admit_iff: "wf c \<Longrightarrow> admit c = (if credential c then Inr True else Inl UnauthorizedException)"
begin

lemma admitted: "wf c \<Longrightarrow> admit c = Inr b \<longleftrightarrow> credential c \<and> b"
  by (auto simp: admit_iff)

lemma protected:
  "wf c \<Longrightarrow> behind (admit c) handler s = (if credential c then handler s else (Inl UnauthorizedException, s))"
  by (simp add: behind_def admit_iff)

lemma effect_needs_credential:
  assumes "wf c" and "behind (admit c) handler s = (ans, s')" and "s' \<noteq> s \<or> (\<exists>a. ans = Inr a)"
  shows "credential c"
  using assms by (auto simp: protected split: if_splits)

end

definition internal_credential :: "Env \<times> headers \<Rightarrow> bool" where
  "internal_credential = (\<lambda>(e, hs). given (INTERNAL_API_KEY e) = None
     \<or> (\<exists>k. given (INTERNAL_API_KEY e) = Some k \<and> hs ''authorization'' = Some (''Bearer '' @ k)))"

definition webhook_credential ::
    "(js_string \<Rightarrow> js_string \<Rightarrow> js_string) \<times> Env \<times> Vendor \<times> WebhookRequest \<Rightarrow> bool" where
  "webhook_credential = (\<lambda>(hmac, e, v, rq). WEBHOOK_AUTH_MODE e = AuthNone
     \<or> (\<exists>k. presents_key e v rq k \<or> presents_signature hmac e v rq k))"

lemma internal_admits:
  "InternalApiGuard e hs = (if internal_credential (e, hs) then Inr True else Inl UnauthorizedException)"
proof (cases "given (INTERNAL_API_KEY e)")
  case (Some k)
  let ?b = "bearer (hs ''authorization'')"
  have k: "k \<noteq> []" using Some by simp
  have "InternalApiGuard e hs = (if ?b = Some k then Inr True else Inl UnauthorizedException)"
  proof (cases "given ?b")
    case None
    then have "?b \<noteq> Some k" using k by (auto simp: given_None)
    with None show ?thesis by (simp add: InternalApiGuard_def Some)
  next
    case (Some p)
    then have "?b = Some p" by simp
    moreover have "InternalApiGuard e hs = (if buffers_differ k p then Inl UnauthorizedException else Inr True)"
      unfolding InternalApiGuard_def \<open>given (INTERNAL_API_KEY e) = Some k\<close> Some by simp
    ultimately show ?thesis by auto
  qed
  then show ?thesis unfolding internal_credential_def bearer_Some prod.case Some by simp
qed (simp add: InternalApiGuard_def internal_credential_def)

lemma webhook_admits:
  assumes "0 \<le> wr_now rq" and "wr_now rq \<le> 2 ^ 53"
  shows "fst (WebhookAuthGuard hmac e (Some v) rq) =
           (if webhook_credential (hmac, e, v, rq) then Inr True else Inl UnauthorizedException)"
    and "fst (WebhookAuthGuard hmac e (Some v) rq) = Inr True \<Longrightarrow> snd (WebhookAuthGuard hmac e (Some v) rq) = []"
proof -
  have n: "WEBHOOK_AUTH_MODE e = ApiKey \<Longrightarrow> \<not> presents_signature hmac e v rq k"
    "WEBHOOK_AUTH_MODE e = Hmac \<Longrightarrow> \<not> presents_key e v rq k" for k
    by (simp_all add: presents_signature_def presents_key_def)
  show "fst (WebhookAuthGuard hmac e (Some v) rq) =
           (if webhook_credential (hmac, e, v, rq) then Inr True else Inl UnauthorizedException)"
    using n hmac_branch_iff(1) [OF _ assms]
    by (cases "WEBHOOK_AUTH_MODE e") (auto simp: WebhookAuthGuard_def webhook_credential_def api_key_branch_iff)
  show "fst (WebhookAuthGuard hmac e (Some v) rq) = Inr True \<Longrightarrow> snd (WebhookAuthGuard hmac e (Some v) rq) = []"
    using hmac_branch_iff(3) [OF _ assms]
    by (cases "WEBHOOK_AUTH_MODE e") (auto simp: WebhookAuthGuard_def api_key_branch_iff split: if_splits)
qed

interpretation internal_guard: guard "\<lambda>c. True" "\<lambda>(e, hs). InternalApiGuard e hs" internal_credential
  by unfold_locales (simp add: internal_admits split: prod.splits)

interpretation webhook_guarded: guard
  "\<lambda>(hmac, e, v, rq). 0 \<le> wr_now rq \<and> wr_now rq \<le> 2 ^ 53"
  "\<lambda>(hmac, e, v, rq). fst (WebhookAuthGuard hmac e (Some v) rq)" webhook_credential
  by unfold_locales (auto simp: webhook_admits(1) split: prod.splits)

lemma guarded_behind: "guarded hmac e v rq handler s = behind (fst (WebhookAuthGuard hmac e (Some v) rq)) handler s"
  by (simp add: guarded_def behind_def)

text \<open>C16: The webhook guard admits a request exactly when webhook authentication is off, or the request
  presents the API key configured for the route's vendor, or it presents the HMAC, under the
  vendor's secret, of its own time stamp and body, with a time stamp within five minutes of the
  server's clock. Every other request is answered 401 and leaves the handler's state untouched; an
  admitted one increments no failure counter.\<close>

theorem webhook_guard:
  assumes "0 \<le> wr_now rq" and "wr_now rq \<le> 2 ^ 53"
  shows "fst (WebhookAuthGuard hmac e (Some v) rq) =
           (if WEBHOOK_AUTH_MODE e = AuthNone \<or> (\<exists>k. presents_key e v rq k \<or> presents_signature hmac e v rq k)
            then Inr True else Inl UnauthorizedException)
         \<and> (fst (WebhookAuthGuard hmac e (Some v) rq) = Inr True \<longrightarrow> snd (WebhookAuthGuard hmac e (Some v) rq) = [])
         \<and> guarded hmac e v rq handler s =
             (if WEBHOOK_AUTH_MODE e = AuthNone \<or> (\<exists>k. presents_key e v rq k \<or> presents_signature hmac e v rq k)
              then handler s else (Inl UnauthorizedException, s))"
  using webhook_admits [OF assms, of hmac e v] webhook_guarded.protected [of "(hmac, e, v, rq)" handler s] assms
  by (simp add: guarded_behind webhook_credential_def)

text \<open>A request signed with the sample secret, by an HMAC that concatenates.\<close>

definition sample_request :: WebhookRequest where
  "sample_request =
     \<lparr>wr_headers = (\<lambda>h. if h = ''x-webhook-timestamp'' then Some ''1705307400''
                        else if h = ''x-webhook-signature''
                        then Some (''sha256='' @ (''0123456789abcdef0123456789abcdef'' @ ''1705307400.{}''))
                        else None),
      wr_raw_body = Some ''{}'', wr_now = 1705307460000\<rparr>"

lemma sample_timestamp: "parseInt ''1705307400'' = Some 1705307400"
  using fl_int_small [of 1705307400]
  by (simp add: parseInt_def is_space_def is_digit_def less_eq_char_nat digit_val_def)

lemma sample_signature:
  "presents_signature (@) sample_env_typed Trackpro sample_request ''0123456789abcdef0123456789abcdef''"
  using sample_timestamp
  by (simp add: presents_signature_def sample_env_typed_def hmac_secret_of_def sample_request_def signed_payload_def)

theorem webhook_guard_witness:
  "fst (WebhookAuthGuard (@) sample_env_typed (Some Trackpro) sample_request) = Inr True
   \<and> guarded (@) sample_env_typed Swingmetric sample_request (\<lambda>s. (Inr (), s + 1)) (0::nat)
       = (Inl UnauthorizedException, 0)"
proof -
  have n: "0 \<le> wr_now sample_request" "wr_now sample_request \<le> 2 ^ 53"
    by (simp_all add: sample_request_def)
  have "\<not> (WEBHOOK_AUTH_MODE sample_env_typed = AuthNone
     \<or> (\<exists>k. presents_key sample_env_typed Swingmetric sample_request k
          \<or> presents_signature (@) sample_env_typed Swingmetric sample_request k))"
    by (simp add: presents_key_def presents_signature_def sample_env_typed_def hmac_secret_of_def)
  then have "guarded (@) sample_env_typed Swingmetric sample_request (\<lambda>s. (Inr (), s + 1)) (0::nat)
       = (Inl UnauthorizedException, 0)"
    using webhook_guard [OF n, of "(@)" sample_env_typed Swingmetric "\<lambda>s. (Inr (), s + 1)" "0::nat"]
    by simp
  moreover have "fst (WebhookAuthGuard (@) sample_env_typed (Some Trackpro) sample_request) = Inr True"
    using webhook_guard [OF n, of "(@)" sample_env_typed Trackpro "\<lambda>s. (Inr (), s + 1)" "0::nat"] sample_signature
    by auto
  ultimately show ?thesis by simp
qed

lemma production_secrets:
  assumes "validate cfg = Inr e" and "NODE_ENV e = Production"
  shows "WEBHOOK_AUTH_MODE e \<noteq> AuthNone"
    and "\<exists>k. INTERNAL_API_KEY e = Some k \<and> 32 \<le> length k"
    and "presents_key e v rq k \<or> presents_signature hmac e v rq k \<Longrightarrow> 32 \<le> length k"
proof -
  have sec: "secure_env e" and bd: "env_bounds e" using validate_Inr [OF assms(1)] assms(2) by simp_all
  show "WEBHOOK_AUTH_MODE e \<noteq> AuthNone" using sec by (simp add: secure_env_def)
  show "\<exists>k. INTERNAL_API_KEY e = Some k \<and> 32 \<le> length k" using sec bd by (auto simp: secure_env_def env_bounds_def)
  have all: "\<forall>(name, x) \<in> set (mode_keys e). pred_option (\<lambda>s. 32 \<le> length s) x"
    using sec by (simp add: secure_env_def list_all_iff)
  assume "presents_key e v rq k \<or> presents_signature hmac e v rq k"
  then show "32 \<le> length k"
  proof
    assume "presents_key e v rq k"
    then show ?thesis using all mode_key_mem(1) [of v e] by (fastforce simp: presents_key_def mode_keys_def)
  next
    assume "presents_signature hmac e v rq k"
    then show ?thesis using all mode_key_mem(2) [of v e] by (fastforce simp: presents_signature_def mode_keys_def)
  qed
qed

text \<open>In production, when \<open>validate\<close> has accepted the environment, no request reaches a query or
  identity endpoint without the internal key, and no webhook changes the state behind its handler
  without the vendor's own key or a fresh signature under the vendor's own secret; each of these
  secrets has at least 32 characters.\<close>

theorem production_authenticated:
  assumes "validate cfg = Inr e" and "NODE_ENV e = Production"
    and "0 \<le> wr_now rq" and "wr_now rq \<le> 2 ^ 53"
  shows "(InternalApiGuard e hs = Inr b \<longrightarrow>
            (\<exists>k. INTERNAL_API_KEY e = Some k \<and> 32 \<le> length k \<and> hs ''authorization'' = Some (''Bearer '' @ k)))
       \<and> (\<forall>ans s'. guarded hmac e v rq handler s = (ans, s') \<longrightarrow> s' \<noteq> s \<or> (\<exists>a. ans = Inr a) \<longrightarrow>
            (\<exists>k. 32 \<le> length k \<and> (presents_key e v rq k \<or> presents_signature hmac e v rq k)))"
proof -
  obtain i where i: "INTERNAL_API_KEY e = Some i" "32 \<le> length i" using production_secrets(2) [OF assms(1,2)] by blast
  then have "given (INTERNAL_API_KEY e) = Some i" by auto
  then have "InternalApiGuard e hs = Inr b \<longrightarrow> hs ''authorization'' = Some (''Bearer '' @ i)"
    using internal_guard.admitted [of "(e, hs)" b] by (simp add: internal_credential_def)
  then show ?thesis
    using i production_secrets(1,3) [OF assms(1,2)] assms(3,4)
      webhook_guarded.effect_needs_credential [of "(hmac, e, v, rq)" handler s]
    by (simp add: guarded_behind webhook_credential_def) blast
qed

theorem production_authenticated_witness:
  "validate sample_environ = Inr sample_env_typed
   \<and> (\<exists>k. 32 \<le> length k \<and> presents_signature (@) sample_env_typed Trackpro sample_request k)
   \<and> (\<forall>b. InternalApiGuard sample_env_typed (\<lambda>h. Some ''Bearer guess'') \<noteq> Inr b)"
proof -
  note v = sample_validated(2)
  have p: "NODE_ENV sample_env_typed = Production" "0 \<le> wr_now sample_request" "wr_now sample_request \<le> 2 ^ 53"
    by (simp_all add: sample_env_typed_def sample_request_def)
  note t = production_authenticated [OF v p, where v = Trackpro and hmac = "(@)" and handler = "\<lambda>s. (Inr (), s + 1)"
      and s = "0 :: nat" and hs = "\<lambda>h. Some ''Bearer guess''"]
  have "InternalApiGuard sample_env_typed (\<lambda>h. Some ''Bearer guess'') \<noteq> Inr b" for b
    using t [of b] by (auto simp: sample_env_typed_def)
  moreover have "32 \<le> length ''0123456789abcdef0123456789abcdef''" by simp
  ultimately show ?thesis using v sample_signature by blast
qed

end
