(* ===== verification/Routes.thy ===== *)
theory Routes
  imports Guards
begin

text \<open>
  The API's surface: the route decorators of the controllers, the throttlers of \<open>app.module.ts\<close>, the
  global prefix and the \<open>OPTIONS\<close> hook of \<open>main.api.ts\<close>, and the path of a request through them to
  its handler. A path is the list of its segments. How \<open>@nestjs/throttler\<close> reads the skip
  decorators of a method and its class is a parameter, with its documentation as \<open>throttler_doc\<close>; so
  is the storage's verdict on whether a request is within a limit.
\<close>

section \<open>Decorators\<close>

datatype http_method = GET | POST | DELETE | OPTIONS

text \<open>No \<open>@SkipThrottle\<close>, \<open>@SkipThrottle()\<close>, and \<open>@SkipThrottle\<close> of an object.\<close>

datatype skip_decorator = NoSkip | SkipBare | SkipNames "(js_string \<times> bool) list"

datatype protection = Unguarded | InternalKey | VendorKey Vendor

record Throttler =
  th_name :: js_string
  th_ttl :: nat
  th_limit :: nat

record Route =
  rt_method :: http_method
  rt_path :: "js_string list"
  rt_status :: nat
  rt_protection :: protection
  rt_class_skip :: skip_decorator
  rt_class_throttle :: "Throttler option"
  rt_method_skip :: skip_decorator
  rt_method_throttle :: "Throttler option"

section \<open>The routes\<close>

definition throttle :: "js_string \<Rightarrow> nat \<Rightarrow> Throttler" where
  "throttle name limit = \<lparr>th_name = name, th_ttl = 1000, th_limit = limit\<rparr>"

definition trackpro_route :: Route where
  "trackpro_route =
     \<lparr>rt_method = POST, rt_path = [''webhooks'', ''trackpro''], rt_status = 202, rt_protection = VendorKey Trackpro,
      rt_class_skip = SkipNames [(''default'', True), (''query'', True), (''write'', True)],
      rt_class_throttle = Some (throttle ''webhook'' 200), rt_method_skip = NoSkip, rt_method_throttle = None\<rparr>"

definition swingmetric_route :: Route where
  "swingmetric_route =
     \<lparr>rt_method = POST, rt_path = [''webhooks'', ''swingmetric''], rt_status = 202,
      rt_protection = VendorKey Swingmetric,
      rt_class_skip = SkipNames [(''default'', True), (''query'', True), (''write'', True)],
      rt_class_throttle = Some (throttle ''webhook'' 200), rt_method_skip = NoSkip, rt_method_throttle = None\<rparr>"

definition proswing_route :: Route where
  "proswing_route =
     \<lparr>rt_method = POST, rt_path = [''webhooks'', ''proswing''], rt_status = 202, rt_protection = VendorKey Proswing,
      rt_class_skip = SkipNames [(''default'', True), (''query'', True), (''write'', True)],
      rt_class_throttle = Some (throttle ''webhook'' 200), rt_method_skip = NoSkip, rt_method_throttle = None\<rparr>"

text \<open>The classes of the four query endpoints carry the same decorators.\<close>

definition query_route :: "js_string list \<Rightarrow> Route" where
  "query_route path =
     \<lparr>rt_method = GET, rt_path = path, rt_status = 200, rt_protection = InternalKey,
      rt_class_skip = SkipNames [(''default'', True), (''webhook'', True), (''write'', True)],
      rt_class_throttle = Some (throttle ''query'' 50), rt_method_skip = NoSkip, rt_method_throttle = None\<rparr>"

definition shots_routes :: "Route list" where
  "shots_routes =
     [query_route [''users'', '':user_id'', ''shots''],
      query_route [''users'', ''by-vendor'', '':vendor'', '':vendor_user_id'', ''shots'']]"

definition stats_routes :: "Route list" where
  "stats_routes =
     [query_route [''users'', '':user_id'', ''stats''],
      query_route [''users'', ''by-vendor'', '':vendor'', '':vendor_user_id'', ''stats'']]"

definition identity_route :: "http_method \<Rightarrow> js_string list \<Rightarrow> nat \<Rightarrow> Route" where
  "identity_route verb path status =
     \<lparr>rt_method = verb, rt_path = ''users'' # path, rt_status = status, rt_protection = InternalKey,
      rt_class_skip = SkipNames [(''default'', True), (''webhook'', True), (''query'', True)],
      rt_class_throttle = Some (throttle ''write'' 100), rt_method_skip = NoSkip, rt_method_throttle = None\<rparr>"

definition link_identity_route :: Route where
  "link_identity_route = identity_route POST ['':canonical_user_id'', ''identities''] 201"

definition list_identities_route :: Route where
  "list_identities_route =
     (identity_route GET ['':canonical_user_id'', ''identities''] 200)
       \<lparr>rt_method_skip := SkipNames [(''default'', True), (''webhook'', True), (''write'', True)],
        rt_method_throttle := Some (throttle ''query'' 50)\<rparr>"

definition unlink_identity_route :: Route where
  "unlink_identity_route =
     identity_route DELETE ['':canonical_user_id'', ''identities'', '':vendor'', '':vendor_user_id''] 204"

definition probe_route :: "js_string \<Rightarrow> protection \<Rightarrow> Route" where
  "probe_route path p =
     \<lparr>rt_method = GET, rt_path = [path], rt_status = 200, rt_protection = p, rt_class_skip = SkipBare,
      rt_class_throttle = None, rt_method_skip = NoSkip, rt_method_throttle = None\<rparr>"

definition health_routes :: "Route list" where
  "health_routes = [probe_route ''healthz'' Unguarded, probe_route ''readyz'' Unguarded]"

definition metrics_route :: Route where
  "metrics_route = probe_route ''metrics'' InternalKey"

definition routes :: "Route list" where
  "routes =
     health_routes @ metrics_route # trackpro_route # swingmetric_route # proswing_route # shots_routes
       @ stats_routes @ [link_identity_route, list_identities_route, unlink_identity_route]"

lemmas route_defs = routes_def health_routes_def metrics_route_def trackpro_route_def swingmetric_route_def
  proswing_route_def shots_routes_def stats_routes_def link_identity_route_def list_identities_route_def
  unlink_identity_route_def probe_route_def query_route_def identity_route_def

section \<open>Paths\<close>

text \<open>\<open>setGlobalPrefix("v1", ...)\<close> with its exclusions.\<close>

definition global_prefix :: "Route \<Rightarrow> js_string list" where
  "global_prefix r =
     (if rt_method r = GET \<and> rt_path r \<in> {[''healthz''], [''readyz''], [''metrics'']} then rt_path r
      else ''v1'' # rt_path r)"

definition is_param :: "js_string \<Rightarrow> bool" where
  "is_param seg = startsWith '':'' seg"

definition path_matches :: "js_string list \<Rightarrow> js_string list \<Rightarrow> bool" where
  "path_matches pat path =
     list_all2 (\<lambda>p seg. if is_param p then seg \<noteq> [] else p = seg) pat path"

definition find_route :: "http_method \<Rightarrow> js_string list \<Rightarrow> Route option" where
  "find_route verb path = find (\<lambda>r. rt_method r = verb \<and> path_matches (global_prefix r) path) routes"

text \<open>Two patterns that some path could match.\<close>

definition overlap :: "js_string list \<Rightarrow> js_string list \<Rightarrow> bool" where
  "overlap p q = list_all2 (\<lambda>a b. is_param a \<or> is_param b \<or> a = b) p q"

lemma matches_overlap:
  assumes "path_matches p path" and "path_matches q path"
  shows "overlap p q"
  using assms
proof (induction p arbitrary: q path)
  case (Cons a p)
  then obtain seg path' where path: "path = seg # path'" by (auto simp: path_matches_def list_all2_Cons1)
  with Cons.prems obtain b q' where q: "q = b # q'" by (auto simp: path_matches_def list_all2_Cons2)
  have "overlap p q'" using Cons by (auto simp: path q path_matches_def)
  then show ?case using Cons.prems by (auto simp: path q path_matches_def overlap_def split: if_splits)
qed (auto simp: path_matches_def overlap_def)

text \<open>No request has two routes: the order in which they are registered does not matter.\<close>

lemma route_patterns:
  "map (\<lambda>r. (rt_method r, global_prefix r)) routes =
     [(GET, [''healthz'']), (GET, [''readyz'']), (GET, [''metrics'']),
      (POST, [''v1'', ''webhooks'', ''trackpro'']), (POST, [''v1'', ''webhooks'', ''swingmetric'']),
      (POST, [''v1'', ''webhooks'', ''proswing'']),
      (GET, [''v1'', ''users'', '':user_id'', ''shots'']),
      (GET, [''v1'', ''users'', ''by-vendor'', '':vendor'', '':vendor_user_id'', ''shots'']),
      (GET, [''v1'', ''users'', '':user_id'', ''stats'']),
      (GET, [''v1'', ''users'', ''by-vendor'', '':vendor'', '':vendor_user_id'', ''stats'']),
      (POST, [''v1'', ''users'', '':canonical_user_id'', ''identities'']),
      (GET, [''v1'', ''users'', '':canonical_user_id'', ''identities'']),
      (DELETE, [''v1'', ''users'', '':canonical_user_id'', ''identities'', '':vendor'', '':vendor_user_id''])]"
  by (simp add: route_defs global_prefix_def)

lemma is_param_simps [simp]: "is_param (CHR '':'' # s)" "c \<noteq> CHR '':'' \<Longrightarrow> \<not> is_param (c # s)"
  by (simp_all add: is_param_def startsWith_def)

lemma overlap_simps [simp]:
  "overlap [] []" "\<not> overlap (a # p) []" "\<not> overlap [] (b # q)"
  "overlap (a # p) (b # q) \<longleftrightarrow> (is_param a \<or> is_param b \<or> a = b) \<and> overlap p q"
  by (simp_all add: overlap_def)

lemma routes_apart:
  "sorted_wrt (\<lambda>(m, p) (n, q). m = n \<longrightarrow> \<not> overlap p q) (map (\<lambda>r. (rt_method r, global_prefix r)) routes)"
  unfolding route_patterns by simp

lemma find_hit: "find P xs = Some x \<Longrightarrow> x \<in> set xs \<and> P x"
  by (induction xs) (auto split: if_splits)

lemma find_route_unique:
  assumes "r \<in> set routes" and "path_matches (global_prefix r) path"
  shows "find_route (rt_method r) path = Some r"
proof -
  have sym: "overlap p q \<longleftrightarrow> overlap q p" for p q
    by (auto simp: overlap_def list_all2_conv_all_nth)
  have "s = r" if s: "s \<in> set routes" "rt_method s = rt_method r" "path_matches (global_prefix s) path" for s
  proof (rule ccontr)
    assume "s \<noteq> r"
    moreover obtain i j where "i < length routes" "routes ! i = s" "j < length routes" "routes ! j = r"
      using assms(1) s(1) by (metis in_set_conv_nth)
    ultimately have "\<not> overlap (global_prefix s) (global_prefix r)"
      using s(2) sym sorted_wrt_nth_less [OF routes_apart, of i j] sorted_wrt_nth_less [OF routes_apart, of j i]
      by (cases i j rule: linorder_cases) auto
    then show False using matches_overlap [OF s(3) assms(2)] by simp
  qed
  then have "find_route (rt_method r) path = None \<or> find_route (rt_method r) path = Some r"
    by (cases "find_route (rt_method r) path") (auto simp: find_route_def dest!: find_hit)
  then show ?thesis using assms by (auto simp: find_route_def find_None_iff)
qed

section \<open>Throttling\<close>

definition throttlers :: "Throttler list" where
  "throttlers =
     [\<lparr>th_name = ''default'', th_ttl = 60000, th_limit = 1000\<rparr>, throttle ''webhook'' 200,
      throttle ''query'' 50, throttle ''write'' 100]"

text \<open>The library's reading of a method's and its class's skip decorators for the throttler of a name.\<close>

type_synonym skip_rule = "skip_decorator \<Rightarrow> skip_decorator \<Rightarrow> js_string \<Rightarrow> bool"

definition throttler_doc :: "skip_rule \<Rightarrow> bool" where
  "throttler_doc skips \<longleftrightarrow>
     (\<forall>n. \<not> skips NoSkip NoSkip n)
     \<and> (\<forall>m n. skips m SkipBare n = skips m (SkipNames [(''default'', True)]) n)
     \<and> (\<forall>c n. skips SkipBare c n = skips (SkipNames [(''default'', True)]) c n)
     \<and> (\<forall>xs n. skips NoSkip (SkipNames xs) n \<longleftrightarrow> map_of xs n = Some True)
     \<and> (\<forall>xs c n b. map_of xs n = Some b \<longrightarrow> skips (SkipNames xs) c n = b)"

text \<open>For a name the method's object does not mention, its class decides, or nothing is skipped.\<close>

definition merges :: "skip_rule \<Rightarrow> bool" where
  "merges skips \<longleftrightarrow> (\<forall>xs c n. map_of xs n = None \<longrightarrow> skips (SkipNames xs) c n = skips NoSkip c n)"

definition replaces :: "skip_rule \<Rightarrow> bool" where
  "replaces skips \<longleftrightarrow> (\<forall>xs c n. map_of xs n = None \<longrightarrow> \<not> skips (SkipNames xs) c n)"

definition throttlers_of :: "skip_rule \<Rightarrow> Route \<Rightarrow> Throttler list" where
  "throttlers_of skips r = filter (\<lambda>t. \<not> skips (rt_method_skip r) (rt_class_skip r) (th_name t)) throttlers"

abbreviation tiers :: "skip_rule \<Rightarrow> Route \<Rightarrow> js_string list" where
  "tiers skips r \<equiv> map th_name (throttlers_of skips r)"

text \<open>\<open>skipIf\<close>, then every throttler that applies; \<open>below\<close> is the storage's verdict on the request.\<close>

definition throttled :: "skip_rule \<Rightarrow> Env \<Rightarrow> (Throttler \<Rightarrow> bool) \<Rightarrow> Route \<Rightarrow> bool" where
  "throttled skips e below r \<longleftrightarrow> THROTTLE_ENABLED e \<and> list_ex (\<lambda>t. \<not> below t) (throttlers_of skips r)"

lemma tiers_def2:
  "tiers skips r = filter (\<lambda>n. \<not> skips (rt_method_skip r) (rt_class_skip r) n) [''default'', ''webhook'', ''query'', ''write'']"
  by (simp add: throttlers_of_def throttlers_def throttle_def)

lemma skip_simps:
  assumes "throttler_doc skips"
  shows "\<not> skips NoSkip NoSkip n"
    and "skips NoSkip SkipBare n \<longleftrightarrow> n = ''default''"
    and "skips NoSkip (SkipNames xs) n \<longleftrightarrow> map_of xs n = Some True"
  using assms unfolding throttler_doc_def by (metis, auto)

lemma class_tiers:
  assumes "throttler_doc skips"
  shows "r \<in> {trackpro_route, swingmetric_route, proswing_route} \<Longrightarrow> tiers skips r = [''webhook'']"
    and "r \<in> set (shots_routes @ stats_routes) \<Longrightarrow> tiers skips r = [''query'']"
    and "r \<in> {link_identity_route, unlink_identity_route} \<Longrightarrow> tiers skips r = [''write'']"
    and "r \<in> set (metrics_route # health_routes) \<Longrightarrow> tiers skips r = [''webhook'', ''query'', ''write'']"
  by (auto simp: tiers_def2 route_defs skip_simps [OF assms])

lemma list_named:
  assumes "throttler_doc skips" and "n \<in> {''default'', ''webhook'', ''write''}"
  shows "skips (rt_method_skip list_identities_route) c n"
proof -
  have "map_of [(''default'', True), (''webhook'', True), (''write'', True)] n = Some True" using assms(2) by auto
  then show ?thesis
    using assms(1) unfolding throttler_doc_def list_identities_route_def by simp
qed

lemma list_skip:
  "rt_method_skip list_identities_route = SkipNames [(''default'', True), (''webhook'', True), (''write'', True)]"
  "rt_class_skip list_identities_route = SkipNames [(''default'', True), (''webhook'', True), (''query'', True)]"
  by (simp_all add: list_identities_route_def identity_route_def)

lemma list_tiers:
  assumes "throttler_doc skips"
  shows "merges skips \<Longrightarrow> tiers skips list_identities_route = []"
    and "replaces skips \<Longrightarrow> tiers skips list_identities_route = [''query'']"
proof -
  let ?xs = "[(''default'', True), (''webhook'', True), (''write'', True)]"
  have q: "map_of ?xs ''query'' = None" by simp
  show "tiers skips list_identities_route = []" if "merges skips"
  proof -
    have "skips (rt_method_skip list_identities_route) (rt_class_skip list_identities_route) ''query''"
      using that q unfolding merges_def list_skip by (simp add: skip_simps [OF assms])
    then show ?thesis using list_named [OF assms] by (simp add: tiers_def2)
  qed
  show "tiers skips list_identities_route = [''query'']" if "replaces skips"
  proof -
    have "\<not> skips (rt_method_skip list_identities_route) (rt_class_skip list_identities_route) ''query''"
      using that q unfolding replaces_def list_skip by blast
    then show ?thesis using list_named [OF assms] by (simp add: tiers_def2)
  qed
qed

section \<open>From the request to the handler\<close>

text \<open>The controller's guard.\<close>

definition route_guard ::
    "(js_string \<Rightarrow> js_string \<Rightarrow> js_string) \<Rightarrow> Env \<Rightarrow> Route \<Rightarrow> WebhookRequest \<Rightarrow> exn + bool" where
  "route_guard hmac e r rq =
     (case rt_protection r of
        Unguarded \<Rightarrow> Inr True
      | InternalKey \<Rightarrow> InternalApiGuard e (wr_headers rq)
      | VendorKey v \<Rightarrow> fst (WebhookAuthGuard hmac e (Some v) rq))"

text \<open>The second \<open>onRequest\<close> hook answers \<open>OPTIONS\<close>; a request without a route is a 404. The
  throttler is a global guard and runs before the controller's.\<close>

definition serve ::
    "(js_string \<Rightarrow> js_string \<Rightarrow> js_string) \<Rightarrow> skip_rule \<Rightarrow> Env \<Rightarrow> (Throttler \<Rightarrow> bool) \<Rightarrow> http_method
       \<Rightarrow> js_string list \<Rightarrow> WebhookRequest \<Rightarrow> (Route \<Rightarrow> 's \<Rightarrow> (exn + 'a) \<times> 's) \<Rightarrow> 's \<Rightarrow> (exn + 'a option) \<times> 's" where
  "serve hmac skips e below verb path rq handler s =
     (if verb = OPTIONS then (Inr None, s)
      else case find_route verb path of
             None \<Rightarrow> (Inl (Http 404 None None), s)
           | Some r \<Rightarrow>
               if throttled skips e below r then (Inl (Http 429 None None), s)
               else (case behind (route_guard hmac e r rq) (handler r) s of
                       (Inl x, s') \<Rightarrow> (Inl x, s')
                     | (Inr a, s') \<Rightarrow> (Inr (Some a), s')))"

text \<open>What a request must carry for a route, in production.\<close>

definition authorised ::
    "(js_string \<Rightarrow> js_string \<Rightarrow> js_string) \<Rightarrow> Env \<Rightarrow> Route \<Rightarrow> WebhookRequest \<Rightarrow> bool" where
  "authorised hmac e r rq \<longleftrightarrow>
     (case rt_protection r of
        Unguarded \<Rightarrow> rt_path r \<in> {[''healthz''], [''readyz'']}
      | InternalKey \<Rightarrow>
          (\<exists>k. INTERNAL_API_KEY e = Some k \<and> 32 \<le> length k \<and> wr_headers rq ''authorization'' = Some (''Bearer '' @ k))
      | VendorKey v \<Rightarrow> (\<exists>k. 32 \<le> length k \<and> (presents_key e v rq k \<or> presents_signature hmac e v rq k)))"

lemma route_guard_production:
  assumes "validate cfg = Inr e" and "NODE_ENV e = Production"
    and "0 \<le> wr_now rq" and "wr_now rq \<le> 2 ^ 53" and "r \<in> set routes"
  shows "route_guard hmac e r rq = (if authorised hmac e r rq then Inr True else Inl UnauthorizedException)"
proof (cases "rt_protection r")
  case Unguarded
  then have "rt_path r \<in> {[''healthz''], [''readyz'']}" using assms(5) by (auto simp: route_defs)
  then show ?thesis using Unguarded by (simp add: route_guard_def authorised_def)
next
  case InternalKey
  obtain k where k: "INTERNAL_API_KEY e = Some k" "32 \<le> length k"
    using production_secrets(2) [OF assms(1,2)] by blast
  then have "k \<noteq> []" by auto
  then show ?thesis using k InternalKey internal_guard.admit_iff [of "(e, wr_headers rq)"]
    by (auto simp: route_guard_def authorised_def internal_credential_def)
next
  case (VendorKey v)
  have "(\<exists>k. 32 \<le> length k \<and> (presents_key e v rq k \<or> presents_signature hmac e v rq k))
      \<longleftrightarrow> (\<exists>k. presents_key e v rq k \<or> presents_signature hmac e v rq k)"
    using production_secrets(3) [OF assms(1,2)] by blast
  then show ?thesis
    using VendorKey production_secrets(1) [OF assms(1,2)] webhook_guarded.admit_iff [of "(hmac, e, v, rq)"] assms(3,4)
    by (auto simp: route_guard_def authorised_def webhook_credential_def)
qed

text \<open>C5: In production, with an environment that \<open>validate\<close> has accepted, every request is
  answered in exactly one of these ways: \<open>OPTIONS\<close> with an empty 204, an unknown method or path with a 404,
  a request over a limit of its route with a 429, a request without its route's credential with a
  401, all of them leaving the state as it was; and only otherwise does the route's handler run. No route but
  the two probes runs its handler without a credential of at least 32 characters. (The decorators
  cover every route, and each webhook's guard reads the vendor whose parser runs.)\<close>

theorem api_authenticated:
  assumes "validate cfg = Inr e" and "NODE_ENV e = Production"
    and "0 \<le> wr_now rq" and "wr_now rq \<le> 2 ^ 53"
  shows "serve hmac skips e below verb path rq handler s =
           (if verb = OPTIONS then (Inr None, s)
            else case find_route verb path of
                   None \<Rightarrow> (Inl (Http 404 None None), s)
                 | Some r \<Rightarrow>
                     if list_ex (\<lambda>t. \<not> below t) (throttlers_of skips r) then (Inl (Http 429 None None), s)
                     else if \<not> authorised hmac e r rq then (Inl UnauthorizedException, s)
                     else map_prod (map_sum id Some) id (handler r s))"
proof (cases "find_route verb path")
  case (Some r)
  then have "r \<in> set routes" by (auto simp: find_route_def find_Some_iff)
  note g = route_guard_production [OF assms this, of hmac]
  have "THROTTLE_ENABLED e" using validate_Inr(2) [OF assms(1,2)] by (simp add: secure_env_def)
  then show ?thesis using Some g
    by (auto simp: serve_def throttled_def behind_def split: sum.splits prod.splits)
qed (simp add: serve_def)

theorem api_authenticated_witness:
  "serve (@) (\<lambda>m c n. False) sample_env_typed (\<lambda>t. True) POST [''v1'', ''webhooks'', ''trackpro''] sample_request
       (\<lambda>r n. (Inr (rt_status r), n + 1)) (0::nat) = (Inr (Some 202), 1)
   \<and> serve (@) (\<lambda>m c n. False) sample_env_typed (\<lambda>t. True) POST [''v1'', ''webhooks'', ''proswing''] sample_request
       (\<lambda>r n. (Inr (rt_status r), n + 1)) (0::nat) = (Inl UnauthorizedException, 0)"
proof -
  note v = sample_validated(2)
  have p: "NODE_ENV sample_env_typed = Production" "0 \<le> wr_now sample_request" "wr_now sample_request \<le> 2 ^ 53"
    by (simp_all add: sample_env_typed_def sample_request_def)
  have t: "find_route POST [''v1'', ''webhooks'', ''trackpro''] = Some trackpro_route"
    "find_route POST [''v1'', ''webhooks'', ''proswing''] = Some proswing_route"
    using find_route_unique [of trackpro_route "[''v1'', ''webhooks'', ''trackpro'']"]
      find_route_unique [of proswing_route "[''v1'', ''webhooks'', ''proswing'']"]
    by (simp_all add: routes_def) (simp_all add: route_defs path_matches_def global_prefix_def)
  have k: "32 \<le> length ''0123456789abcdef0123456789abcdef''" by simp
  have a: "authorised (@) sample_env_typed trackpro_route sample_request"
    unfolding authorised_def trackpro_route_def using sample_signature k
    by (auto intro!: exI [of _ "''0123456789abcdef0123456789abcdef''"] simp del: list.size)
  have b: "\<not> authorised (@) sample_env_typed proswing_route sample_request"
    by (simp add: authorised_def proswing_route_def presents_key_def presents_signature_def sample_env_typed_def hmac_secret_of_def)
  note s = api_authenticated [OF v p, where hmac = "(@)" and skips = "\<lambda>m c n. False" and below = "\<lambda>t. True"
      and handler = "\<lambda>r n. (Inr (rt_status r), n + 1)" and s = "0 :: nat" and verb = POST]
  show ?thesis using s [of "[''v1'', ''webhooks'', ''trackpro'']"] s [of "[''v1'', ''webhooks'', ''proswing'']"] t a b
    by (simp add: list_ex_iff trackpro_route_def)
qed

lemma differs_from_list: "rt_method_skip r = NoSkip \<Longrightarrow> r \<noteq> list_identities_route"
  by (auto simp: list_skip)

text \<open>What the theorem below reads off each route.\<close>

lemma route_shapes:
  "r \<in> {trackpro_route, swingmetric_route, proswing_route} \<Longrightarrow> r \<noteq> list_identities_route \<and> (\<exists>v. rt_protection r = VendorKey v)"
  "r \<in> set (shots_routes @ stats_routes) \<Longrightarrow>
     r \<noteq> list_identities_route \<and> rt_protection r = InternalKey \<and> rt_method r = GET \<and> r \<noteq> metrics_route"
  "r \<in> {link_identity_route, unlink_identity_route} \<Longrightarrow>
     r \<noteq> list_identities_route \<and> rt_protection r = InternalKey \<and> rt_method r \<noteq> GET \<and> r \<noteq> metrics_route"
  "r \<in> set health_routes \<Longrightarrow> r \<noteq> list_identities_route \<and> rt_protection r = Unguarded"
  "metrics_route \<noteq> list_identities_route \<and> rt_protection metrics_route = InternalKey"
proof -
  note d = conjI [OF differs_from_list]
  show "r \<in> {trackpro_route, swingmetric_route, proswing_route} \<Longrightarrow> r \<noteq> list_identities_route \<and> (\<exists>v. rt_protection r = VendorKey v)"
    by (rule d) (auto simp: trackpro_route_def swingmetric_route_def proswing_route_def)
  show "r \<in> set (shots_routes @ stats_routes) \<Longrightarrow>
     r \<noteq> list_identities_route \<and> rt_protection r = InternalKey \<and> rt_method r = GET \<and> r \<noteq> metrics_route"
    by (rule d) (auto simp: shots_routes_def stats_routes_def query_route_def metrics_route_def probe_route_def)
  show "r \<in> {link_identity_route, unlink_identity_route} \<Longrightarrow>
     r \<noteq> list_identities_route \<and> rt_protection r = InternalKey \<and> rt_method r \<noteq> GET \<and> r \<noteq> metrics_route"
    by (rule d) (auto simp: link_identity_route_def unlink_identity_route_def identity_route_def metrics_route_def probe_route_def)
  show "r \<in> set health_routes \<Longrightarrow> r \<noteq> list_identities_route \<and> rt_protection r = Unguarded"
    by (rule d) (auto simp: health_routes_def probe_route_def)
  show "metrics_route \<noteq> list_identities_route \<and> rt_protection metrics_route = InternalKey"
    by (rule d) (auto simp: metrics_route_def probe_route_def)
qed

text \<open>C37: Which limits a route has: webhooks 200 requests a second, shots and statistics 50, linking and
  unlinking 100. A bare \<open>@SkipThrottle()\<close> skips only the throttler named \<open>default\<close>, so the
  probes and the metrics endpoint, documented as exempt, are limited by the other three. The list of identities is
  limited to 50 if a method's skip object replaces its class's; if the library merges them name by
  name, no limit applies to it. With \<open>THROTTLE_ENABLED=false\<close> nothing is limited.\<close>

theorem throttle_tiers:
  assumes "throttler_doc skips"
  shows "(\<forall>r \<in> set routes. tiers skips r =
            (if r = list_identities_route then (if skips (rt_method_skip r) (rt_class_skip r) ''query'' then [] else [''query''])
             else case rt_protection r of
                    VendorKey v \<Rightarrow> [''webhook'']
                  | Unguarded \<Rightarrow> [''webhook'', ''query'', ''write'']
                  | InternalKey \<Rightarrow>
                      if r = metrics_route then [''webhook'', ''query'', ''write'']
                      else if rt_method r = GET then [''query''] else [''write'']))
       \<and> (merges skips \<longrightarrow> tiers skips list_identities_route = [])
       \<and> (replaces skips \<longrightarrow> tiers skips list_identities_route = [''query''])
       \<and> (\<forall>r e below. \<not> THROTTLE_ENABLED e \<longrightarrow> \<not> throttled skips e below r)"
proof (intro conjI ballI impI allI)
  fix r assume "r \<in> set routes"
  then consider "r \<in> {trackpro_route, swingmetric_route, proswing_route}" | "r \<in> set (shots_routes @ stats_routes)"
    | "r \<in> {link_identity_route, unlink_identity_route}" | "r \<in> set health_routes" | "r = metrics_route"
    | "r = list_identities_route"
    by (auto simp: routes_def)
  then show "tiers skips r =
            (if r = list_identities_route then (if skips (rt_method_skip r) (rt_class_skip r) ''query'' then [] else [''query''])
             else case rt_protection r of
                    VendorKey v \<Rightarrow> [''webhook'']
                  | Unguarded \<Rightarrow> [''webhook'', ''query'', ''write'']
                  | InternalKey \<Rightarrow>
                      if r = metrics_route then [''webhook'', ''query'', ''write'']
                      else if rt_method r = GET then [''query''] else [''write''])"
  proof cases
    case 1 with class_tiers(1) [OF assms, of r] route_shapes(1) [of r] show ?thesis by auto
  next
    case 2 with class_tiers(2) [OF assms, of r] route_shapes(2) [of r] show ?thesis by auto
  next
    case 3 with class_tiers(3) [OF assms, of r] route_shapes(3) [of r] show ?thesis by auto
  next
    case 4 with class_tiers(4) [OF assms, of r] route_shapes(4) [of r] show ?thesis by auto
  next
    case 5 with class_tiers(4) [OF assms, of r] show ?thesis by (simp add: route_shapes(5))
  next
    case 6 then show ?thesis using list_named [OF assms] by (simp add: tiers_def2 list_skip)
  qed
next
  show "tiers skips list_identities_route = []" if "merges skips" by (rule list_tiers(1) [OF assms that])
  show "tiers skips list_identities_route = [''query'']" if "replaces skips" by (rule list_tiers(2) [OF assms that])
  show "\<not> throttled skips e below r" if "\<not> THROTTLE_ENABLED e" for r e below using that by (simp add: throttled_def)
qed

text \<open>A rule that merges.\<close>

definition skip_object :: "skip_decorator \<Rightarrow> (js_string \<times> bool) list" where
  "skip_object d = (case d of NoSkip \<Rightarrow> [] | SkipBare \<Rightarrow> [(''default'', True)] | SkipNames xs \<Rightarrow> xs)"

definition merge_rule :: skip_rule where
  "merge_rule m c n =
     (case map_of (skip_object m) n of Some b \<Rightarrow> b | None \<Rightarrow> map_of (skip_object c) n = Some True)"

theorem throttle_tiers_witness:
  "throttler_doc merge_rule \<and> merges merge_rule \<and> tiers merge_rule list_identities_route = []
   \<and> tiers merge_rule trackpro_route = [''webhook'']"
proof -
  have d: "throttler_doc merge_rule" "merges merge_rule"
    unfolding throttler_doc_def merges_def by (auto simp: merge_rule_def skip_object_def split: option.splits)
  have r: "trackpro_route \<in> set routes" by (simp add: routes_def)
  have ne: "trackpro_route \<noteq> list_identities_route" and p: "rt_protection trackpro_route = VendorKey Trackpro"
    using route_shapes(1) [of trackpro_route] by (simp_all add: trackpro_route_def)
  note t = throttle_tiers [OF d(1)]
  have "tiers merge_rule trackpro_route = [''webhook'']"
    using bspec [OF conjunct1 [OF t] r] ne p by simp
  then show ?thesis using d t by blast
qed

end
