(* ===== verification/Trackpro.thy ===== *)
theory Trackpro
  imports Shot
begin

text \<open>
  \<open>webhooks/trackpro\<close>: the payload schema and the parser. A payload is one shot in SI units;
  the schema is a strict object, the parser copies the measurements and dates the shot. The
  printed payload (which the parser also stores as \<open>raw_payload\<close>) is read back by the
  schema.
\<close>

section \<open>The schema\<close>

record TrackproPayload =
  tp_shot_uid :: js_string
  tp_user_external_id :: js_string
  tp_session_id :: "js_string option"
  tp_device_id :: "js_string option"
  tp_captured_at :: js_string
  tp_club :: js_string
  tp_ball_speed_mps :: number
  tp_club_head_speed_mps :: "number option"
  tp_launch_angle_deg :: number
  tp_spin_rpm :: "int option"
  tp_carry_distance_m :: number
  tp_total_distance_m :: "number option"
  tp_side_deviation_m :: number

definition is_hex_lower :: "char \<Rightarrow> bool" where
  "is_hex_lower c \<longleftrightarrow> is_digit c \<or> (CHR ''a'' \<le> c \<and> c \<le> CHR ''f'')"

text \<open>A string matched position by position against character classes.\<close>

definition match_classes :: "(char \<Rightarrow> bool) list \<Rightarrow> js_string \<Rightarrow> bool" where
  "match_classes ps s \<longleftrightarrow> length s = length ps \<and> list_all (\<lambda>(p, c). p c) (zip ps s)"

text \<open>\<open>/^tp-\d{4}-\d{2}-\d{2}-[a-f0-9]{8}$/\<close>.\<close>

definition shot_uid_format :: "js_string \<Rightarrow> bool" where
  "shot_uid_format s \<longleftrightarrow>
     match_classes
       ([(=) CHR ''t'', (=) CHR ''p'', (=) CHR ''-'']
        @ replicate 4 is_digit @ [(=) CHR ''-''] @ replicate 2 is_digit @ [(=) CHR ''-'']
        @ replicate 2 is_digit @ [(=) CHR ''-''] @ replicate 8 is_hex_lower) s"

definition TrackproPayloadSchema :: "Platform \<Rightarrow> TrackproPayload schema" where
  "TrackproPayloadSchema P v =
     do { kvs \<leftarrow> z_strict [''shot_uid'', ''user_external_id'', ''session_id'', ''device_id'',
                        ''captured_at'', ''club'', ''ball_speed_mps'', ''club_head_speed_mps'',
                        ''launch_angle_deg'', ''spin_rpm'', ''carry_distance_m'',
                        ''total_distance_m'', ''side_deviation_m''] v;
          shot_uid \<leftarrow> z_format shot_uid_format (get kvs ''shot_uid'');
          user_external_id \<leftarrow> z_string 1 255 (get kvs ''user_external_id'');
          session_id \<leftarrow> z_optional (z_string 1 255) (get kvs ''session_id'');
          device_id \<leftarrow> z_optional (z_string 1 255) (get kvs ''device_id'');
          captured_at \<leftarrow> z_format (datetime_ok P) (get kvs ''captured_at'');
          club \<leftarrow> z_string 1 64 (get kvs ''club'');
          ball_speed_mps \<leftarrow> z_number 0 120 (get kvs ''ball_speed_mps'');
          club_head_speed_mps \<leftarrow> z_optional (z_number 0 100) (get kvs ''club_head_speed_mps'');
          launch_angle_deg \<leftarrow> z_number (- 10) 70 (get kvs ''launch_angle_deg'');
          spin_rpm \<leftarrow> z_optional (z_int 0 15000) (get kvs ''spin_rpm'');
          carry_distance_m \<leftarrow> z_number 0 450 (get kvs ''carry_distance_m'');
          total_distance_m \<leftarrow> z_optional (z_number 0 500) (get kvs ''total_distance_m'');
          side_deviation_m \<leftarrow> z_number (- 200) 200 (get kvs ''side_deviation_m'');
          Some \<lparr>tp_shot_uid = shot_uid, tp_user_external_id = user_external_id,
                tp_session_id = session_id, tp_device_id = device_id,
                tp_captured_at = captured_at, tp_club = club,
                tp_ball_speed_mps = ball_speed_mps, tp_club_head_speed_mps = club_head_speed_mps,
                tp_launch_angle_deg = launch_angle_deg, tp_spin_rpm = spin_rpm,
                tp_carry_distance_m = carry_distance_m, tp_total_distance_m = total_distance_m,
                tp_side_deviation_m = side_deviation_m\<rparr> }"

text \<open>The parsed payload as an object: the keys in the order of the shape, absent optional keys
  left out.\<close>

definition trackpro_json :: "TrackproPayload \<Rightarrow> jsval" where
  "trackpro_json p =
     JObj ([(''shot_uid'', JStr (tp_shot_uid p)),
            (''user_external_id'', JStr (tp_user_external_id p))]
           @ opt_field ''session_id'' (map_option JStr (tp_session_id p))
           @ opt_field ''device_id'' (map_option JStr (tp_device_id p))
           @ [(''captured_at'', JStr (tp_captured_at p)), (''club'', JStr (tp_club p)),
              (''ball_speed_mps'', JNum (tp_ball_speed_mps p))]
           @ opt_field ''club_head_speed_mps'' (map_option JNum (tp_club_head_speed_mps p))
           @ [(''launch_angle_deg'', JNum (tp_launch_angle_deg p))]
           @ opt_field ''spin_rpm'' (map_option (\<lambda>i. JNum (of_int i)) (tp_spin_rpm p))
           @ [(''carry_distance_m'', JNum (tp_carry_distance_m p))]
           @ opt_field ''total_distance_m'' (map_option JNum (tp_total_distance_m p))
           @ [(''side_deviation_m'', JNum (tp_side_deviation_m p))])"

section \<open>The parser\<close>

definition parseTrackpro ::
    "Platform \<Rightarrow> (nat \<Rightarrow> js_string) \<Rightarrow> TrackproPayload \<Rightarrow> js_string \<Rightarrow> exn + NormalisedShot list" where
  "parseTrackpro P ulid payload receivedAtUtc =
     (case toISOString (date_parse (legacy_date P) (tp_captured_at payload)) of
        None \<Rightarrow> Inl RangeError
      | Some capturedAtUtc \<Rightarrow>
          let clubCode = normaliseClub (tp_club payload);
              ballSpeedMps = tp_ball_speed_mps payload;
              carryM = tp_carry_distance_m payload;
              lateralM = tp_side_deviation_m payload
          in Inr [\<lparr>canonical_shot_id = ulid 0,
                   vendor = Trackpro,
                   vendor_shot_id = Some (tp_shot_uid payload),
                   idempotency_key = ''tp|'' @ tp_shot_uid payload,
                   vendor_user_id = tp_user_external_id payload,
                   canonical_user_id = None,
                   captured_at_utc = capturedAtUtc,
                   captured_at_tz_offset_min = None,
                   received_at_utc = receivedAtUtc,
                   club_code = clubCode,
                   club_raw = tp_club payload,
                   ball_speed_mps = ballSpeedMps,
                   club_head_speed_mps = tp_club_head_speed_mps payload,
                   launch_angle_deg = tp_launch_angle_deg payload,
                   spin_rpm = tp_spin_rpm payload,
                   carry_m = carryM,
                   total_m = tp_total_distance_m payload,
                   lateral_m = lateralM,
                   device_id = tp_device_id payload,
                   session_id = tp_session_id payload,
                   content_hash = computeContentHash (sha256 P)
                     \<lparr>ch_vendor_user_id = tp_user_external_id payload,
                      ch_club_code = club_string clubCode,
                      ch_captured_at_utc = capturedAtUtc,
                      ch_ball_speed_mps = ballSpeedMps,
                      ch_launch_angle_deg = tp_launch_angle_deg payload,
                      ch_carry_m = carryM,
                      ch_lateral_m = lateralM\<rparr>,
                   schema_version = 1,
                   parser_version = ''1.0.0'',
                   duplicate_of = None,
                   raw_payload = trackpro_json payload\<rparr>])"

section \<open>Lemmas\<close>

text \<open>What the schema promises of a payload.\<close>

definition trackpro_ok :: "Platform \<Rightarrow> TrackproPayload \<Rightarrow> bool" where
  "trackpro_ok P p \<longleftrightarrow>
     shot_uid_format (tp_shot_uid p)
     \<and> length (tp_user_external_id p) \<in> {1..255}
     \<and> pred_option (\<lambda>s. length s \<in> {1..255}) (tp_session_id p)
     \<and> pred_option (\<lambda>s. length s \<in> {1..255}) (tp_device_id p)
     \<and> datetime_ok P (tp_captured_at p) \<and> length (tp_club p) \<in> {1..64}
     \<and> tp_ball_speed_mps p \<in> {0..120}
     \<and> pred_option (\<lambda>x. x \<in> {0..100}) (tp_club_head_speed_mps p)
     \<and> tp_launch_angle_deg p \<in> {- 10..70}
     \<and> pred_option (\<lambda>x. x \<in> {0..15000}) (tp_spin_rpm p)
     \<and> tp_carry_distance_m p \<in> {0..450}
     \<and> pred_option (\<lambda>x. x \<in> {0..500}) (tp_total_distance_m p)
     \<and> tp_side_deviation_m p \<in> {- 200..200}"

lemma schema_accepts_ok: "TrackproPayloadSchema P v = Some p \<Longrightarrow> trackpro_ok P p"
  by (clarsimp simp: TrackproPayloadSchema_def bind_eq_Some_conv trackpro_ok_def simp del: atLeastAtMost_iff)
    (intro conjI; (erule z_bounds | assumption))

lemma schema_of_json:
  assumes "trackpro_ok P p"
  shows "TrackproPayloadSchema P (trackpro_json p) = Some p"
  using assms
  by (simp add: TrackproPayloadSchema_def trackpro_json_def z_strict_def list_all_opt_field
      option.pred_map o_def get_append get_opt_field z_optional_printed trackpro_ok_def option.pred_True)

lemmas parseTrackpro_simps = parseTrackpro_def toISOString_def Let_def

lemma parseTrackpro_cases:
  "parseTrackpro P ids p received = Inl e \<longleftrightarrow>
     date_parse (legacy_date P) (tp_captured_at p) = None \<and> e = RangeError"
  by (auto simp: parseTrackpro_simps split: option.splits)

definition accepts_trackpro :: "Platform \<Rightarrow> TrackproPayload \<Rightarrow> bool" where
  "accepts_trackpro P p \<longleftrightarrow> TrackproPayloadSchema P (trackpro_json p) = Some p"

lemma accepts_trackpro_ok: "accepts_trackpro P p \<longleftrightarrow> trackpro_ok P p"
  unfolding accepts_trackpro_def using schema_accepts_ok schema_of_json by blast

lemma parseTrackpro_fresh:
  assumes "trackpro_ok P p" and "parseTrackpro P ids p received = Inr shots" and "s \<in> set shots"
  shows "fresh_shot Trackpro (sha256 P) received s"
proof -
  obtain t where t: "date_parse (legacy_date P) (tp_captured_at p) = Some t" "\<bar>t\<bar> \<le> 8640000000000000"
    using assms(2) date_parse_range
    by (auto simp: parseTrackpro_simps split: option.splits)
  show ?thesis
    using assms t
    by (auto simp: parseTrackpro_simps fresh_shot_def hash_input_def trackpro_ok_def abs_le_iff)
qed

interpretation tp_parser: vendor_parser Trackpro accepts_trackpro parseTrackpro
  by unfold_locales (auto simp: accepts_trackpro_ok parseTrackpro_cases intro: parseTrackpro_fresh)

section \<open>Properties\<close>

text \<open>A concrete payload for the witnesses.\<close>

definition sample_trackpro :: TrackproPayload where
  "sample_trackpro =
     \<lparr>tp_shot_uid = ''tp-2024-01-15-00a1b2c3'', tp_user_external_id = ''user-1'',
      tp_session_id = None, tp_device_id = Some ''dev-1'', tp_captured_at = ''2024-01-15T10:30:00+02:00'',
      tp_club = ''7 Iron'', tp_ball_speed_mps = 55, tp_club_head_speed_mps = None,
      tp_launch_angle_deg = 18, tp_spin_rpm = Some 6500, tp_carry_distance_m = 140,
      tp_total_distance_m = Some 150, tp_side_deviation_m = - 3\<rparr>"

lemma sample_trackpro_time: "iso_parse ''2024-01-15T10:30:00+02:00'' = Some 1705307400000"
  by code_simp

lemma sample_trackpro_ok: "trackpro_ok sample_platform sample_trackpro"
proof -
  have "shot_uid_format ''tp-2024-01-15-00a1b2c3''" by code_simp
  then show ?thesis
    by (simp add: trackpro_ok_def sample_platform_def sample_trackpro_def sample_trackpro_time)
qed



text \<open>The payload a shot keeps as \<open>raw_payload\<close> is complete: run through the schema
  again it gives the payload that was parsed, so a stored shot can be replayed.\<close>

theorem trackpro_raw_replay:
  assumes "TrackproPayloadSchema P v = Some p" and "parseTrackpro P ids p received = Inr shots"
    and "s \<in> set shots"
  shows "TrackproPayloadSchema P (raw_payload s) = Some p"
proof -
  have "raw_payload s = trackpro_json p"
    using assms(2,3) by (auto simp: parseTrackpro_simps split: option.splits)
  then show ?thesis using schema_of_json [OF schema_accepts_ok [OF assms(1)]] by simp
qed

theorem trackpro_raw_replay_witness:
  "\<exists>s. parseTrackpro sample_platform (\<lambda>i. ''01J'') sample_trackpro [] = Inr [s]
       \<and> TrackproPayloadSchema sample_platform (raw_payload s) = Some sample_trackpro"
proof -
  obtain s where s: "parseTrackpro sample_platform (\<lambda>i. ''01J'') sample_trackpro [] = Inr [s]"
    by (auto simp: parseTrackpro_simps sample_trackpro_def sample_platform_def date_parse_def
        sample_trackpro_time)
  from trackpro_raw_replay [OF schema_of_json [OF sample_trackpro_ok] s] s show ?thesis by simp
qed

end
