(* ===== verification/Units.thy ===== *)
theory Units
  imports Js_Number
begin

text \<open>
  \<open>shared/domain/units.ts\<close>: conversions to SI units, each a product with a constant
  in binary64. The contract the parsers rely on (a conversion fixes zero, keeps order and
  sign, and is odd) is the locale \<open>unit_conversion\<close>; every conversion of the file is an
  interpretation of it.
\<close>

section \<open>Constants and conversions\<close>

definition MPH_TO_MPS :: number where
  "MPH_TO_MPS = fl (44704 / 100000)"

definition KPH_TO_MPS :: number where
  "KPH_TO_MPS = fl (1 / fl (36 / 10))"

definition FT_TO_M :: number where
  "FT_TO_M = fl (3048 / 10000)"

definition YD_TO_M :: number where
  "YD_TO_M = fl (9144 / 10000)"

definition INCH_TO_M :: number where
  "INCH_TO_M = fl (254 / 10000)"

definition mphToMps :: "number \<Rightarrow> number" where
  "mphToMps mph = fl (mph * MPH_TO_MPS)"

definition kphToMps :: "number \<Rightarrow> number" where
  "kphToMps kph = fl (kph * KPH_TO_MPS)"

definition mpsToMps :: "number \<Rightarrow> number" where
  "mpsToMps mps = mps"

definition ftToM :: "number \<Rightarrow> number" where
  "ftToM ft = fl (ft * FT_TO_M)"

definition ydToM :: "number \<Rightarrow> number" where
  "ydToM yd = fl (yd * YD_TO_M)"

definition inchToM :: "number \<Rightarrow> number" where
  "inchToM inches = fl (inches * INCH_TO_M)"

definition rpmToRpm :: "number \<Rightarrow> number" where
  "rpmToRpm rpm = rpm"

section \<open>The contract of a conversion\<close>

locale unit_conversion =
  fixes conv :: "number \<Rightarrow> number"
  assumes conv_minus: "conv (- x) = - conv x"
    and conv_mono: "x \<le> y \<Longrightarrow> conv x \<le> conv y"
begin

lemma conv_zero: "conv 0 = 0"
  using conv_minus [of 0] by simp

lemma conv_nonneg: "0 \<le> x \<Longrightarrow> 0 \<le> conv x"
  using conv_mono [of 0 x] conv_zero by simp

lemma conv_range: "lo \<le> x \<Longrightarrow> x \<le> hi \<Longrightarrow> conv lo \<le> conv x \<and> conv x \<le> conv hi"
  by (simp add: conv_mono)

lemma conv_abs: "\<bar>x\<bar> \<le> b \<Longrightarrow> \<bar>conv x\<bar> \<le> conv b"
  using conv_mono [of x b] conv_mono [of "- b" x] conv_minus [of b] by (auto simp: abs_le_iff)

end

lemma constants_eval:
  "MPH_TO_MPS = 4026578354839413 / 9007199254740992"
  "KPH_TO_MPS = 2501999792983609 / 9007199254740992"
  "FT_TO_M = 5490788665690109 / 18014398509481984"
  "YD_TO_M = 8236182998535163 / 9007199254740992"
  "INCH_TO_M = 3660525777126739 / 144115188075855872"
  by (simp_all add: MPH_TO_MPS_def KPH_TO_MPS_def FT_TO_M_def YD_TO_M_def INCH_TO_M_def fl_eval)

lemma constants_nonneg:
  "0 \<le> MPH_TO_MPS" "0 \<le> KPH_TO_MPS" "0 \<le> FT_TO_M" "0 \<le> YD_TO_M" "0 \<le> INCH_TO_M"
  by (simp_all add: constants_eval)

lemma scaled_minus: "fl (- x * c) = - fl (x * c)"
  by (simp add: fl_minus)

lemma scaled_mono: "0 \<le> c \<Longrightarrow> x \<le> y \<Longrightarrow> fl (x * c) \<le> fl (y * c)"
  by (intro fl_mono mult_right_mono)

interpretation mph: unit_conversion mphToMps
  by unfold_locales (simp_all add: mphToMps_def scaled_minus scaled_mono constants_nonneg fl_minus)

interpretation kph: unit_conversion kphToMps
  by unfold_locales (simp_all add: kphToMps_def scaled_minus scaled_mono constants_nonneg fl_minus)

interpretation mps: unit_conversion mpsToMps
  by unfold_locales (simp_all add: mpsToMps_def)

interpretation ft: unit_conversion ftToM
  by unfold_locales (simp_all add: ftToM_def scaled_minus scaled_mono constants_nonneg fl_minus)

interpretation yd: unit_conversion ydToM
  by unfold_locales (simp_all add: ydToM_def scaled_minus scaled_mono constants_nonneg fl_minus)

interpretation inch: unit_conversion inchToM
  by unfold_locales (simp_all add: inchToM_def scaled_minus scaled_mono constants_nonneg fl_minus)

interpretation rpm: unit_conversion rpmToRpm
  by unfold_locales (simp_all add: rpmToRpm_def)

text \<open>The images of the bounds the vendor schemas put on the measurements.\<close>

lemma converted_bounds:
  "mphToMps 268 < 120" "mphToMps 230 < 103" "kphToMps 430 < 120" "kphToMps 370 < 103"
  "ydToM 490 < 450" "ydToM 545 < 500" "ydToM 220 < 202" "200 < ydToM 220" "100 < mphToMps 230"
  by (simp_all add: mphToMps_def kphToMps_def ydToM_def constants_eval fl_eval)

lemma proswing_bounds:
  "mphToMps 500 < 224" "kphToMps 500 < 139" "ydToM 700 < 641" "ftToM 1500 < 458"
  by (simp_all add: mphToMps_def kphToMps_def ydToM_def ftToM_def constants_eval fl_eval)

end
