(* ===== verification/Swingmetric.thy ===== *)
theory Swingmetric
  imports Trackpro Units "HOL-Library.AList"
begin

text \<open>
  \<open>webhooks/swingmetric\<close>: a batch of 1 to 500 shots in imperial units, in two wire formats.
  \<open>normaliseShot\<close> renames the fields of either format before the strict schema runs; the
  parser converts the units, dates each shot from its epoch milliseconds and keys it by player,
  device and second.
\<close>

section \<open>The schema\<close>

text \<open>The own enumerable properties of a value of type \<open>object\<close> other than \<open>null\<close>;
  an array has its indices.\<close>

definition object_entries :: "jsval \<Rightarrow> (js_string \<times> jsval) list option" where
  "object_entries v =
     (case v of
        JObj kvs \<Rightarrow> Some kvs
      | JArr vs \<Rightarrow> Some (zip (map show_nat [0..<length vs]) vs)
      | _ \<Rightarrow> None)"

definition normaliseShot :: "jsval \<Rightarrow> jsval" where
  "normaliseShot raw =
     (case object_entries raw of
        None \<Rightarrow> raw
      | Some o1 \<Rightarrow>
          let rest = without_keys [''club_used'', ''launch_angle'', ''carry_yds'', ''total_yds'',
                                   ''offline_yds''] o1
          in JObj (fold (\<lambda>(k, v). AList.update k v)
                [(''club'', nullish (get rest ''club'') (get o1 ''club_used'')),
                 (''launch_deg'', nullish (get rest ''launch_deg'') (get o1 ''launch_angle'')),
                 (''carry_yd'', nullish (get rest ''carry_yd'') (get o1 ''carry_yds'')),
                 (''total_yd'', nullish (get rest ''total_yd'') (get o1 ''total_yds'')),
                 (''offline_yd'', nullish (get rest ''offline_yd'') (get o1 ''offline_yds''))] rest))"

record SwingmetricShot =
  sm_ts_ms :: int
  sm_club :: js_string
  sm_ball_speed_mph :: number
  sm_swing_speed_mph :: "number option"
  sm_launch_deg :: number
  sm_spin_rpm :: "int option"
  sm_carry_yd :: number
  sm_total_yd :: "number option"
  sm_offline_yd :: number

record SwingmetricPlayer =
  sm_id :: js_string
  sm_email :: "js_string option"

record SwingmetricPayload =
  sm_session_id :: js_string
  sm_player :: SwingmetricPlayer
  sm_device :: js_string
  sm_shots :: "SwingmetricShot list"

definition SwingmetricShotSchema :: "SwingmetricShot schema" where
  "SwingmetricShotSchema raw =
     do { kvs \<leftarrow> z_strict [''ts_ms'', ''club'', ''ball_speed_mph'', ''swing_speed_mph'', ''launch_deg'',
                          ''spin_rpm'', ''carry_yd'', ''total_yd'', ''offline_yd''] (normaliseShot raw);
          ts_ms \<leftarrow> z_int 0 MAX_SAFE_INTEGER (get kvs ''ts_ms'');
          club \<leftarrow> z_string 1 64 (get kvs ''club'');
          ball_speed_mph \<leftarrow> z_number 0 268 (get kvs ''ball_speed_mph'');
          swing_speed_mph \<leftarrow> z_optional (z_number 0 230) (get kvs ''swing_speed_mph'');
          launch_deg \<leftarrow> z_number (- 10) 70 (get kvs ''launch_deg'');
          spin \<leftarrow> z_optional (z_int 0 15000) (get kvs ''spin_rpm'');
          carry_yd \<leftarrow> z_number 0 490 (get kvs ''carry_yd'');
          total_yd \<leftarrow> z_optional (z_number 0 545) (get kvs ''total_yd'');
          offline_yd \<leftarrow> z_number (- 220) 220 (get kvs ''offline_yd'');
          Some \<lparr>sm_ts_ms = ts_ms, sm_club = club, sm_ball_speed_mph = ball_speed_mph,
                sm_swing_speed_mph = swing_speed_mph, sm_launch_deg = launch_deg,
                sm_spin_rpm = spin, sm_carry_yd = carry_yd, sm_total_yd = total_yd,
                sm_offline_yd = offline_yd\<rparr> }"

definition SwingmetricPlayerSchema :: "Platform \<Rightarrow> SwingmetricPlayer schema" where
  "SwingmetricPlayerSchema P v =
     do { kvs \<leftarrow> z_strict [''id'', ''email''] v;
          pid \<leftarrow> z_string 1 255 (get kvs ''id'');
          email \<leftarrow> z_optional (z_format (\<lambda>s. email_ok P s \<and> length s \<le> 254)) (get kvs ''email'');
          Some \<lparr>sm_id = pid, sm_email = email\<rparr> }"

definition SwingmetricPayloadSchema :: "Platform \<Rightarrow> SwingmetricPayload schema" where
  "SwingmetricPayloadSchema P v =
     do { kvs \<leftarrow> z_strict [''session_id'', ''player'', ''device'', ''shots''] v;
          session \<leftarrow> z_string 1 255 (get kvs ''session_id'');
          player \<leftarrow> SwingmetricPlayerSchema P (get kvs ''player'');
          device \<leftarrow> z_string 1 255 (get kvs ''device'');
          shots \<leftarrow> z_array SwingmetricShotSchema 1 500 (get kvs ''shots'');
          Some \<lparr>sm_session_id = session, sm_player = player, sm_device = device, sm_shots = shots\<rparr> }"

section \<open>Printed payloads\<close>

text \<open>The names a wire format gives the five fields that were renamed.\<close>

record WireNames =
  w_club :: js_string
  w_launch :: js_string
  w_carry :: js_string
  w_total :: js_string
  w_offline :: js_string

definition canonical_names :: WireNames where
  "canonical_names =
     \<lparr>w_club = ''club'', w_launch = ''launch_deg'', w_carry = ''carry_yd'', w_total = ''total_yd'',
      w_offline = ''offline_yd''\<rparr>"

definition v1_names :: WireNames where
  "v1_names =
     \<lparr>w_club = ''club_used'', w_launch = ''launch_deg'', w_carry = ''carry_yds'',
      w_total = ''total_yds'', w_offline = ''offline_yds''\<rparr>"

definition v2_names :: WireNames where
  "v2_names = canonical_names\<lparr>w_launch := ''launch_angle''\<rparr>"

definition shot_json :: "WireNames \<Rightarrow> SwingmetricShot \<Rightarrow> jsval" where
  "shot_json w s =
     JObj ([(''ts_ms'', JNum (of_int (sm_ts_ms s))), (w_club w, JStr (sm_club s)),
            (''ball_speed_mph'', JNum (sm_ball_speed_mph s))]
           @ opt_field ''swing_speed_mph'' (map_option JNum (sm_swing_speed_mph s))
           @ [(w_launch w, JNum (sm_launch_deg s))]
           @ opt_field ''spin_rpm'' (map_option (\<lambda>i. JNum (of_int i)) (sm_spin_rpm s))
           @ [(w_carry w, JNum (sm_carry_yd s))]
           @ opt_field (w_total w) (map_option JNum (sm_total_yd s))
           @ [(w_offline w, JNum (sm_offline_yd s))])"

definition player_json :: "SwingmetricPlayer \<Rightarrow> jsval" where
  "player_json p = JObj ((''id'', JStr (sm_id p)) # opt_field ''email'' (map_option JStr (sm_email p)))"

definition payload_json :: "WireNames \<Rightarrow> SwingmetricPayload \<Rightarrow> jsval" where
  "payload_json w p =
     JObj [(''session_id'', JStr (sm_session_id p)), (''player'', player_json (sm_player p)),
           (''device'', JStr (sm_device p)), (''shots'', JArr (map (shot_json w) (sm_shots p)))]"

section \<open>The parser\<close>

definition time_bucket :: "int \<Rightarrow> int" where
  "time_bucket ts_ms = \<lfloor>fl (of_int ts_ms / 1000)\<rfloor>"

definition parseSingleShot ::
    "Platform \<Rightarrow> js_string \<Rightarrow> SwingmetricShot \<Rightarrow> SwingmetricPayload \<Rightarrow> js_string \<Rightarrow> exn + NormalisedShot" where
  "parseSingleShot P ulid shot payload receivedAtUtc =
     (let clubCode = normaliseClub (sm_club shot);
          ballSpeedMps = mphToMps (sm_ball_speed_mph shot);
          carryM = ydToM (sm_carry_yd shot);
          lateralM = ydToM (sm_offline_yd shot)
      in case toISOString (TimeClip (sm_ts_ms shot)) of
        None \<Rightarrow> Inl RangeError
      | Some capturedAtUtc \<Rightarrow>
          Inr \<lparr>canonical_shot_id = ulid,
               vendor = Swingmetric,
               vendor_shot_id = None,
               idempotency_key = ''sm|'' @ sm_id (sm_player payload) @ ''|'' @ sm_device payload
                                 @ ''|'' @ show_int (time_bucket (sm_ts_ms shot)),
               vendor_user_id = sm_id (sm_player payload),
               canonical_user_id = None,
               captured_at_utc = capturedAtUtc,
               captured_at_tz_offset_min = None,
               received_at_utc = receivedAtUtc,
               club_code = clubCode,
               club_raw = sm_club shot,
               ball_speed_mps = ballSpeedMps,
               club_head_speed_mps = map_option mphToMps (sm_swing_speed_mph shot),
               launch_angle_deg = sm_launch_deg shot,
               spin_rpm = sm_spin_rpm shot,
               carry_m = carryM,
               total_m = map_option ydToM (sm_total_yd shot),
               lateral_m = lateralM,
               device_id = Some (sm_device payload),
               session_id = Some (sm_session_id payload),
               content_hash = computeContentHash (sha256 P)
                 \<lparr>ch_vendor_user_id = sm_id (sm_player payload),
                  ch_club_code = club_string clubCode,
                  ch_captured_at_utc = capturedAtUtc,
                  ch_ball_speed_mps = ballSpeedMps,
                  ch_launch_angle_deg = sm_launch_deg shot,
                  ch_carry_m = carryM,
                  ch_lateral_m = lateralM\<rparr>,
               schema_version = 1,
               parser_version = ''1.0.0'',
               duplicate_of = None,
               raw_payload =
                 JObj [(''envelope'',
                        JObj [(''session_id'', JStr (sm_session_id payload)),
                              (''player'', player_json (sm_player payload)),
                              (''device'', JStr (sm_device payload))]),
                       (''shot'', shot_json canonical_names shot)]\<rparr>)"

text \<open>\<open>payload.shots.map\<close>: the first exception ends it; the n-th call of \<open>ulid\<close> names the
  n-th shot.\<close>

fun map_shots :: "(nat \<Rightarrow> 'a \<Rightarrow> exn + 'b) \<Rightarrow> nat \<Rightarrow> 'a list \<Rightarrow> exn + 'b list" where
  "map_shots f n [] = Inr []"
| "map_shots f n (x # xs) =
     (case f n x of
        Inl e \<Rightarrow> Inl e
      | Inr y \<Rightarrow> (case map_shots f (Suc n) xs of Inl e \<Rightarrow> Inl e | Inr ys \<Rightarrow> Inr (y # ys)))"

definition parseSwingmetric ::
    "Platform \<Rightarrow> (nat \<Rightarrow> js_string) \<Rightarrow> SwingmetricPayload \<Rightarrow> js_string \<Rightarrow> exn + NormalisedShot list" where
  "parseSwingmetric P ulid payload receivedAtUtc =
     map_shots (\<lambda>n shot. parseSingleShot P (ulid n) shot payload receivedAtUtc) 0 (sm_shots payload)"

section \<open>Lemmas on the schema\<close>

definition shot_ok :: "SwingmetricShot \<Rightarrow> bool" where
  "shot_ok s \<longleftrightarrow>
     sm_ts_ms s \<in> {0..MAX_SAFE_INTEGER} \<and> length (sm_club s) \<in> {1..64}
     \<and> sm_ball_speed_mph s \<in> {0..268} \<and> pred_option (\<lambda>x. x \<in> {0..230}) (sm_swing_speed_mph s)
     \<and> sm_launch_deg s \<in> {- 10..70} \<and> pred_option (\<lambda>x. x \<in> {0..15000}) (sm_spin_rpm s)
     \<and> sm_carry_yd s \<in> {0..490} \<and> pred_option (\<lambda>x. x \<in> {0..545}) (sm_total_yd s)
     \<and> sm_offline_yd s \<in> {- 220..220}"

definition payload_ok :: "Platform \<Rightarrow> SwingmetricPayload \<Rightarrow> bool" where
  "payload_ok P p \<longleftrightarrow>
     length (sm_session_id p) \<in> {1..255} \<and> length (sm_id (sm_player p)) \<in> {1..255}
     \<and> pred_option (\<lambda>e. email_ok P e \<and> length e \<le> 254) (sm_email (sm_player p))
     \<and> length (sm_device p) \<in> {1..255} \<and> length (sm_shots p) \<in> {1..500}
     \<and> list_all shot_ok (sm_shots p)"

lemma get_update: "get (AList.update k v kvs) k' = (if k' = k then v else get kvs k')"
  by (simp add: get_def update_conv')

lemma list_all_update: "list_all (\<lambda>(k, x). Q k) (AList.update k v kvs) \<longleftrightarrow> Q k \<and> list_all (\<lambda>(k, x). Q k) kvs"
  by (induction kvs) auto

lemma get_without: "get (without_keys ks kvs) k = (if k \<in> set ks then JUndefined else get kvs k)"
proof (induction kvs)
  case (Cons p kvs)
  then show ?case by (cases p) (simp add: without_keys_def; fastforce)
qed (simp add: without_keys_def)

lemma nullish_simps [simp]:
  "nullish JUndefined b = b" "nullish JNull b = b" "nullish (JStr s) b = JStr s"
  "nullish (JNum x) b = JNum x" "nullish (opt_val JNum v) JUndefined = opt_val JNum v"
  by (auto simp: nullish_def opt_val_def split: option.splits)

lemma shot_schema_ok: "SwingmetricShotSchema v = Some s \<Longrightarrow> shot_ok s"
  by (clarsimp simp: SwingmetricShotSchema_def bind_eq_Some_conv shot_ok_def simp del: atLeastAtMost_iff)
    (intro conjI; (erule z_bounds | assumption))

lemma z_strict_intro:
  "list_all (\<lambda>(k, x). k \<in> set ks) kvs \<Longrightarrow> z_strict ks (JObj kvs) = Some kvs"
  by (simp add: z_strict_def)

text \<open>What \<open>normaliseShot\<close> makes of an object.\<close>

definition renamed :: "(js_string \<times> jsval) list \<Rightarrow> (js_string \<times> jsval) list" where
  "renamed kvs = (case normaliseShot (JObj kvs) of JObj kvs' \<Rightarrow> kvs' | _ \<Rightarrow> [])"

lemma normaliseShot_object: "normaliseShot (JObj kvs) = JObj (renamed kvs)"
  by (simp add: renamed_def normaliseShot_def object_entries_def Let_def)

lemma get_renamed:
  "get (renamed kvs) k =
     (if k = ''club'' then nullish (get kvs ''club'') (get kvs ''club_used'')
      else if k = ''launch_deg'' then nullish (get kvs ''launch_deg'') (get kvs ''launch_angle'')
      else if k = ''carry_yd'' then nullish (get kvs ''carry_yd'') (get kvs ''carry_yds'')
      else if k = ''total_yd'' then nullish (get kvs ''total_yd'') (get kvs ''total_yds'')
      else if k = ''offline_yd'' then nullish (get kvs ''offline_yd'') (get kvs ''offline_yds'')
      else if k \<in> {''club_used'', ''launch_angle'', ''carry_yds'', ''total_yds'', ''offline_yds''}
      then JUndefined else get kvs k)"
  by (simp add: renamed_def normaliseShot_def object_entries_def Let_def get_update get_without)

lemma renamed_keys:
  "list_all (\<lambda>(k, x). Q k) (renamed kvs) \<longleftrightarrow>
     Q ''club'' \<and> Q ''launch_deg'' \<and> Q ''carry_yd'' \<and> Q ''total_yd'' \<and> Q ''offline_yd''
     \<and> list_all (\<lambda>(k, x). k \<in> {''club_used'', ''launch_angle'', ''carry_yds'', ''total_yds'',
                              ''offline_yds''} \<or> Q k) kvs"
proof -
  have filtered: "list_all (\<lambda>(k, x). Q k) (without_keys ks kvs)
                  \<longleftrightarrow> list_all (\<lambda>(k, x). k \<in> set ks \<or> Q k) kvs" for ks
    by (auto simp: without_keys_def list_all_iff)
  show ?thesis
    unfolding renamed_def normaliseShot_def object_entries_def Let_def
    by (simp only: jsval.case option.case fold.simps list_all_update filtered list.set prod.case id_apply
        o_apply) blast
qed

definition shot_entries :: "WireNames \<Rightarrow> SwingmetricShot \<Rightarrow> (js_string \<times> jsval) list" where
  "shot_entries w s = (case shot_json w s of JObj kvs \<Rightarrow> kvs | _ \<Rightarrow> [])"

lemma shot_json_entries: "shot_json w s = JObj (shot_entries w s)"
  by (simp add: shot_entries_def shot_json_def)

lemmas wire_names = v1_names_def v2_names_def canonical_names_def

definition renamed_as :: "(js_string \<times> jsval) list \<Rightarrow> SwingmetricShot \<Rightarrow> bool" where
  "renamed_as kvs s \<longleftrightarrow>
     get kvs ''ts_ms'' = JNum (of_int (sm_ts_ms s))
     \<and> get kvs ''club'' = JStr (sm_club s)
     \<and> get kvs ''ball_speed_mph'' = JNum (sm_ball_speed_mph s)
     \<and> get kvs ''swing_speed_mph'' = opt_val JNum (sm_swing_speed_mph s)
     \<and> get kvs ''launch_deg'' = JNum (sm_launch_deg s)
     \<and> get kvs ''spin_rpm'' = opt_val (\<lambda>i. JNum (of_int i)) (sm_spin_rpm s)
     \<and> get kvs ''carry_yd'' = JNum (sm_carry_yd s)
     \<and> get kvs ''total_yd'' = opt_val JNum (sm_total_yd s)
     \<and> get kvs ''offline_yd'' = JNum (sm_offline_yd s)"

lemma get_shot_entries:
  "get (shot_entries w s) k =
     (if ''ts_ms'' = k then JNum (of_int (sm_ts_ms s))
      else if w_club w = k then JStr (sm_club s)
      else if ''ball_speed_mph'' = k then JNum (sm_ball_speed_mph s)
      else if ''swing_speed_mph'' = k \<and> sm_swing_speed_mph s \<noteq> None then opt_val JNum (sm_swing_speed_mph s)
      else if w_launch w = k then JNum (sm_launch_deg s)
      else if ''spin_rpm'' = k \<and> sm_spin_rpm s \<noteq> None then opt_val (\<lambda>i. JNum (of_int i)) (sm_spin_rpm s)
      else if w_carry w = k then JNum (sm_carry_yd s)
      else if w_total w = k \<and> sm_total_yd s \<noteq> None then opt_val JNum (sm_total_yd s)
      else if w_offline w = k then JNum (sm_offline_yd s)
      else JUndefined)"
  by (cases "sm_swing_speed_mph s"; cases "sm_spin_rpm s"; cases "sm_total_yd s")
    (simp_all add: shot_entries_def shot_json_def split del: if_split cong del: if_weak_cong)

lemma renamed_v1_names: "renamed_as (renamed (shot_entries v1_names s)) s"
  unfolding renamed_as_def
  by (cases "sm_swing_speed_mph s"; cases "sm_spin_rpm s"; cases "sm_total_yd s")
    (simp_all add: get_renamed get_shot_entries wire_names split del: if_split)

lemma renamed_v2_names: "renamed_as (renamed (shot_entries v2_names s)) s"
  unfolding renamed_as_def
  by (cases "sm_swing_speed_mph s"; cases "sm_spin_rpm s"; cases "sm_total_yd s")
    (simp_all add: get_renamed get_shot_entries wire_names split del: if_split)

lemma renamed_canonical_names: "renamed_as (renamed (shot_entries canonical_names s)) s"
  unfolding renamed_as_def
  by (cases "sm_swing_speed_mph s"; cases "sm_spin_rpm s"; cases "sm_total_yd s")
    (simp_all add: get_renamed get_shot_entries wire_names split del: if_split)

lemma shot_entries_keys:
  assumes "list_all Q [''ts_ms'', w_club w, ''ball_speed_mph'', ''swing_speed_mph'', w_launch w,
                       ''spin_rpm'', w_carry w, w_total w, w_offline w]"
  shows "list_all (\<lambda>(k, x). Q k) (shot_entries w s)"
  using assms
  by (simp add: shot_entries_def shot_json_def list_all_opt_field pred_option_def)

lemma shot_keys:
  assumes "w = v1_names \<or> w = v2_names \<or> w = canonical_names"
  shows "z_strict [''ts_ms'', ''club'', ''ball_speed_mph'', ''swing_speed_mph'', ''launch_deg'',
                   ''spin_rpm'', ''carry_yd'', ''total_yd'', ''offline_yd''] (normaliseShot (shot_json w s))
         = Some (renamed (shot_entries w s))"
proof -
  define Q where "Q k \<longleftrightarrow> k \<in> set [''ts_ms'', ''club'', ''ball_speed_mph'', ''swing_speed_mph'',
    ''launch_deg'', ''spin_rpm'', ''carry_yd'', ''total_yd'', ''offline_yd'']" for k :: js_string
  have "list_all (\<lambda>k. k \<in> {''club_used'', ''launch_angle'', ''carry_yds'', ''total_yds'', ''offline_yds''} \<or> Q k)
          [''ts_ms'', w_club w, ''ball_speed_mph'', ''swing_speed_mph'', w_launch w, ''spin_rpm'',
           w_carry w, w_total w, w_offline w]"
    using assms by (elim disjE; simp add: wire_names Q_def)
  then have "list_all (\<lambda>(k, x). Q k) (renamed (shot_entries w s))"
    unfolding renamed_keys by (intro conjI shot_entries_keys) (simp_all add: Q_def)
  then show ?thesis
    unfolding shot_json_entries normaliseShot_object Q_def by (rule z_strict_intro)
qed

lemma shot_schema_json:
  assumes "shot_ok s" and w: "w = v1_names \<or> w = v2_names \<or> w = canonical_names"
  shows "SwingmetricShotSchema (shot_json w s) = Some s"
proof -
  have "renamed_as (renamed (shot_entries w s)) s"
    using w renamed_v1_names renamed_v2_names renamed_canonical_names by blast
  then show ?thesis
    using assms(1)
    by (simp add: SwingmetricShotSchema_def shot_keys [OF w] renamed_as_def z_optional_printed shot_ok_def)
qed

lemma player_schema_json:
  assumes "length (sm_id p) \<in> {1..255}" and "pred_option (\<lambda>e. email_ok P e \<and> length e \<le> 254) (sm_email p)"
  shows "SwingmetricPlayerSchema P (player_json p) = Some p"
  using assms
  by (cases "sm_email p")
    (simp_all add: SwingmetricPlayerSchema_def player_json_def z_strict_def z_optional_def)

lemma payload_schema_json:
  assumes ok: "payload_ok P p" and w: "w = v1_names \<or> w = v2_names \<or> w = canonical_names"
  shows "SwingmetricPayloadSchema P (payload_json w p) = Some p"
proof -
  have "map (SwingmetricShotSchema \<circ> shot_json w) (sm_shots p) = map Some (sm_shots p)"
    using ok shot_schema_json [OF _ w] by (auto simp: payload_ok_def list_all_iff)
  then have "z_array SwingmetricShotSchema 1 500 (JArr (map (shot_json w) (sm_shots p))) = Some (sm_shots p)"
    using ok by (simp add: z_array_Some payload_ok_def)
  then show ?thesis
    using ok player_schema_json [of "sm_player p" P]
    by (simp add: SwingmetricPayloadSchema_def payload_json_def z_strict_def payload_ok_def)
qed

lemma player_schema_bounds:
  "SwingmetricPlayerSchema P v = Some p \<Longrightarrow>
     length (sm_id p) \<in> {1..255} \<and> pred_option (\<lambda>e. email_ok P e \<and> length e \<le> 254) (sm_email p)"
  by (auto simp: SwingmetricPlayerSchema_def bind_eq_Some_conv z_accepts)

lemma payload_schema_ok: "SwingmetricPayloadSchema P v = Some p \<Longrightarrow> payload_ok P p"
proof -
  assume "SwingmetricPayloadSchema P v = Some p"
  then obtain kvs where k: "z_string 1 255 (get kvs ''session_id'') = Some (sm_session_id p)"
    "SwingmetricPlayerSchema P (get kvs ''player'') = Some (sm_player p)"
    "z_string 1 255 (get kvs ''device'') = Some (sm_device p)"
    "z_array SwingmetricShotSchema 1 500 (get kvs ''shots'') = Some (sm_shots p)"
    by (auto simp: SwingmetricPayloadSchema_def bind_eq_Some_conv)
  from k(4) obtain vs where vs: "length vs \<in> {1..500}" "map SwingmetricShotSchema vs = map Some (sm_shots p)"
    by (auto simp: z_array_Some)
  then have len: "length vs = length (sm_shots p)" by (metis length_map)
  have "shot_ok s" if "s \<in> set (sm_shots p)" for s
  proof -
    have "Some s \<in> SwingmetricShotSchema ` set vs" using that vs(2) by (metis image_eqI list.set_map)
    then show ?thesis using shot_schema_ok by auto
  qed
  then show ?thesis
    using z_field_bounds(1) [OF k(1)] z_field_bounds(1) [OF k(3)] player_schema_bounds [OF k(2)] vs(1) len
    by (auto simp: payload_ok_def list_all_iff)
qed

section \<open>Lemmas on the parser\<close>

lemma map_shots_Inr:
  "map_shots f n xs = Inr ys \<longleftrightarrow>
     length ys = length xs \<and> (\<forall>i < length xs. f (n + i) (xs ! i) = Inr (ys ! i))"
proof (induction xs arbitrary: n ys)
  case (Cons x xs)
  have "map_shots f n (x # xs) = Inr ys \<longleftrightarrow>
        (\<exists>z zs. ys = z # zs \<and> f n x = Inr z \<and> map_shots f (Suc n) xs = Inr zs)"
    by (auto split: sum.splits)
  also have "\<dots> \<longleftrightarrow> length ys = length (x # xs) \<and> (\<forall>i < length (x # xs). f (n + i) ((x # xs) ! i) = Inr (ys ! i))"
    by (cases ys) (auto simp: Cons.IH less_Suc_eq_0_disj)
  finally show ?case .
qed auto

lemma map_shots_Inl:
  "map_shots f n xs = Inl e \<Longrightarrow> \<exists>i < length xs. f (n + i) (xs ! i) = Inl e"
proof (induction xs arbitrary: n)
  case (Cons x xs)
  then show ?case
  proof (cases "f n x")
    case (Inr y)
    with Cons.prems have "map_shots f (Suc n) xs = Inl e" by (auto split: sum.splits)
    from Cons.IH [OF this] show ?thesis by auto
  qed auto
qed simp

lemmas parseSingleShot_simps = parseSingleShot_def toISOString_def Let_def TimeClip_def

lemma parseSingleShot_cases:
  "parseSingleShot P ulid s p r = Inl e \<longleftrightarrow> \<bar>sm_ts_ms s\<bar> > 8640000000000000 \<and> e = RangeError"
  by (auto simp: parseSingleShot_simps split: if_splits)

lemma parseSingleShot_fields:
  assumes "parseSingleShot P ulid s p r = Inr x" and "shot_ok s"
  shows "fresh_shot Swingmetric (sha256 P) r x"
    and "captured_at_utc x = iso_format (sm_ts_ms s)"
    and "ball_speed_mps x \<in> {0..<120}" and "carry_m x \<in> {0..<450}" and "\<bar>lateral_m x\<bar> < 202"
    and "pred_option (\<lambda>v. v \<in> {0..<103}) (club_head_speed_mps x)"
    and "pred_option (\<lambda>v. v \<in> {0..<500}) (total_m x)"
    and "vendor_user_id x = sm_id (sm_player p)" and "club_raw x = sm_club s"
    and "idempotency_key x = ''sm|'' @ join ''|'' [sm_id (sm_player p), sm_device p,
           show_int (sm_ts_ms s div 1000)]"
proof -
  have ts: "0 \<le> sm_ts_ms s" "sm_ts_ms s \<le> 2 ^ 53"
    using assms(2) by (auto simp: shot_ok_def MAX_SAFE_INTEGER_def)
  have speed: "mphToMps (sm_ball_speed_mph s) \<in> {0..<120}"
    using assms(2) mph.conv_nonneg mph.conv_mono [of "sm_ball_speed_mph s" 268] converted_bounds(1)
    by (auto simp: shot_ok_def)
  have carry: "ydToM (sm_carry_yd s) \<in> {0..<450}"
    using assms(2) yd.conv_nonneg yd.conv_mono [of "sm_carry_yd s" 490] converted_bounds(5)
    by (auto simp: shot_ok_def)
  have "\<bar>sm_offline_yd s\<bar> \<le> 220" using assms(2) by (auto simp: shot_ok_def abs_le_iff)
  then have lateral: "\<bar>ydToM (sm_offline_yd s)\<bar> < 202"
    using yd.conv_abs [of "sm_offline_yd s" 220] converted_bounds(7) by simp
  have head: "pred_option (\<lambda>v. v \<in> {0..<103}) (map_option mphToMps (sm_swing_speed_mph s))"
    using assms(2) mph.conv_nonneg mph.conv_mono [of _ 230] converted_bounds(2)
    by (cases "sm_swing_speed_mph s") (auto simp: shot_ok_def intro: le_less_trans)
  have total: "pred_option (\<lambda>v. v \<in> {0..<500}) (map_option ydToM (sm_total_yd s))"
    using assms(2) yd.conv_nonneg yd.conv_mono [of _ 545] converted_bounds(6)
    by (cases "sm_total_yd s") (auto simp: shot_ok_def intro: le_less_trans)
  show "fresh_shot Swingmetric (sha256 P) r x"
    using assms speed carry lateral
    by (auto simp: parseSingleShot_simps fresh_shot_def hash_input_def shot_ok_def split: if_splits
        intro!: exI [of _ "sm_ts_ms s"])
  show "captured_at_utc x = iso_format (sm_ts_ms s)" "vendor_user_id x = sm_id (sm_player p)"
    "club_raw x = sm_club s"
    using assms(1) by (auto simp: parseSingleShot_simps split: if_splits)
  show "ball_speed_mps x \<in> {0..<120}" "carry_m x \<in> {0..<450}" "\<bar>lateral_m x\<bar> < 202"
    "pred_option (\<lambda>v. v \<in> {0..<103}) (club_head_speed_mps x)"
    "pred_option (\<lambda>v. v \<in> {0..<500}) (total_m x)"
    using assms(1) speed carry lateral head total by (auto simp: parseSingleShot_simps split: if_splits)
  show "idempotency_key x = ''sm|'' @ join ''|'' [sm_id (sm_player p), sm_device p,
          show_int (sm_ts_ms s div 1000)]"
    using assms(1) floor_fl_seconds [OF ts]
    by (auto simp: parseSingleShot_simps time_bucket_def split: if_splits)
qed

lemma parseSwingmetric_Inr:
  "parseSwingmetric P ids p r = Inr shots \<longleftrightarrow>
     length shots = length (sm_shots p)
     \<and> (\<forall>i < length (sm_shots p). parseSingleShot P (ids i) (sm_shots p ! i) p r = Inr (shots ! i))"
  by (simp add: parseSwingmetric_def map_shots_Inr)

lemma parseSwingmetric_Inl:
  "(\<exists>e. parseSwingmetric P ids p r = Inl e) \<longleftrightarrow> (\<exists>s \<in> set (sm_shots p). \<bar>sm_ts_ms s\<bar> > 8640000000000000)"
proof
  assume "\<exists>e. parseSwingmetric P ids p r = Inl e"
  then show "\<exists>s \<in> set (sm_shots p). \<bar>sm_ts_ms s\<bar> > 8640000000000000"
    by (auto simp: parseSwingmetric_def parseSingleShot_cases dest!: map_shots_Inl)
next
  assume "\<exists>s \<in> set (sm_shots p). \<bar>sm_ts_ms s\<bar> > 8640000000000000"
  then obtain i where i: "i < length (sm_shots p)" "\<bar>sm_ts_ms (sm_shots p ! i)\<bar> > 8640000000000000"
    by (auto simp: in_set_conv_nth)
  then have "parseSingleShot P (ids i) (sm_shots p ! i) p r = Inl RangeError"
    by (simp add: parseSingleShot_cases)
  then have "\<not> (\<exists>shots. parseSwingmetric P ids p r = Inr shots)"
    using i(1) by (auto simp: parseSwingmetric_Inr)
  then show "\<exists>e. parseSwingmetric P ids p r = Inl e"
    by (cases "parseSwingmetric P ids p r") auto
qed

lemma parseSwingmetric_error: "parseSwingmetric P ids p r = Inl e \<Longrightarrow> e = RangeError"
  by (auto simp: parseSwingmetric_def parseSingleShot_cases dest!: map_shots_Inl)

definition accepts_swingmetric :: "Platform \<Rightarrow> SwingmetricPayload \<Rightarrow> bool" where
  "accepts_swingmetric P p \<longleftrightarrow> SwingmetricPayloadSchema P (payload_json canonical_names p) = Some p"

lemma accepts_swingmetric_ok: "accepts_swingmetric P p \<longleftrightarrow> payload_ok P p"
  unfolding accepts_swingmetric_def using payload_schema_ok payload_schema_json by blast

lemma parseSwingmetric_fresh:
  assumes "payload_ok P p" and "parseSwingmetric P ids p r = Inr shots" and "s \<in> set shots"
  shows "fresh_shot Swingmetric (sha256 P) r s"
proof -
  obtain i where i: "i < length (sm_shots p)" "parseSingleShot P (ids i) (sm_shots p ! i) p r = Inr s"
    using assms(2,3) by (auto simp: parseSwingmetric_Inr in_set_conv_nth)
  then have "shot_ok (sm_shots p ! i)" using assms(1) by (auto simp: payload_ok_def list_all_iff)
  then show ?thesis using parseSingleShot_fields(1) [OF i(2)] by simp
qed

interpretation sm_parser: vendor_parser Swingmetric accepts_swingmetric parseSwingmetric
  by unfold_locales
    (auto simp: accepts_swingmetric_ok dest: parseSwingmetric_error intro: parseSwingmetric_fresh)

section \<open>Properties\<close>

definition sample_shot :: SwingmetricShot where
  "sample_shot =
     \<lparr>sm_ts_ms = 1705307400123, sm_club = ''driver'', sm_ball_speed_mph = 150, sm_swing_speed_mph = Some 100,
      sm_launch_deg = 12, sm_spin_rpm = None, sm_carry_yd = 240, sm_total_yd = None, sm_offline_yd = - 8\<rparr>"

definition sample_batch :: SwingmetricPayload where
  "sample_batch =
     \<lparr>sm_session_id = ''s-1'', sm_player = \<lparr>sm_id = ''p-1'', sm_email = None\<rparr>, sm_device = ''d-1'',
      sm_shots = [sample_shot, sample_shot\<lparr>sm_ts_ms := 1705307401999\<rparr>]\<rparr>"

lemma sample_batch_ok: "payload_ok P sample_batch"
  by (simp add: payload_ok_def sample_batch_def sample_shot_def shot_ok_def MAX_SAFE_INTEGER_def)

text \<open>C23: the two wire formats of SwingMetric carry the same payloads. Whatever the schema
  accepts, in either format or a mixture, can be written in the first format, in the second, and in
  the canonical names, and each is accepted and read as that same payload; the canonical form is
  what the shots keep as provenance.\<close>

theorem swingmetric_wire_formats:
  assumes "SwingmetricPayloadSchema P v = Some p"
  shows "payload_ok P p
         \<and> SwingmetricPayloadSchema P (payload_json v1_names p) = Some p
         \<and> SwingmetricPayloadSchema P (payload_json v2_names p) = Some p
         \<and> SwingmetricPayloadSchema P (payload_json canonical_names p) = Some p"
  using payload_schema_ok [OF assms] payload_schema_json by blast

theorem swingmetric_wire_formats_witness:
  "SwingmetricPayloadSchema sample_platform (payload_json v2_names sample_batch) = Some sample_batch
   \<and> SwingmetricPayloadSchema sample_platform (payload_json v1_names sample_batch) = Some sample_batch"
  using swingmetric_wire_formats [OF payload_schema_json [OF sample_batch_ok, of v1_names sample_platform]]
  by simp

text \<open>C24: an accepted batch whose time stamps are time values parses to as many shots, in
  the order of the batch, each fresh and dated by its stamp, with speeds below 120 m/s, carries
  below 450 m, totals below 500 m and deviations below 202 m.\<close>

theorem swingmetric_batch:
  assumes "SwingmetricPayloadSchema P v = Some p"
    and "\<forall>s \<in> set (sm_shots p). sm_ts_ms s \<le> 8640000000000000"
  shows "\<exists>shots. parseSwingmetric P ids p received = Inr shots
           \<and> length shots = length (sm_shots p) \<and> length shots \<in> {1..500}
           \<and> (\<forall>i < length shots.
                fresh_shot Swingmetric (sha256 P) received (shots ! i)
                \<and> captured_at_utc (shots ! i) = iso_format (sm_ts_ms (sm_shots p ! i))
                \<and> ball_speed_mps (shots ! i) \<in> {0..<120} \<and> carry_m (shots ! i) \<in> {0..<450}
                \<and> \<bar>lateral_m (shots ! i)\<bar> < 202
                \<and> pred_option (\<lambda>x. x \<in> {0..<500}) (total_m (shots ! i)))"
proof -
  have ok: "payload_ok P p" by (rule payload_schema_ok [OF assms(1)])
  then have oks: "shot_ok s" if "s \<in> set (sm_shots p)" for s
    using that by (auto simp: payload_ok_def list_all_iff)
  then have "\<not> (\<exists>s \<in> set (sm_shots p). \<bar>sm_ts_ms s\<bar> > 8640000000000000)"
    using assms(2) by (auto simp: shot_ok_def)
  then obtain shots where shots: "parseSwingmetric P ids p received = Inr shots"
    using parseSwingmetric_Inl by (cases "parseSwingmetric P ids p received") blast+
  have each: "parseSingleShot P (ids i) (sm_shots p ! i) p received = Inr (shots ! i)"
    "shot_ok (sm_shots p ! i)" if "i < length (sm_shots p)" for i
    using shots oks that by (auto simp: parseSwingmetric_Inr)
  have "length shots = length (sm_shots p)" "length (sm_shots p) \<in> {1..500}"
    using shots ok by (auto simp: parseSwingmetric_Inr payload_ok_def)
  with shots parseSingleShot_fields(1) [OF each] parseSingleShot_fields(2) [OF each]
    parseSingleShot_fields(3) [OF each] parseSingleShot_fields(4) [OF each]
    parseSingleShot_fields(5) [OF each] parseSingleShot_fields(7) [OF each]
  show ?thesis by (intro exI [of _ shots]) simp
qed

theorem swingmetric_batch_witness:
  "\<exists>shots. parseSwingmetric sample_platform (\<lambda>i. show_nat i) sample_batch [] = Inr shots
           \<and> length shots = 2 \<and> captured_at_utc (shots ! 1) = iso_format 1705307401999"
proof -
  have "\<forall>s \<in> set (sm_shots sample_batch). sm_ts_ms s \<le> 8640000000000000"
    by (simp add: sample_batch_def sample_shot_def)
  from swingmetric_batch [OF payload_schema_json [OF sample_batch_ok, of v1_names sample_platform] this,
      of "\<lambda>i. show_nat i" "[]"]
  obtain shots where "parseSwingmetric sample_platform (\<lambda>i. show_nat i) sample_batch [] = Inr shots"
    "length shots = length (sm_shots sample_batch)"
    "\<forall>i < length shots. captured_at_utc (shots ! i) = iso_format (sm_ts_ms (sm_shots sample_batch ! i))"
    by auto
  then show ?thesis by (simp add: sample_batch_def)
qed

text \<open>The schema admits time stamps up to \<open>2^53 - 1\<close>, beyond the last time value. A batch with
  such a shot makes \<open>toISOString\<close> throw a \<open>RangeError\<close>, and no other accepted batch fails.\<close>

theorem swingmetric_range_error:
  assumes "SwingmetricPayloadSchema P v = Some p"
  shows "(parseSwingmetric P ids p received = Inl e) \<longleftrightarrow>
           e = RangeError \<and> (\<exists>s \<in> set (sm_shots p). 8640000000000000 < sm_ts_ms s)"
proof -
  have "0 \<le> sm_ts_ms s" if "s \<in> set (sm_shots p)" for s
    using payload_schema_ok [OF assms] that by (auto simp: payload_ok_def list_all_iff shot_ok_def)
  then have "(\<exists>s \<in> set (sm_shots p). \<bar>sm_ts_ms s\<bar> > 8640000000000000)
             \<longleftrightarrow> (\<exists>s \<in> set (sm_shots p). 8640000000000000 < sm_ts_ms s)"
    by force
  then show ?thesis
    using parseSwingmetric_Inl [of P ids p received] parseSwingmetric_error by metis
qed

theorem swingmetric_range_error_witness:
  "\<exists>v p. SwingmetricPayloadSchema sample_platform v = Some p
         \<and> parseSwingmetric sample_platform (\<lambda>i. show_nat i) p [] = Inl RangeError"
proof -
  let ?p = "sample_batch\<lparr>sm_shots := [sample_shot\<lparr>sm_ts_ms := 9007199254740991\<rparr>]\<rparr>"
  have "payload_ok sample_platform ?p"
    by (simp add: payload_ok_def sample_batch_def sample_shot_def shot_ok_def MAX_SAFE_INTEGER_def)
  then have s: "SwingmetricPayloadSchema sample_platform (payload_json v1_names ?p) = Some ?p"
    by (simp add: payload_schema_json)
  have "parseSwingmetric sample_platform (\<lambda>i. show_nat i) ?p [] = Inl RangeError"
    unfolding swingmetric_range_error [OF s] by simp
  with s show ?thesis by blast
qed

end
