(* ===== verification/Proswing.thy ===== *)
theory Proswing
  imports Swingmetric
begin

text \<open>
  \<open>webhooks/proswing\<close>: three wire formats, recognised by their structure, validated by their
  own schemas and brought to one canonical payload of measurements with units; the parser converts
  the units and reads the time-zone offset off the date string. A failed \<open>parse\<close> of zod is
  \<open>None\<close>; the pipe turns it into a 400.
\<close>

section \<open>Measurements and the canonical payload\<close>

record Measurement =
  m_value :: number
  m_unit :: js_string

record ProswingCanonicalShot =
  ps_id :: js_string
  ps_occurred_at :: js_string
  ps_club_code :: js_string
  ps_ball_speed :: Measurement
  ps_club_speed :: "Measurement option"
  ps_launch :: Measurement
  ps_carry :: Measurement
  ps_total :: "Measurement option"
  ps_deviation :: Measurement
  ps_spin_rpm :: "int option"

record ProswingCanonicalPayload =
  ps_user_token :: js_string
  ps_shot :: ProswingCanonicalShot

definition speed_units :: "js_string list" where
  "speed_units = [''mph'', ''kph'', ''mps'']"

definition distance_units :: "js_string list" where
  "distance_units = [''yd'', ''m'', ''ft'']"

definition measurement_schema :: "number schema \<Rightarrow> js_string schema \<Rightarrow> Measurement schema" where
  "measurement_schema value_schema unit_schema v =
     do { kvs \<leftarrow> z_strict [''value'', ''unit''] v;
          x \<leftarrow> value_schema (get kvs ''value'');
          u \<leftarrow> unit_schema (get kvs ''unit'');
          Some \<lparr>m_value = x, m_unit = u\<rparr> }"

definition ProswingBallSpeedSchema :: "Measurement schema" where
  "ProswingBallSpeedSchema =
     z_refine (\<lambda>data. \<not> (m_unit data = ''mps'' \<and> 120 < m_value data))
       (measurement_schema (z_number 0 500) (z_enum speed_units))"

definition ProswingClubSpeedSchema :: "Measurement schema" where
  "ProswingClubSpeedSchema = measurement_schema (z_number 0 300) (z_enum speed_units)"

definition ProswingDistanceSchema :: "Measurement schema" where
  "ProswingDistanceSchema = measurement_schema (z_number (- 500) 700) (z_enum distance_units)"

definition ProswingLaunchSchema :: "Measurement schema" where
  "ProswingLaunchSchema = measurement_schema (z_number (- 10) 90) (z_enum [''deg''])"

text \<open>The envelope \<open>{type, data}\<close> the three formats share.\<close>

definition shot_recorded :: "jsval \<Rightarrow> jsval option" where
  "shot_recorded v =
     do { kvs \<leftarrow> z_strict [''type'', ''data''] v;
          u \<leftarrow> z_literal ''shot.recorded'' (get kvs ''type'');
          Some (get kvs ''data'') }"

section \<open>Version 1\<close>

definition ProswingShotV1Schema :: "Platform \<Rightarrow> ProswingCanonicalShot schema" where
  "ProswingShotV1Schema P v =
     do { kvs \<leftarrow> z_strict [''id'', ''occurred_at'', ''club_code'', ''ball_speed'', ''club_speed'',
                          ''launch'', ''carry'', ''total'', ''deviation''] v;
          sid \<leftarrow> z_string 1 255 (get kvs ''id'');
          occurred_at \<leftarrow> z_format (datetime_ok P) (get kvs ''occurred_at'');
          club \<leftarrow> z_string 1 64 (get kvs ''club_code'');
          ball_speed \<leftarrow> ProswingBallSpeedSchema (get kvs ''ball_speed'');
          club_speed \<leftarrow> z_optional ProswingClubSpeedSchema (get kvs ''club_speed'');
          launch \<leftarrow> ProswingLaunchSchema (get kvs ''launch'');
          carry \<leftarrow> ProswingDistanceSchema (get kvs ''carry'');
          total \<leftarrow> z_optional ProswingDistanceSchema (get kvs ''total'');
          deviation \<leftarrow> ProswingDistanceSchema (get kvs ''deviation'');
          Some \<lparr>ps_id = sid, ps_occurred_at = occurred_at, ps_club_code = club,
                ps_ball_speed = ball_speed, ps_club_speed = club_speed, ps_launch = launch,
                ps_carry = carry, ps_total = total, ps_deviation = deviation, ps_spin_rpm = None\<rparr> }"

definition ProswingPayloadSchema :: "Platform \<Rightarrow> ProswingCanonicalPayload schema" where
  "ProswingPayloadSchema P v =
     do { data \<leftarrow> shot_recorded v;
          kvs \<leftarrow> z_strict [''user_token'', ''shot''] data;
          user_token \<leftarrow> z_string 8 255 (get kvs ''user_token'');
          shot \<leftarrow> ProswingShotV1Schema P (get kvs ''shot'');
          Some \<lparr>ps_user_token = user_token, ps_shot = shot\<rparr> }"

section \<open>Version 2\<close>

record ProswingShotV2 =
  v2_id :: js_string
  v2_occurred_at :: js_string
  v2_club_code :: js_string
  v2_ball_speed_mph :: "number option"
  v2_ball_speed_kph :: "number option"
  v2_ball_speed_mps :: "number option"
  v2_club_speed_mph :: "number option"
  v2_club_speed_kph :: "number option"
  v2_club_speed_mps :: "number option"
  v2_launch_deg :: number
  v2_carry_yd :: "number option"
  v2_carry_m :: "number option"
  v2_total_yd :: "number option"
  v2_total_m :: "number option"
  v2_deviation_yd :: "number option"
  v2_deviation_m :: "number option"
  v2_deviation_ft :: "number option"

record PayloadV2 =
  v2_user_token :: js_string
  v2_shot :: ProswingShotV2

definition v2_complete :: "ProswingShotV2 \<Rightarrow> bool" where
  "v2_complete d \<longleftrightarrow>
     \<not> (v2_ball_speed_mph d = None \<and> v2_ball_speed_kph d = None \<and> v2_ball_speed_mps d = None)
     \<and> \<not> (v2_carry_yd d = None \<and> v2_carry_m d = None)
     \<and> \<not> (v2_deviation_yd d = None \<and> v2_deviation_m d = None \<and> v2_deviation_ft d = None)"

definition ProswingShotV2Object :: "Platform \<Rightarrow> ProswingShotV2 schema" where
  "ProswingShotV2Object P v =
     do { kvs \<leftarrow> z_strict [''id'', ''occurred_at'', ''club_code'', ''ball_speed_mph'', ''ball_speed_kph'',
                          ''ball_speed_mps'', ''club_speed_mph'', ''club_speed_kph'', ''club_speed_mps'',
                          ''launch_deg'', ''carry_yd'', ''carry_m'', ''total_yd'', ''total_m'',
                          ''deviation_yd'', ''deviation_m'', ''deviation_ft''] v;
          sid \<leftarrow> z_string 1 255 (get kvs ''id'');
          occurred_at \<leftarrow> z_format (datetime_ok P) (get kvs ''occurred_at'');
          club \<leftarrow> z_string 1 64 (get kvs ''club_code'');
          ball_mph \<leftarrow> z_optional (z_number 0 268) (get kvs ''ball_speed_mph'');
          ball_kph \<leftarrow> z_optional (z_number 0 430) (get kvs ''ball_speed_kph'');
          ball_mps \<leftarrow> z_optional (z_number 0 120) (get kvs ''ball_speed_mps'');
          club_mph \<leftarrow> z_optional (z_number 0 230) (get kvs ''club_speed_mph'');
          club_kph \<leftarrow> z_optional (z_number 0 370) (get kvs ''club_speed_kph'');
          club_mps \<leftarrow> z_optional (z_number 0 103) (get kvs ''club_speed_mps'');
          launch_deg \<leftarrow> z_number (- 10) 90 (get kvs ''launch_deg'');
          carry_yd \<leftarrow> z_optional (z_number 0 600) (get kvs ''carry_yd'');
          carry_m' \<leftarrow> z_optional (z_number 0 550) (get kvs ''carry_m'');
          total_yd \<leftarrow> z_optional (z_number 0 700) (get kvs ''total_yd'');
          total_m' \<leftarrow> z_optional (z_number 0 640) (get kvs ''total_m'');
          deviation_yd \<leftarrow> z_optional (z_number (- 500) 500) (get kvs ''deviation_yd'');
          deviation_m \<leftarrow> z_optional (z_number (- 500) 500) (get kvs ''deviation_m'');
          deviation_ft \<leftarrow> z_optional (z_number (- 1500) 1500) (get kvs ''deviation_ft'');
          Some \<lparr>v2_id = sid, v2_occurred_at = occurred_at, v2_club_code = club,
                v2_ball_speed_mph = ball_mph, v2_ball_speed_kph = ball_kph, v2_ball_speed_mps = ball_mps,
                v2_club_speed_mph = club_mph, v2_club_speed_kph = club_kph, v2_club_speed_mps = club_mps,
                v2_launch_deg = launch_deg, v2_carry_yd = carry_yd, v2_carry_m = carry_m',
                v2_total_yd = total_yd, v2_total_m = total_m', v2_deviation_yd = deviation_yd,
                v2_deviation_m = deviation_m, v2_deviation_ft = deviation_ft\<rparr> }"

definition ProswingShotV2Schema :: "Platform \<Rightarrow> ProswingShotV2 schema" where
  "ProswingShotV2Schema P = z_refine v2_complete (ProswingShotV2Object P)"

definition ProswingPayloadV2Schema :: "Platform \<Rightarrow> PayloadV2 schema" where
  "ProswingPayloadV2Schema P v =
     do { data \<leftarrow> shot_recorded v;
          kvs \<leftarrow> z_strict [''user_token'', ''shot''] data;
          user_token \<leftarrow> z_string 8 255 (get kvs ''user_token'');
          shot \<leftarrow> ProswingShotV2Schema P (get kvs ''shot'');
          Some \<lparr>v2_user_token = user_token, v2_shot = shot\<rparr> }"

text \<open>The non-null assertions \<open>!\<close> are reached only where the schema's refinement has
  excluded \<open>undefined\<close>; \<open>the\<close> reads the value.\<close>

definition fromV2 :: "PayloadV2 \<Rightarrow> ProswingCanonicalPayload" where
  "fromV2 p =
     (let s = v2_shot p;
          ballSpeed =
            (case v2_ball_speed_mph s of Some x \<Rightarrow> \<lparr>m_value = x, m_unit = ''mph''\<rparr>
             | None \<Rightarrow> (case v2_ball_speed_kph s of Some x \<Rightarrow> \<lparr>m_value = x, m_unit = ''kph''\<rparr>
             | None \<Rightarrow> \<lparr>m_value = the (v2_ball_speed_mps s), m_unit = ''mps''\<rparr>));
          clubSpeed =
            (case v2_club_speed_mph s of Some x \<Rightarrow> Some \<lparr>m_value = x, m_unit = ''mph''\<rparr>
             | None \<Rightarrow> (case v2_club_speed_kph s of Some x \<Rightarrow> Some \<lparr>m_value = x, m_unit = ''kph''\<rparr>
             | None \<Rightarrow> (case v2_club_speed_mps s of Some x \<Rightarrow> Some \<lparr>m_value = x, m_unit = ''mps''\<rparr>
             | None \<Rightarrow> None)));
          carry =
            (case v2_carry_yd s of Some x \<Rightarrow> \<lparr>m_value = x, m_unit = ''yd''\<rparr>
             | None \<Rightarrow> \<lparr>m_value = the (v2_carry_m s), m_unit = ''m''\<rparr>);
          total =
            (case v2_total_yd s of Some x \<Rightarrow> Some \<lparr>m_value = x, m_unit = ''yd''\<rparr>
             | None \<Rightarrow> (case v2_total_m s of Some x \<Rightarrow> Some \<lparr>m_value = x, m_unit = ''m''\<rparr>
             | None \<Rightarrow> None));
          deviation =
            (case v2_deviation_yd s of Some x \<Rightarrow> \<lparr>m_value = x, m_unit = ''yd''\<rparr>
             | None \<Rightarrow> (case v2_deviation_m s of Some x \<Rightarrow> \<lparr>m_value = x, m_unit = ''m''\<rparr>
             | None \<Rightarrow> \<lparr>m_value = the (v2_deviation_ft s), m_unit = ''ft''\<rparr>))
      in \<lparr>ps_user_token = v2_user_token p,
          ps_shot =
            \<lparr>ps_id = v2_id s, ps_occurred_at = v2_occurred_at s, ps_club_code = v2_club_code s,
             ps_ball_speed = ballSpeed, ps_club_speed = clubSpeed,
             ps_launch = \<lparr>m_value = v2_launch_deg s, m_unit = ''deg''\<rparr>,
             ps_carry = carry, ps_total = total, ps_deviation = deviation, ps_spin_rpm = None\<rparr>\<rparr>)"

section \<open>Version 3\<close>

record ProswingShotV3 =
  v3_id :: js_string
  v3_occurred_at :: js_string
  v3_club_code :: js_string
  v3_ball_speed :: Measurement
  v3_club_speed :: "Measurement option"
  v3_launch_angle :: number
  v3_spin_rpm :: "int option"
  v3_carry :: Measurement
  v3_total :: "Measurement option"
  v3_deviation :: Measurement

record PayloadV3 =
  v3_player_id :: js_string
  v3_device_id :: "js_string option"
  v3_shot :: ProswingShotV3

definition ProswingShotV3Schema :: "Platform \<Rightarrow> ProswingShotV3 schema" where
  "ProswingShotV3Schema P v =
     do { kvs \<leftarrow> z_strict [''id'', ''occurred_at'', ''club_code'', ''ball_speed'', ''club_speed'',
                          ''launch_angle'', ''spin_rpm'', ''carry'', ''total'', ''deviation''] v;
          sid \<leftarrow> z_string 1 255 (get kvs ''id'');
          occurred_at \<leftarrow> z_format (datetime_ok P) (get kvs ''occurred_at'');
          club \<leftarrow> z_string 1 64 (get kvs ''club_code'');
          ball_speed \<leftarrow> ProswingBallSpeedSchema (get kvs ''ball_speed'');
          club_speed \<leftarrow> z_optional ProswingClubSpeedSchema (get kvs ''club_speed'');
          launch_angle \<leftarrow> z_number (- 10) 90 (get kvs ''launch_angle'');
          spin \<leftarrow> z_optional (z_int 0 15000) (get kvs ''spin_rpm'');
          carry \<leftarrow> ProswingDistanceSchema (get kvs ''carry'');
          total \<leftarrow> z_optional ProswingDistanceSchema (get kvs ''total'');
          deviation \<leftarrow> ProswingDistanceSchema (get kvs ''deviation'');
          Some \<lparr>v3_id = sid, v3_occurred_at = occurred_at, v3_club_code = club,
                v3_ball_speed = ball_speed, v3_club_speed = club_speed, v3_launch_angle = launch_angle,
                v3_spin_rpm = spin, v3_carry = carry, v3_total = total, v3_deviation = deviation\<rparr> }"

definition id_object :: "js_string schema" where
  "id_object v = do { kvs \<leftarrow> z_strict [''id''] v; z_string 1 255 (get kvs ''id'') }"

definition ProswingPayloadV3Schema :: "Platform \<Rightarrow> PayloadV3 schema" where
  "ProswingPayloadV3Schema P v =
     do { data \<leftarrow> shot_recorded v;
          kvs \<leftarrow> z_strict [''player'', ''device'', ''shot''] data;
          player \<leftarrow> id_object (get kvs ''player'');
          device \<leftarrow> z_optional id_object (get kvs ''device'');
          shot \<leftarrow> ProswingShotV3Schema P (get kvs ''shot'');
          Some \<lparr>v3_player_id = player, v3_device_id = device, v3_shot = shot\<rparr> }"

definition fromV3 :: "PayloadV3 \<Rightarrow> ProswingCanonicalPayload" where
  "fromV3 p =
     (let s = v3_shot p
      in \<lparr>ps_user_token = v3_player_id p,
          ps_shot =
            \<lparr>ps_id = v3_id s, ps_occurred_at = v3_occurred_at s, ps_club_code = v3_club_code s,
             ps_ball_speed = v3_ball_speed s, ps_club_speed = v3_club_speed s,
             ps_launch = \<lparr>m_value = v3_launch_angle s, m_unit = ''deg''\<rparr>,
             ps_carry = v3_carry s, ps_total = v3_total s, ps_deviation = v3_deviation s,
             ps_spin_rpm = v3_spin_rpm s\<rparr>\<rparr>)"

section \<open>Detection and the public function\<close>

datatype version = V1 | V2 | V3

text \<open>\<open>typeof v === "object" && v !== null\<close>, with the properties it has; an array has neither
  the keys asked for here.\<close>

definition object_like :: "jsval \<Rightarrow> (js_string \<times> jsval) list option" where
  "object_like v = (case v of JObj kvs \<Rightarrow> Some kvs | JArr vs \<Rightarrow> Some [] | _ \<Rightarrow> None)"

definition detectVersion :: "jsval \<Rightarrow> version" where
  "detectVersion raw =
     (case object_like raw of
        None \<Rightarrow> V1
      | Some o1 \<Rightarrow>
          (case object_like (get o1 ''data'') of
             None \<Rightarrow> V1
           | Some data \<Rightarrow>
               if has_key data ''player'' then V3
               else (case object_like (get data ''shot'') of
                  None \<Rightarrow> V1
                | Some s \<Rightarrow>
                    if has_key s ''ball_speed_mph'' \<or> has_key s ''ball_speed_kph'' \<or> has_key s ''ball_speed_mps''
                    then V2 else V1)))"

definition parseProswingRaw :: "Platform \<Rightarrow> jsval \<Rightarrow> ProswingCanonicalPayload option" where
  "parseProswingRaw P raw =
     (case detectVersion raw of
        V3 \<Rightarrow> map_option fromV3 (ProswingPayloadV3Schema P raw)
      | V2 \<Rightarrow> map_option fromV2 (ProswingPayloadV2Schema P raw)
      | V1 \<Rightarrow> ProswingPayloadSchema P raw)"

definition proswing_pipe :: "Platform \<Rightarrow> jsval \<Rightarrow> exn + ProswingCanonicalPayload" where
  "proswing_pipe P value =
     (case parseProswingRaw P value of
        Some p \<Rightarrow> Inr p
      | None \<Rightarrow> Inl (Http 400 (Some ''PAYLOAD_VALIDATION_FAILED'') None))"

section \<open>The parser\<close>

definition convertSpeed :: "number \<Rightarrow> js_string \<Rightarrow> exn + number" where
  "convertSpeed value u =
     (if u = ''mph'' then Inr (mphToMps value)
      else if u = ''kph'' then Inr (kphToMps value)
      else if u = ''mps'' then Inr (mpsToMps value)
      else Inl (Http 500 None None))"

definition convertDistance :: "number \<Rightarrow> js_string \<Rightarrow> exn + number" where
  "convertDistance value u =
     (if u = ''yd'' then Inr (ydToM value)
      else if u = ''m'' then Inr value
      else if u = ''ft'' then Inr (ftToM value)
      else Inl (Http 500 None None))"

text \<open>The match against \<open>/([+-])(\d{2}):(\d{2})$/\<close>: sign, hours, minutes (\<open>parseInt\<close> of two
  digits is their value).\<close>

definition tz_match :: "js_string \<Rightarrow> (int \<times> nat \<times> nat) option" where
  "tz_match s =
     (case drop (length s - 6) s of
        [sg, h1, h2, c, m1, m2] \<Rightarrow>
          if (sg = CHR ''+'' \<or> sg = CHR ''-'') \<and> is_digit h1 \<and> is_digit h2 \<and> c = CHR '':''
             \<and> is_digit m1 \<and> is_digit m2
          then Some (if sg = CHR ''+'' then 1 else - 1, undec [h1, h2], undec [m1, m2]) else None
      | _ \<Rightarrow> None)"

definition parseTzOffset :: "Platform \<Rightarrow> js_string \<Rightarrow> exn + (js_string \<times> int)" where
  "parseTzOffset P occurred_at =
     (case toISOString (date_parse (legacy_date P) occurred_at) of
        None \<Rightarrow> Inl RangeError
      | Some utc \<Rightarrow>
          (case tz_match occurred_at of
             None \<Rightarrow> Inr (utc, 0)
           | Some (sg, hours, minutes) \<Rightarrow> Inr (utc, sg * (int hours * 60 + int minutes))))"

text \<open>An optional measurement.\<close>

definition convert_optional ::
    "(number \<Rightarrow> js_string \<Rightarrow> exn + number) \<Rightarrow> Measurement option \<Rightarrow> exn + number option" where
  "convert_optional conv m =
     (case m of
        None \<Rightarrow> Inr None
      | Some x \<Rightarrow> (case conv (m_value x) (m_unit x) of Inl e \<Rightarrow> Inl e | Inr y \<Rightarrow> Inr (Some y)))"

text \<open>A measurement as an object, and the canonical payload as one (its keys in the order of the
  first version's shape; a JSON column does not keep the order).\<close>

definition measurement_json :: "Measurement \<Rightarrow> jsval" where
  "measurement_json m = JObj [(''value'', JNum (m_value m)), (''unit'', JStr (m_unit m))]"

definition proswing_shot_json :: "ProswingCanonicalShot \<Rightarrow> jsval" where
  "proswing_shot_json s =
     JObj ([(''id'', JStr (ps_id s)), (''occurred_at'', JStr (ps_occurred_at s)),
            (''club_code'', JStr (ps_club_code s)), (''ball_speed'', measurement_json (ps_ball_speed s))]
           @ opt_field ''club_speed'' (map_option measurement_json (ps_club_speed s))
           @ [(''launch'', measurement_json (ps_launch s))]
           @ opt_field ''spin_rpm'' (map_option (\<lambda>i. JNum (of_int i)) (ps_spin_rpm s))
           @ [(''carry'', measurement_json (ps_carry s))]
           @ opt_field ''total'' (map_option measurement_json (ps_total s))
           @ [(''deviation'', measurement_json (ps_deviation s))])"

definition proswing_json :: "ProswingCanonicalPayload \<Rightarrow> jsval" where
  "proswing_json p =
     JObj [(''type'', JStr ''shot.recorded''),
           (''data'', JObj [(''user_token'', JStr (ps_user_token p)),
                            (''shot'', proswing_shot_json (ps_shot p))])]"

definition parseProswing ::
    "Platform \<Rightarrow> (nat \<Rightarrow> js_string) \<Rightarrow> ProswingCanonicalPayload \<Rightarrow> js_string \<Rightarrow> exn + NormalisedShot list" where
  "parseProswing P ulid payload receivedAtUtc =
     (let shot = ps_shot payload; user_token = ps_user_token payload
      in case parseTzOffset P (ps_occurred_at shot) of
           Inl e \<Rightarrow> Inl e
         | Inr (capturedAtUtc, offsetMin) \<Rightarrow>
      let clubCode = normaliseClub (ps_club_code shot)
      in case convertSpeed (m_value (ps_ball_speed shot)) (m_unit (ps_ball_speed shot)) of
           Inl e \<Rightarrow> Inl e
         | Inr ballSpeedMps \<Rightarrow>
      (case convertDistance (m_value (ps_carry shot)) (m_unit (ps_carry shot)) of
           Inl e \<Rightarrow> Inl e
         | Inr carryM \<Rightarrow>
      (case convertDistance (m_value (ps_deviation shot)) (m_unit (ps_deviation shot)) of
           Inl e \<Rightarrow> Inl e
         | Inr lateralM \<Rightarrow>
      (case convert_optional convertDistance (ps_total shot) of
           Inl e \<Rightarrow> Inl e
         | Inr totalM \<Rightarrow>
      (case convert_optional convertSpeed (ps_club_speed shot) of
           Inl e \<Rightarrow> Inl e
         | Inr clubHeadSpeedMps \<Rightarrow>
           Inr [\<lparr>canonical_shot_id = ulid 0,
                 vendor = Proswing,
                 vendor_shot_id = Some (ps_id shot),
                 idempotency_key = ''ps|'' @ user_token @ ''|'' @ ps_id shot,
                 vendor_user_id = user_token,
                 canonical_user_id = None,
                 captured_at_utc = capturedAtUtc,
                 captured_at_tz_offset_min = Some offsetMin,
                 received_at_utc = receivedAtUtc,
                 club_code = clubCode,
                 club_raw = ps_club_code shot,
                 ball_speed_mps = ballSpeedMps,
                 club_head_speed_mps = clubHeadSpeedMps,
                 launch_angle_deg = m_value (ps_launch shot),
                 spin_rpm = ps_spin_rpm shot,
                 carry_m = carryM,
                 total_m = totalM,
                 lateral_m = lateralM,
                 device_id = None,
                 session_id = None,
                 content_hash = computeContentHash (sha256 P)
                   \<lparr>ch_vendor_user_id = user_token,
                    ch_club_code = club_string clubCode,
                    ch_captured_at_utc = capturedAtUtc,
                    ch_ball_speed_mps = ballSpeedMps,
                    ch_launch_angle_deg = m_value (ps_launch shot),
                    ch_carry_m = carryM,
                    ch_lateral_m = lateralM\<rparr>,
                 schema_version = 1,
                 parser_version = ''1.0.0'',
                 duplicate_of = None,
                 raw_payload = proswing_json payload\<rparr>])))))"

section \<open>Lemmas on the schemas\<close>

definition speed_ok :: "number \<Rightarrow> Measurement \<Rightarrow> bool" where
  "speed_ok hi m \<longleftrightarrow> m_value m \<in> {0..hi} \<and> m_unit m \<in> set speed_units"

definition ball_speed_ok :: "Measurement \<Rightarrow> bool" where
  "ball_speed_ok m \<longleftrightarrow> speed_ok 500 m \<and> (m_unit m = ''mps'' \<longrightarrow> m_value m \<le> 120)"

definition distance_ok :: "Measurement \<Rightarrow> bool" where
  "distance_ok m \<longleftrightarrow> m_value m \<in> {- 500..700} \<and> m_unit m \<in> set distance_units"

definition deviation_ok :: "Measurement \<Rightarrow> bool" where
  "deviation_ok m \<longleftrightarrow> distance_ok m \<or> (m_unit m = ''ft'' \<and> m_value m \<in> {- 1500..1500})"

definition canonical_shot_ok :: "Platform \<Rightarrow> ProswingCanonicalShot \<Rightarrow> bool" where
  "canonical_shot_ok P s \<longleftrightarrow>
     length (ps_id s) \<in> {1..255} \<and> datetime_ok P (ps_occurred_at s) \<and> length (ps_club_code s) \<in> {1..64}
     \<and> ball_speed_ok (ps_ball_speed s) \<and> pred_option (speed_ok 370) (ps_club_speed s)
     \<and> m_value (ps_launch s) \<in> {- 10..90} \<and> m_unit (ps_launch s) = ''deg''
     \<and> distance_ok (ps_carry s) \<and> pred_option distance_ok (ps_total s) \<and> deviation_ok (ps_deviation s)
     \<and> pred_option (\<lambda>x. x \<in> {0..15000}) (ps_spin_rpm s)"

definition canonical_ok :: "Platform \<Rightarrow> ProswingCanonicalPayload \<Rightarrow> bool" where
  "canonical_ok P p \<longleftrightarrow> length (ps_user_token p) \<in> {1..255} \<and> canonical_shot_ok P (ps_shot p)"

lemma measurement_schema_Some:
  "measurement_schema vs us v = Some m \<Longrightarrow>
     \<exists>kvs. vs (get kvs ''value'') = Some (m_value m) \<and> us (get kvs ''unit'') = Some (m_unit m)"
  by (auto simp: measurement_schema_def bind_eq_Some_conv)

lemma speed_schema_bounds [z_bounds]:
  "ProswingBallSpeedSchema v = Some m \<Longrightarrow> ball_speed_ok m"
  "ProswingClubSpeedSchema v = Some m \<Longrightarrow> speed_ok 300 m"
  "ProswingDistanceSchema v = Some m \<Longrightarrow> distance_ok m"
  "ProswingLaunchSchema v = Some m \<Longrightarrow> m_value m \<in> {- 10..90} \<and> m_unit m = ''deg''"
  by (auto simp: ProswingBallSpeedSchema_def ProswingClubSpeedSchema_def ProswingDistanceSchema_def
      ProswingLaunchSchema_def z_refine_Some ball_speed_ok_def speed_ok_def distance_ok_def z_accepts
      dest!: measurement_schema_Some)

lemma z_optional_pred:
  "z_optional p v = Some w \<Longrightarrow> (\<And>x y. p x = Some y \<Longrightarrow> Q y) \<Longrightarrow> pred_option Q w"
  by (auto simp: z_optional_Some)

lemma club_speed_bounds: "ProswingClubSpeedSchema v = Some m \<Longrightarrow> speed_ok 370 m"
  using speed_schema_bounds(2) [of v m] by (auto simp: speed_ok_def)

lemmas optional_measurement_bounds =
  z_optional_pred [OF _ club_speed_bounds] z_optional_pred [OF _ speed_schema_bounds(3)]

lemma v1_shot_ok:
  assumes "ProswingShotV1Schema P v = Some s"
  shows "canonical_shot_ok P s \<and> distance_ok (ps_deviation s) \<and> ps_spin_rpm s = None"
proof -
  obtain kvs where k:
    "z_string 1 255 (get kvs ''id'') = Some (ps_id s)"
    "z_format (datetime_ok P) (get kvs ''occurred_at'') = Some (ps_occurred_at s)"
    "z_string 1 64 (get kvs ''club_code'') = Some (ps_club_code s)"
    "ProswingBallSpeedSchema (get kvs ''ball_speed'') = Some (ps_ball_speed s)"
    "z_optional ProswingClubSpeedSchema (get kvs ''club_speed'') = Some (ps_club_speed s)"
    "ProswingLaunchSchema (get kvs ''launch'') = Some (ps_launch s)"
    "ProswingDistanceSchema (get kvs ''carry'') = Some (ps_carry s)"
    "z_optional ProswingDistanceSchema (get kvs ''total'') = Some (ps_total s)"
    "ProswingDistanceSchema (get kvs ''deviation'') = Some (ps_deviation s)"
    "ps_spin_rpm s = None"
    using assms by (auto simp: ProswingShotV1Schema_def bind_eq_Some_conv)
  show ?thesis
    using k(10) z_field_bounds(1) [OF k(1)] z_field_bounds(2) [OF k(2)] z_field_bounds(1) [OF k(3)]
      speed_schema_bounds(1) [OF k(4)] optional_measurement_bounds(1) [OF k(5)]
      speed_schema_bounds(4) [OF k(6)] speed_schema_bounds(3) [OF k(7)]
      optional_measurement_bounds(2) [OF k(8)] speed_schema_bounds(3) [OF k(9)]
    by (simp add: canonical_shot_ok_def deviation_ok_def)
qed

lemma v3_shot_ok:
  assumes "ProswingShotV3Schema P v = Some s" and "length tok \<in> {1..255}"
  shows "canonical_ok P (fromV3 \<lparr>v3_player_id = tok, v3_device_id = d, v3_shot = s\<rparr>)"
proof -
  obtain kvs where k:
    "z_string 1 255 (get kvs ''id'') = Some (v3_id s)"
    "z_format (datetime_ok P) (get kvs ''occurred_at'') = Some (v3_occurred_at s)"
    "z_string 1 64 (get kvs ''club_code'') = Some (v3_club_code s)"
    "ProswingBallSpeedSchema (get kvs ''ball_speed'') = Some (v3_ball_speed s)"
    "z_optional ProswingClubSpeedSchema (get kvs ''club_speed'') = Some (v3_club_speed s)"
    "z_number (- 10) 90 (get kvs ''launch_angle'') = Some (v3_launch_angle s)"
    "ProswingDistanceSchema (get kvs ''carry'') = Some (v3_carry s)"
    "z_optional ProswingDistanceSchema (get kvs ''total'') = Some (v3_total s)"
    "ProswingDistanceSchema (get kvs ''deviation'') = Some (v3_deviation s)"
    "z_optional (z_int 0 15000) (get kvs ''spin_rpm'') = Some (v3_spin_rpm s)"
    using assms(1) by (auto simp: ProswingShotV3Schema_def bind_eq_Some_conv)
  show ?thesis
    using assms(2) z_field_bounds(1) [OF k(1)] z_field_bounds(2) [OF k(2)] z_field_bounds(1) [OF k(3)]
      speed_schema_bounds(1) [OF k(4)] optional_measurement_bounds(1) [OF k(5)]
      z_field_bounds(3) [OF k(6)] speed_schema_bounds(3) [OF k(7)]
      optional_measurement_bounds(2) [OF k(8)] speed_schema_bounds(3) [OF k(9)]
      z_optional_bounds(3) [OF k(10)]
    by (simp add: canonical_ok_def canonical_shot_ok_def deviation_ok_def fromV3_def Let_def)
qed

definition v2_shot_ok :: "Platform \<Rightarrow> ProswingShotV2 \<Rightarrow> bool" where
  "v2_shot_ok P s \<longleftrightarrow>
     length (v2_id s) \<in> {1..255} \<and> datetime_ok P (v2_occurred_at s) \<and> length (v2_club_code s) \<in> {1..64}
     \<and> pred_option (\<lambda>x. x \<in> {0..268}) (v2_ball_speed_mph s)
     \<and> pred_option (\<lambda>x. x \<in> {0..430}) (v2_ball_speed_kph s)
     \<and> pred_option (\<lambda>x. x \<in> {0..120}) (v2_ball_speed_mps s)
     \<and> pred_option (\<lambda>x. x \<in> {0..230}) (v2_club_speed_mph s)
     \<and> pred_option (\<lambda>x. x \<in> {0..370}) (v2_club_speed_kph s)
     \<and> pred_option (\<lambda>x. x \<in> {0..103}) (v2_club_speed_mps s)
     \<and> v2_launch_deg s \<in> {- 10..90}
     \<and> pred_option (\<lambda>x. x \<in> {0..600}) (v2_carry_yd s) \<and> pred_option (\<lambda>x. x \<in> {0..550}) (v2_carry_m s)
     \<and> pred_option (\<lambda>x. x \<in> {0..700}) (v2_total_yd s) \<and> pred_option (\<lambda>x. x \<in> {0..640}) (v2_total_m s)
     \<and> pred_option (\<lambda>x. x \<in> {- 500..500}) (v2_deviation_yd s)
     \<and> pred_option (\<lambda>x. x \<in> {- 500..500}) (v2_deviation_m s)
     \<and> pred_option (\<lambda>x. x \<in> {- 1500..1500}) (v2_deviation_ft s)"

lemma v2_object_ok: "ProswingShotV2Object P v = Some s \<Longrightarrow> v2_shot_ok P s"
  by (clarsimp simp: ProswingShotV2Object_def bind_eq_Some_conv v2_shot_ok_def simp del: atLeastAtMost_iff)
    (intro conjI; (erule z_bounds | assumption))

lemma fromV2_unit_ok:
  fixes tok :: js_string
  assumes "v2_shot_ok P s" and "v2_complete s"
  defines "c \<equiv> ps_shot (fromV2 \<lparr>v2_user_token = tok, v2_shot = s\<rparr>)"
  shows "ball_speed_ok (ps_ball_speed c)" and "pred_option (speed_ok 370) (ps_club_speed c)"
    and "distance_ok (ps_carry c)" and "pred_option distance_ok (ps_total c)"
    and "deviation_ok (ps_deviation c)"
proof -
  show "ball_speed_ok (ps_ball_speed c)"
    using assms(1,2)
    by (auto simp: c_def fromV2_def Let_def v2_shot_ok_def v2_complete_def ball_speed_ok_def speed_ok_def
        speed_units_def split: option.splits)
  show "pred_option (speed_ok 370) (ps_club_speed c)"
    using assms(1)
    by (auto simp: c_def fromV2_def Let_def v2_shot_ok_def speed_ok_def speed_units_def split: option.splits)
  show "distance_ok (ps_carry c)"
    using assms(1,2)
    by (auto simp: c_def fromV2_def Let_def v2_shot_ok_def v2_complete_def distance_ok_def
        distance_units_def split: option.splits)
  show "pred_option distance_ok (ps_total c)"
    using assms(1)
    by (auto simp: c_def fromV2_def Let_def v2_shot_ok_def distance_ok_def distance_units_def
        split: option.splits)
  have dev: "pred_option (\<lambda>x. x \<in> {- 500..500}) (v2_deviation_yd s)"
    "pred_option (\<lambda>x. x \<in> {- 500..500}) (v2_deviation_m s)"
    "pred_option (\<lambda>x. x \<in> {- 1500..1500}) (v2_deviation_ft s)"
    "\<not> (v2_deviation_yd s = None \<and> v2_deviation_m s = None \<and> v2_deviation_ft s = None)"
    using assms(1,2) by (simp_all add: v2_shot_ok_def v2_complete_def)
  have "ps_deviation c =
          (case v2_deviation_yd s of Some x \<Rightarrow> \<lparr>m_value = x, m_unit = ''yd''\<rparr>
           | None \<Rightarrow> (case v2_deviation_m s of Some x \<Rightarrow> \<lparr>m_value = x, m_unit = ''m''\<rparr>
           | None \<Rightarrow> \<lparr>m_value = the (v2_deviation_ft s), m_unit = ''ft''\<rparr>))"
    by (simp add: c_def fromV2_def Let_def)
  then show "deviation_ok (ps_deviation c)"
    using dev
    by (cases "v2_deviation_yd s"; cases "v2_deviation_m s"; cases "v2_deviation_ft s")
      (simp_all add: deviation_ok_def distance_ok_def distance_units_def)
qed

lemma v2_ok:
  assumes "ProswingShotV2Schema P v = Some s" and "length tok \<in> {1..255}"
  shows "canonical_ok P (fromV2 \<lparr>v2_user_token = tok, v2_shot = s\<rparr>)"
proof -
  have s: "v2_shot_ok P s" "v2_complete s"
    using assms(1) v2_object_ok by (auto simp: ProswingShotV2Schema_def z_refine_Some)
  let ?c = "fromV2 \<lparr>v2_user_token = tok, v2_shot = s\<rparr>"
  have "ps_user_token ?c = tok" "ps_id (ps_shot ?c) = v2_id s" "ps_occurred_at (ps_shot ?c) = v2_occurred_at s"
    "ps_club_code (ps_shot ?c) = v2_club_code s" "ps_spin_rpm (ps_shot ?c) = None"
    "ps_launch (ps_shot ?c) = \<lparr>m_value = v2_launch_deg s, m_unit = ''deg''\<rparr>"
    by (simp_all add: fromV2_def Let_def)
  then show ?thesis
    using assms(2) fromV2_unit_ok [OF s, of tok] s(1)
    by (simp add: canonical_ok_def canonical_shot_ok_def v2_shot_ok_def)
qed

lemma parse_raw_ok: "parseProswingRaw P v = Some c \<Longrightarrow> canonical_ok P c"
proof -
  assume p: "parseProswingRaw P v = Some c"
  show "canonical_ok P c"
  proof (cases "detectVersion v")
    case V1
    then obtain kvs where k: "z_string 8 255 (get kvs ''user_token'') = Some (ps_user_token c)"
      "ProswingShotV1Schema P (get kvs ''shot'') = Some (ps_shot c)"
      using p by (auto simp: parseProswingRaw_def ProswingPayloadSchema_def bind_eq_Some_conv)
    show ?thesis using z_field_bounds(1) [OF k(1)] v1_shot_ok [OF k(2)] by (simp add: canonical_ok_def)
  next
    case V2
    then obtain kvs tok s where k: "z_string 8 255 (get kvs ''user_token'') = Some tok"
      "ProswingShotV2Schema P (get kvs ''shot'') = Some s" "c = fromV2 \<lparr>v2_user_token = tok, v2_shot = s\<rparr>"
      using p by (auto simp: parseProswingRaw_def ProswingPayloadV2Schema_def bind_eq_Some_conv)
    show ?thesis using z_field_bounds(1) [OF k(1)] v2_ok [OF k(2)] k(3) by simp
  next
    case V3
    then obtain kvs tok d s where k: "id_object (get kvs ''player'') = Some tok"
      "ProswingShotV3Schema P (get kvs ''shot'') = Some s"
      "c = fromV3 \<lparr>v3_player_id = tok, v3_device_id = d, v3_shot = s\<rparr>"
      using p by (auto simp: parseProswingRaw_def ProswingPayloadV3Schema_def bind_eq_Some_conv)
    have "length tok \<in> {1..255}" using k(1) by (auto simp: id_object_def bind_eq_Some_conv z_accepts)
    then show ?thesis using v3_shot_ok [OF k(2)] k(3) by simp
  qed
qed

section \<open>Lemmas on detection\<close>

lemma shot_recorded_Some:
  "shot_recorded v = Some d \<longleftrightarrow>
     (\<exists>kvs. v = JObj kvs \<and> (\<forall>k. has_key kvs k \<longrightarrow> k \<in> {''type'', ''data''})
            \<and> get kvs ''type'' = JStr ''shot.recorded'' \<and> d = get kvs ''data'')"
  by (auto simp: shot_recorded_def bind_eq_Some_conv z_accepts)

lemma get_defined: "get kvs k \<noteq> JUndefined \<Longrightarrow> has_key kvs k"
  using get_no_key by blast

lemma enveloped:
  "shot_recorded v = Some d \<Longrightarrow> z_strict ks d = Some kvs \<Longrightarrow>
     \<exists>vs. v = JObj vs \<and> get vs ''data'' = JObj kvs \<and> (\<forall>k. has_key kvs k \<longrightarrow> k \<in> set ks)"
  by (auto simp: shot_recorded_Some z_strict_Some)

lemma detect_object:
  "get vs ''data'' = JObj kvs \<Longrightarrow>
     detectVersion (JObj vs) =
       (if has_key kvs ''player'' then V3
        else (case object_like (get kvs ''shot'') of
           None \<Rightarrow> V1
         | Some s \<Rightarrow>
             if has_key s ''ball_speed_mph'' \<or> has_key s ''ball_speed_kph'' \<or> has_key s ''ball_speed_mps''
             then V2 else V1))"
  by (simp add: detectVersion_def object_like_def)

lemma v1_detected:
  assumes "ProswingPayloadSchema P v = Some c"
  shows "detectVersion v = V1"
proof -
  obtain d kvs where d: "shot_recorded v = Some d" "z_strict [''user_token'', ''shot''] d = Some kvs"
    "ProswingShotV1Schema P (get kvs ''shot'') = Some (ps_shot c)"
    using assms by (auto simp: ProswingPayloadSchema_def bind_eq_Some_conv)
  from d(3) obtain ss where ss: "get kvs ''shot'' = JObj ss"
    "\<not> has_key ss ''ball_speed_mph''" "\<not> has_key ss ''ball_speed_kph''" "\<not> has_key ss ''ball_speed_mps''"
    by (auto simp: ProswingShotV1Schema_def bind_eq_Some_conv z_strict_Some)
  from enveloped [OF d(1,2)] ss show ?thesis by (auto simp: detect_object object_like_def)
qed

lemma v2_object_keys:
  assumes "ProswingShotV2Object P v = Some s"
  shows "\<exists>ss. v = JObj ss \<and> (v2_ball_speed_mph s \<noteq> None \<longrightarrow> has_key ss ''ball_speed_mph'')
           \<and> (v2_ball_speed_kph s \<noteq> None \<longrightarrow> has_key ss ''ball_speed_kph'')
           \<and> (v2_ball_speed_mps s \<noteq> None \<longrightarrow> has_key ss ''ball_speed_mps'')"
proof -
  obtain ss where "v = JObj ss"
    "z_optional (z_number 0 268) (get ss ''ball_speed_mph'') = Some (v2_ball_speed_mph s)"
    "z_optional (z_number 0 430) (get ss ''ball_speed_kph'') = Some (v2_ball_speed_kph s)"
    "z_optional (z_number 0 120) (get ss ''ball_speed_mps'') = Some (v2_ball_speed_mps s)"
    using assms by (clarsimp simp: ProswingShotV2Object_def bind_eq_Some_conv z_strict_Some)
  then show ?thesis using get_defined by (auto simp: z_optional_Some)
qed

lemma v2_detected:
  assumes "ProswingPayloadV2Schema P v = Some c"
  shows "detectVersion v = V2"
proof -
  obtain d kvs where d: "shot_recorded v = Some d" "z_strict [''user_token'', ''shot''] d = Some kvs"
    "ProswingShotV2Object P (get kvs ''shot'') = Some (v2_shot c)" "v2_complete (v2_shot c)"
    using assms
    by (auto simp: ProswingPayloadV2Schema_def ProswingShotV2Schema_def bind_eq_Some_conv z_refine_Some)
  from v2_object_keys [OF d(3)] d(4) obtain ss where ss: "get kvs ''shot'' = JObj ss"
    "has_key ss ''ball_speed_mph'' \<or> has_key ss ''ball_speed_kph'' \<or> has_key ss ''ball_speed_mps''"
    by (auto simp: v2_complete_def)
  from enveloped [OF d(1,2)] ss show ?thesis by (auto simp: detect_object object_like_def)
qed

lemma v3_detected:
  assumes "ProswingPayloadV3Schema P v = Some c"
  shows "detectVersion v = V3"
proof -
  obtain d kvs tok where d: "shot_recorded v = Some d" "z_strict [''player'', ''device'', ''shot''] d = Some kvs"
    "id_object (get kvs ''player'') = Some tok"
    using assms by (auto simp: ProswingPayloadV3Schema_def bind_eq_Some_conv)
  from d(3) have "has_key kvs ''player''"
    using get_defined [of kvs "''player''"] by (auto simp: id_object_def bind_eq_Some_conv z_strict_Some)
  with enveloped [OF d(1,2)] show ?thesis by (auto simp: detect_object)
qed

section \<open>Lemmas on the parser\<close>

lemma convertSpeed_ok:
  assumes "m_unit m \<in> set speed_units" and "0 \<le> m_value m"
  shows "\<exists>y. convertSpeed (m_value m) (m_unit m) = Inr y \<and> 0 \<le> y"
  using assms mph.conv_nonneg kph.conv_nonneg
  by (auto simp: speed_units_def convertSpeed_def mpsToMps_def)

lemma convertSpeed_ball:
  assumes "ball_speed_ok m"
  shows "\<exists>y. convertSpeed (m_value m) (m_unit m) = Inr y \<and> y \<in> {0..<224}"
proof -
  have "0 \<le> m_value m" "m_value m \<le> 500"
    "m_unit m = ''mph'' \<or> m_unit m = ''kph'' \<or> m_unit m = ''mps'' \<and> m_value m \<le> 120"
    using assms by (auto simp: ball_speed_ok_def speed_ok_def speed_units_def)
  then show ?thesis
    using mph.conv_nonneg kph.conv_nonneg mph.conv_mono [of "m_value m" 500]
      kph.conv_mono [of "m_value m" 500] proswing_bounds(1,2)
    by (elim disjE; simp add: convertSpeed_def mpsToMps_def)
qed

lemma convertDistance_ok:
  assumes "deviation_ok m"
  shows "\<exists>y. convertDistance (m_value m) (m_unit m) = Inr y \<and> \<bar>y\<bar> \<le> 700"
proof -
  have "\<bar>x\<bar> \<le> 700 \<Longrightarrow> \<bar>ydToM x\<bar> \<le> 700" "\<bar>x\<bar> \<le> 1500 \<Longrightarrow> \<bar>ftToM x\<bar> \<le> 700" for x
    using yd.conv_abs [of x 700] ft.conv_abs [of x 1500] proswing_bounds(3,4) by simp_all
  moreover have "\<bar>m_value m\<bar> \<le> 1500" "m_unit m = ''ft'' \<or> \<bar>m_value m\<bar> \<le> 700"
    "m_unit m = ''yd'' \<or> m_unit m = ''m'' \<or> m_unit m = ''ft''"
    using assms by (auto simp: deviation_ok_def distance_ok_def distance_units_def)
  ultimately show ?thesis by (elim disjE; simp add: convertDistance_def)
qed

lemma convert_optional_ok:
  assumes "pred_option (\<lambda>m. \<exists>y. conv (m_value m) (m_unit m) = Inr y) mo"
  shows "\<exists>yo. convert_optional conv mo = Inr yo \<and> (yo = None) = (mo = None)"
  using assms by (cases mo) (auto simp: convert_optional_def)

lemma parseProswing_total:
  assumes "canonical_ok P p" and "date_parse (legacy_date P) (ps_occurred_at (ps_shot p)) = Some t"
  shows "\<exists>s. parseProswing P ids p r = Inr [s] \<and> fresh_shot Proswing (sha256 P) r s
             \<and> captured_at_utc s = iso_format t \<and> ball_speed_mps s \<in> {0..<224}
             \<and> raw_payload s = proswing_json p
             \<and> vendor_user_id s = ps_user_token p \<and> vendor_shot_id s = Some (ps_id (ps_shot p))
             \<and> idempotency_key s = ''ps|'' @ join ''|'' [ps_user_token p, ps_id (ps_shot p)]"
proof -
  have ok: "canonical_shot_ok P (ps_shot p)" using assms(1) by (simp add: canonical_ok_def)
  obtain off where tz: "parseTzOffset P (ps_occurred_at (ps_shot p)) = Inr (iso_format t, off)"
    using assms(2) by (cases "tz_match (ps_occurred_at (ps_shot p))") (auto simp: parseTzOffset_def toISOString_def)
  obtain b where b: "convertSpeed (m_value (ps_ball_speed (ps_shot p))) (m_unit (ps_ball_speed (ps_shot p))) = Inr b"
    "b \<in> {0..<224}"
    using ok convertSpeed_ball by (auto simp: canonical_shot_ok_def)
  obtain c where c: "convertDistance (m_value (ps_carry (ps_shot p))) (m_unit (ps_carry (ps_shot p))) = Inr c"
    "\<bar>c\<bar> \<le> 700"
    using ok convertDistance_ok by (auto simp: canonical_shot_ok_def deviation_ok_def)
  obtain l where l: "convertDistance (m_value (ps_deviation (ps_shot p))) (m_unit (ps_deviation (ps_shot p))) = Inr l"
    "\<bar>l\<bar> \<le> 700"
    using ok convertDistance_ok by (auto simp: canonical_shot_ok_def)
  have "pred_option (\<lambda>m. \<exists>y. convertDistance (m_value m) (m_unit m) = Inr y) (ps_total (ps_shot p))"
    using ok convertDistance_ok
    by (cases "ps_total (ps_shot p)") (auto simp: canonical_shot_ok_def deviation_ok_def)
  from convert_optional_ok [OF this]
  obtain tot where tot: "convert_optional convertDistance (ps_total (ps_shot p)) = Inr tot" by auto
  have "pred_option (\<lambda>m. \<exists>y. convertSpeed (m_value m) (m_unit m) = Inr y) (ps_club_speed (ps_shot p))"
    using ok convertSpeed_ok
    by (cases "ps_club_speed (ps_shot p)") (auto simp: canonical_shot_ok_def speed_ok_def)
  from convert_optional_ok [OF this]
  obtain h where h: "convert_optional convertSpeed (ps_club_speed (ps_shot p)) = Inr h" by auto
  show ?thesis
    using b(2) c(2) l(2) date_parse_range [OF assms(2)] ok
    by (auto simp: parseProswing_def Let_def tz b(1) c(1) l(1) tot h fresh_shot_def hash_input_def
        canonical_shot_ok_def)
qed

lemma parseProswing_range:
  assumes "canonical_ok P p" and "date_parse (legacy_date P) (ps_occurred_at (ps_shot p)) = None"
  shows "parseProswing P ids p r = Inl RangeError"
  using assms(2) by (simp add: parseProswing_def Let_def parseTzOffset_def toISOString_def)

definition accepts_proswing :: "Platform \<Rightarrow> ProswingCanonicalPayload \<Rightarrow> bool" where
  "accepts_proswing P p \<longleftrightarrow> canonical_ok P p"

lemma parseProswing_fresh:
  assumes "canonical_ok P p" and "parseProswing P ids p r = Inr shots" and "s \<in> set shots"
  shows "fresh_shot Proswing (sha256 P) r s"
proof (cases "date_parse (legacy_date P) (ps_occurred_at (ps_shot p))")
  case None
  then show ?thesis using assms parseProswing_range by simp
next
  case (Some t)
  from parseProswing_total [OF assms(1) this, of ids r] assms(2,3) show ?thesis by auto
qed

text \<open>The parser's own 500s are for units outside the enumerations.\<close>

lemma convert_errors:
  "convertSpeed x u = Inl e \<Longrightarrow> e = Http 500 None None"
  "convertDistance x u = Inl e \<Longrightarrow> e = Http 500 None None"
  by (auto simp: convertSpeed_def convertDistance_def split: if_splits)

lemma parseProswing_error:
  assumes "canonical_ok P p" and "parseProswing P ids p r = Inl e"
  shows "e = RangeError"
proof (cases "date_parse (legacy_date P) (ps_occurred_at (ps_shot p))")
  case None
  then show ?thesis using assms parseProswing_range by simp
next
  case (Some t)
  from parseProswing_total [OF assms(1) this, of ids r] assms(2) show ?thesis by auto
qed

interpretation ps_parser: vendor_parser Proswing accepts_proswing parseProswing
  by unfold_locales (auto simp: accepts_proswing_def intro: parseProswing_fresh parseProswing_error)

text \<open>The first version reads back what is stored, when the values are within its own bounds.\<close>

definition v1_range :: "ProswingCanonicalPayload \<Rightarrow> bool" where
  "v1_range p \<longleftrightarrow>
     8 \<le> length (ps_user_token p) \<and> ps_spin_rpm (ps_shot p) = None
     \<and> pred_option (speed_ok 300) (ps_club_speed (ps_shot p)) \<and> distance_ok (ps_deviation (ps_shot p))"

lemma measurement_schema_json:
  "measurement_schema vs us (measurement_json m) =
     do { x \<leftarrow> vs (JNum (m_value m)); u \<leftarrow> us (JStr (m_unit m)); Some \<lparr>m_value = x, m_unit = u\<rparr> }"
  by (simp add: measurement_schema_def measurement_json_def z_strict_def)

lemma measurement_schemas_json:
  "ball_speed_ok m \<Longrightarrow> ProswingBallSpeedSchema (measurement_json m) = Some m"
  "speed_ok 300 m \<Longrightarrow> ProswingClubSpeedSchema (measurement_json m) = Some m"
  "distance_ok m \<Longrightarrow> ProswingDistanceSchema (measurement_json m) = Some m"
  "m_value m \<in> {- 10..90} \<and> m_unit m = ''deg'' \<Longrightarrow> ProswingLaunchSchema (measurement_json m) = Some m"
  by (auto simp: ProswingBallSpeedSchema_def ProswingClubSpeedSchema_def ProswingDistanceSchema_def
      ProswingLaunchSchema_def measurement_schema_json z_refine_def ball_speed_ok_def speed_ok_def
      distance_ok_def)

lemma optional_measurement_json:
  "pred_option (speed_ok 300) mo \<Longrightarrow> z_optional ProswingClubSpeedSchema (opt_val measurement_json mo) = Some mo"
  "pred_option distance_ok mo \<Longrightarrow> z_optional ProswingDistanceSchema (opt_val measurement_json mo) = Some mo"
  by (auto intro!: z_optional_printed_by simp: measurement_schemas_json)
    (simp_all add: measurement_json_def)

definition proswing_entries :: "ProswingCanonicalShot \<Rightarrow> (js_string \<times> jsval) list" where
  "proswing_entries s = (case proswing_shot_json s of JObj kvs \<Rightarrow> kvs | _ \<Rightarrow> [])"

lemma get_proswing_entries:
  assumes "ps_spin_rpm s = None"
  shows "get (proswing_entries s) k =
     (if ''id'' = k then JStr (ps_id s)
      else if ''occurred_at'' = k then JStr (ps_occurred_at s)
      else if ''club_code'' = k then JStr (ps_club_code s)
      else if ''ball_speed'' = k then measurement_json (ps_ball_speed s)
      else if ''club_speed'' = k \<and> ps_club_speed s \<noteq> None then opt_val measurement_json (ps_club_speed s)
      else if ''launch'' = k then measurement_json (ps_launch s)
      else if ''carry'' = k then measurement_json (ps_carry s)
      else if ''total'' = k \<and> ps_total s \<noteq> None then opt_val measurement_json (ps_total s)
      else if ''deviation'' = k then measurement_json (ps_deviation s)
      else JUndefined)"
  using assms
  by (cases "ps_club_speed s"; cases "ps_total s")
    (simp_all add: proswing_entries_def proswing_shot_json_def split del: if_split cong del: if_weak_cong)

lemma proswing_shot_keys:
  assumes "ps_spin_rpm s = None"
  shows "z_strict [''id'', ''occurred_at'', ''club_code'', ''ball_speed'', ''club_speed'',
                   ''launch'', ''carry'', ''total'', ''deviation''] (proswing_shot_json s)
         = Some (proswing_entries s)"
proof -
  have "list_all (\<lambda>(k, x). k \<in> set [''id'', ''occurred_at'', ''club_code'', ''ball_speed'', ''club_speed'',
                   ''launch'', ''carry'', ''total'', ''deviation'']) (proswing_entries s)"
    using assms by (simp add: proswing_entries_def proswing_shot_json_def list_all_opt_field pred_option_def)
  then have "z_strict [''id'', ''occurred_at'', ''club_code'', ''ball_speed'', ''club_speed'',
                   ''launch'', ''carry'', ''total'', ''deviation''] (JObj (proswing_entries s))
             = Some (proswing_entries s)"
    by (rule z_strict_intro)
  then show ?thesis by (simp add: proswing_entries_def proswing_shot_json_def)
qed

lemma v1_schema_json:
  assumes ok: "canonical_ok P p" and v1: "v1_range p"
  shows "ProswingPayloadSchema P (proswing_json p) = Some p"
proof -
  let ?s = "ps_shot p"
  have spin: "ps_spin_rpm ?s = None" using v1 by (simp add: v1_range_def)
  have g: "get (proswing_entries ?s) ''club_speed'' = opt_val measurement_json (ps_club_speed ?s)"
    "get (proswing_entries ?s) ''total'' = opt_val measurement_json (ps_total ?s)"
    by (cases "ps_club_speed ?s"; simp add: get_proswing_entries [OF spin])
      (cases "ps_total ?s"; simp add: get_proswing_entries [OF spin])
  have f: "z_optional ProswingClubSpeedSchema (opt_val measurement_json (ps_club_speed ?s)) = Some (ps_club_speed ?s)"
    "z_optional ProswingDistanceSchema (opt_val measurement_json (ps_total ?s)) = Some (ps_total ?s)"
    using ok v1 optional_measurement_json
    by (auto simp: canonical_ok_def canonical_shot_ok_def v1_range_def)
  have "ProswingShotV1Schema P (proswing_shot_json ?s) = Some ?s"
    using ok v1 f
    by (simp add: ProswingShotV1Schema_def proswing_shot_keys [OF spin] g get_proswing_entries [OF spin]
        measurement_schemas_json canonical_ok_def canonical_shot_ok_def v1_range_def)
  then show ?thesis
    using ok v1
    by (simp add: ProswingPayloadSchema_def proswing_json_def shot_recorded_def z_strict_def
        canonical_ok_def v1_range_def)
qed

lemma parse_raw_json:
  "canonical_ok P p \<Longrightarrow> v1_range p \<Longrightarrow> parseProswingRaw P (proswing_json p) = Some p"
  using v1_schema_json [of P p] v1_detected [of P "proswing_json p" p] by (simp add: parseProswingRaw_def)

text \<open>A time-zone suffix, and what the regular expression reads off it.\<close>

definition zone_suffix :: "bool \<Rightarrow> nat \<Rightarrow> nat \<Rightarrow> js_string" where
  "zone_suffix east h m = (if east then CHR ''+'' else CHR ''-'') # pad_dec 2 h @ '':'' @ pad_dec 2 m"

definition zone_minutes :: "bool \<Rightarrow> nat \<Rightarrow> nat \<Rightarrow> int" where
  "zone_minutes east h m = (if east then 1 else - 1) * (int h * 60 + int m)"

lemma pad_dec_2: "\<exists>a b. pad_dec 2 n = [a, b] \<and> is_digit a \<and> is_digit b"
proof -
  have "length (pad_dec 2 n) = 2" by simp
  then obtain a b where ab: "pad_dec 2 n = [a, b]" by (auto simp: length_Suc_conv numeral_2_eq_2)
  then have "is_digit a \<and> is_digit b" using pad_dec_digits [of a 2 n] pad_dec_digits [of b 2 n] by simp
  with ab show ?thesis by blast
qed

lemma tz_match_suffix:
  assumes "h < 100" "m < 100"
  shows "tz_match (x @ zone_suffix east h m) = Some (if east then 1 else - 1, h, m)"
proof -
  obtain a b c d where ab: "pad_dec 2 h = [a, b]" "is_digit a" "is_digit b"
    and cd: "pad_dec 2 m = [c, d]" "is_digit c" "is_digit d"
    using pad_dec_2 by metis
  have "undec [a, b] = h" "undec [c, d] = m"
    using undec_pad_dec [of 2 h] undec_pad_dec [of 2 m] assms unfolding ab(1) cd(1) by simp_all
  then show ?thesis using ab cd by (simp add: tz_match_def zone_suffix_def)
qed

lemma tz_match_zulu: "tz_match (x @ ''Z'') = None"
proof -
  have "\<not> is_digit (CHR ''Z'')" by (simp add: is_digit_def less_eq_char_nat)
  moreover have "drop (length (x @ ''Z'') - 6) (x @ ''Z'') = drop (length x - 5) x @ ''Z''" by simp
  ultimately show ?thesis unfolding tz_match_def by (auto split: list.splits simp: append_eq_Cons_conv)
qed

lemma parse_zone_suffix:
  "h \<le> 23 \<Longrightarrow> m \<le> 59 \<Longrightarrow> parse_zone (zone_suffix east h m) = Some (zone_minutes east h m)"
  using take_digits_pad [of 2 m "[]"] by (simp add: parse_zone_def zone_suffix_def zone_minutes_def)

section \<open>Properties\<close>

definition sample_proswing :: ProswingCanonicalPayload where
  "sample_proswing =
     \<lparr>ps_user_token = ''token-0001'',
      ps_shot = \<lparr>ps_id = ''shot-1'', ps_occurred_at = ''2024-03-15T20:30:00+10:00'', ps_club_code = ''PW'',
                 ps_ball_speed = \<lparr>m_value = 100, m_unit = ''mph''\<rparr>, ps_club_speed = None,
                 ps_launch = \<lparr>m_value = 25, m_unit = ''deg''\<rparr>,
                 ps_carry = \<lparr>m_value = 120, m_unit = ''yd''\<rparr>, ps_total = None,
                 ps_deviation = \<lparr>m_value = - 9, m_unit = ''ft''\<rparr>, ps_spin_rpm = None\<rparr>\<rparr>"

lemma sample_proswing_time: "iso_parse ''2024-03-15T20:30:00+10:00'' = Some 1710498600000"
  by code_simp

lemma sample_proswing_ok: "canonical_ok sample_platform sample_proswing" "v1_range sample_proswing"
  by (simp_all add: canonical_ok_def canonical_shot_ok_def sample_proswing_def sample_platform_def
      sample_proswing_time ball_speed_ok_def speed_ok_def speed_units_def distance_ok_def
      distance_units_def deviation_ok_def v1_range_def)

text \<open>C14: version detection never misroutes a body. A body is accepted exactly when one of the
  three schemas accepts it, at most one does, and the result is that schema's payload.\<close>

theorem proswing_detection:
  "parseProswingRaw P v = Some c \<longleftrightarrow>
     ProswingPayloadSchema P v = Some c
     \<or> (\<exists>p. ProswingPayloadV2Schema P v = Some p \<and> c = fromV2 p)
     \<or> (\<exists>p. ProswingPayloadV3Schema P v = Some p \<and> c = fromV3 p)"
proof (cases "detectVersion v")
  case V1
  then show ?thesis using v2_detected v3_detected by (fastforce simp: parseProswingRaw_def)
next
  case V2
  then show ?thesis using v1_detected v3_detected by (fastforce simp: parseProswingRaw_def)
next
  case V3
  then show ?thesis using v1_detected v2_detected by (fastforce simp: parseProswingRaw_def)
qed

text \<open>C25: whatever the pipe lets through is parsed to exactly one fresh shot below 224 m/s: no
  unit reaches the converters' defaults, so the parser's 500 is unreachable, and a speed labelled
  m/s above 120 never gets this far.\<close>

theorem proswing_parse_total:
  assumes "datetime_sound P" and "proswing_pipe P v = Inr p"
  shows "\<exists>s. parseProswing P ids p received = Inr [s] \<and> fresh_shot Proswing (sha256 P) received s
             \<and> ball_speed_mps s \<in> {0..<224} \<and> \<bar>carry_m s\<bar> \<le> 700 \<and> \<bar>lateral_m s\<bar> \<le> 700
             \<and> \<not> (m_unit (ps_ball_speed (ps_shot p)) = ''mps'' \<and> 120 < ball_speed_mps s)
             \<and> captured_at_tz_offset_min s \<noteq> None"
proof -
  have ok: "canonical_ok P p"
    using assms(2) parse_raw_ok by (auto simp: proswing_pipe_def split: option.splits)
  then obtain t where t: "date_parse (legacy_date P) (ps_occurred_at (ps_shot p)) = Some t"
    using assms(1) by (auto simp: datetime_sound_def canonical_ok_def canonical_shot_ok_def)
  from parseProswing_total [OF ok t] obtain s where s: "parseProswing P ids p received = Inr [s]"
    "fresh_shot Proswing (sha256 P) received s" "ball_speed_mps s \<in> {0..<224}" by blast
  have conv: "convertSpeed (m_value (ps_ball_speed (ps_shot p))) (m_unit (ps_ball_speed (ps_shot p)))
              = Inr (ball_speed_mps s)" and off: "captured_at_tz_offset_min s \<noteq> None"
    using s(1) by (auto simp: parseProswing_def Let_def split: sum.splits)
  have "m_unit (ps_ball_speed (ps_shot p)) = ''mps'' \<Longrightarrow> ball_speed_mps s \<le> 120"
    using ok conv
    by (auto simp: convertSpeed_def mpsToMps_def canonical_ok_def canonical_shot_ok_def ball_speed_ok_def)
  then show ?thesis using s off by (auto simp: fresh_shot_def)
qed

theorem proswing_parse_total_witness:
  "proswing_pipe sample_platform (proswing_json sample_proswing) = Inr sample_proswing
   \<and> (\<exists>s. parseProswing sample_platform (\<lambda>i. ''01J'') sample_proswing [] = Inr [s] \<and> ball_speed_mps s < 224)"
proof -
  have p: "proswing_pipe sample_platform (proswing_json sample_proswing) = Inr sample_proswing"
    using parse_raw_json [OF sample_proswing_ok] by (simp add: proswing_pipe_def)
  from proswing_parse_total [OF sample_platform_sound p, of "\<lambda>i. ''01J''" "[]"] p show ?thesis by auto
qed

text \<open>C26: a payload of the second format within the ranges of the first (club speed at most
  300 in its unit, deviation within -500 and 700) is stored as a body of the first format that reads
  back as the same canonical payload: the flat format adds no information of its own.\<close>

theorem proswing_v2_as_v1:
  assumes "ProswingPayloadV2Schema P v = Some p" and "v1_range (fromV2 p)"
  shows "parseProswingRaw P v = Some (fromV2 p)
         \<and> parseProswingRaw P (proswing_json (fromV2 p)) = Some (fromV2 p)
         \<and> detectVersion (proswing_json (fromV2 p)) = V1"
proof -
  have v: "parseProswingRaw P v = Some (fromV2 p)"
    using assms(1) v2_detected by (auto simp: parseProswingRaw_def)
  then have ok: "canonical_ok P (fromV2 p)" by (rule parse_raw_ok)
  show ?thesis
    using v parse_raw_json [OF ok assms(2)] v1_detected [OF v1_schema_json [OF ok assms(2)]] by simp
qed

definition sample_v2_body :: jsval where
  "sample_v2_body =
     JObj [(''type'', JStr ''shot.recorded''),
           (''data'', JObj [(''user_token'', JStr ''token-0001''),
              (''shot'', JObj [(''id'', JStr ''shot-1''), (''occurred_at'', JStr ''2024-03-15T20:30:00+10:00''),
                 (''club_code'', JStr ''PW''), (''ball_speed_mph'', JNum 100), (''launch_deg'', JNum 25),
                 (''carry_yd'', JNum 120), (''deviation_ft'', JNum (- 9))])])]"

definition sample_v2 :: PayloadV2 where
  "sample_v2 =
     \<lparr>v2_user_token = ''token-0001'',
      v2_shot = \<lparr>v2_id = ''shot-1'', v2_occurred_at = ''2024-03-15T20:30:00+10:00'', v2_club_code = ''PW'',
        v2_ball_speed_mph = Some 100, v2_ball_speed_kph = None, v2_ball_speed_mps = None,
        v2_club_speed_mph = None, v2_club_speed_kph = None, v2_club_speed_mps = None, v2_launch_deg = 25,
        v2_carry_yd = Some 120, v2_carry_m = None, v2_total_yd = None, v2_total_m = None,
        v2_deviation_yd = None, v2_deviation_m = None, v2_deviation_ft = Some (- 9)\<rparr>\<rparr>"

lemma sample_v2_accepted: "ProswingPayloadV2Schema sample_platform sample_v2_body = Some sample_v2"
  by (simp add: ProswingPayloadV2Schema_def sample_v2_body_def shot_recorded_def z_strict_def
      ProswingShotV2Schema_def ProswingShotV2Object_def z_refine_def z_optional_def sample_platform_def
      sample_proswing_time v2_complete_def sample_v2_def)

theorem proswing_v2_as_v1_witness:
  "parseProswingRaw sample_platform sample_v2_body = Some sample_proswing
   \<and> parseProswingRaw sample_platform (proswing_json sample_proswing) = Some sample_proswing"
proof -
  have f: "fromV2 sample_v2 = sample_proswing" by (simp add: fromV2_def sample_v2_def sample_proswing_def)
  from proswing_v2_as_v1 [OF sample_v2_accepted] sample_proswing_ok(2) show ?thesis by (simp add: f)
qed



end
