(* ===== verification/Webhooks.thy ===== *)
theory Webhooks
  imports Trackpro Swingmetric Proswing Queue Repository
begin

text \<open>
  The \<open>receive\<close> handlers of \<open>webhooks/trackpro/trackpro.controller.ts\<close>,
  \<open>webhooks/swingmetric/swingmetric.controller.ts\<close> and \<open>webhooks/proswing/proswing.controller.ts\<close>,
  composed from the validation pipe, the parser, the clock-skew check and the queue. A handler is a
  function of the request's body and correlation header, of the time of the request, and of the
  values \<open>randomUUID\<close> and \<open>ulid\<close> would return; it answers with the accepted response or an
  exception, and with the queue's new state.
\<close>

section \<open>Pieces the handlers share\<close>

definition clock_skew_excessive :: exn where
  "clock_skew_excessive = Http 422 (Some ''CLOCK_SKEW_EXCESSIVE'') None"

text \<open>\<open>correlationHeader ?? randomUUID()\<close>.\<close>

definition correlation_id :: "js_string option \<Rightarrow> js_string \<Rightarrow> js_string" where
  "correlation_id header uuid = (case header of Some c \<Rightarrow> c | None \<Rightarrow> uuid)"

record Request =
  rq_body :: jsval
  rq_correlation :: "js_string option"
  rq_uuid :: js_string
  rq_now :: int
  rq_ulid :: "nat \<Rightarrow> js_string"

text \<open>The common tail of the single-shot handlers: \<open>const [shot] = parse(...)\<close>, the check, and
  \<open>enqueue\<close>. An empty list would make \<open>shot!.captured_at_utc\<close> a \<open>TypeError\<close>.\<close>

definition receive_single ::
    "Platform \<Rightarrow> 's BullMQ \<Rightarrow> nat option \<Rightarrow> js_string \<Rightarrow> js_string \<Rightarrow> exn + NormalisedShot list \<Rightarrow> 's
       \<Rightarrow> (exn + js_string \<times> js_string) \<times> 's" where
  "receive_single P B configured correlationId receivedAtUtc parsed s =
     (case parsed of
        Inl e \<Rightarrow> (Inl e, s)
      | Inr [] \<Rightarrow> (Inl TypeError, s)
      | Inr (shot # _) \<Rightarrow>
          if hasExcessiveClockSkew P (captured_at_utc shot) receivedAtUtc
          then (Inl clock_skew_excessive, s)
          else
            (case enqueue B configured shot correlationId receivedAtUtc s of
               (Inl e, s') \<Rightarrow> (Inl e, s')
             | (Inr jobId, s') \<Rightarrow> (Inr (''accepted'', correlationId), s')))"

section \<open>The handlers\<close>

definition trackpro_receive ::
    "Platform \<Rightarrow> 's BullMQ \<Rightarrow> nat option \<Rightarrow> Request \<Rightarrow> 's \<Rightarrow> (exn + js_string \<times> js_string) \<times> 's" where
  "trackpro_receive P B configured rq s =
     (case ZodValidationPipe (TrackproPayloadSchema P) (rq_body rq) of
        Inl e \<Rightarrow> (Inl e, s)
      | Inr payload \<Rightarrow>
          let correlationId = correlation_id (rq_correlation rq) (rq_uuid rq);
              receivedAtUtc = iso_format (rq_now rq)
          in receive_single P B configured correlationId receivedAtUtc
               (parseTrackpro P (rq_ulid rq) payload receivedAtUtc) s)"

definition proswing_receive ::
    "Platform \<Rightarrow> 's BullMQ \<Rightarrow> nat option \<Rightarrow> Request \<Rightarrow> 's \<Rightarrow> (exn + js_string \<times> js_string) \<times> 's" where
  "proswing_receive P B configured rq s =
     (case proswing_pipe P (rq_body rq) of
        Inl e \<Rightarrow> (Inl e, s)
      | Inr payload \<Rightarrow>
          let correlationId = correlation_id (rq_correlation rq) (rq_uuid rq);
              receivedAtUtc = iso_format (rq_now rq)
          in receive_single P B configured correlationId receivedAtUtc
               (parseProswing P (rq_ulid rq) payload receivedAtUtc) s)"

definition swingmetric_receive ::
    "Platform \<Rightarrow> 's BullMQ \<Rightarrow> nat option \<Rightarrow> Request \<Rightarrow> 's \<Rightarrow> (exn + js_string \<times> js_string) \<times> 's" where
  "swingmetric_receive P B configured rq s =
     (case ZodValidationPipe (SwingmetricPayloadSchema P) (rq_body rq) of
        Inl e \<Rightarrow> (Inl e, s)
      | Inr payload \<Rightarrow>
          let correlationId = correlation_id (rq_correlation rq) (rq_uuid rq);
              receivedAtUtc = iso_format (rq_now rq)
          in case parseSwingmetric P (rq_ulid rq) payload receivedAtUtc of
               Inl e \<Rightarrow> (Inl e, s)
             | Inr xs \<Rightarrow>
                 if find (\<lambda>x. hasExcessiveClockSkew P (captured_at_utc x) receivedAtUtc) xs \<noteq> None
                 then (Inl clock_skew_excessive, s)
                 else
                   (case checkBatchCapacity B configured (length xs) s of
                      Inl e \<Rightarrow> (Inl e, s)
                    | Inr _ \<Rightarrow>
                        (case enqueue_all B configured xs correlationId receivedAtUtc s of
                           (Inl e, s') \<Rightarrow> (Inl e, s')
                         | (Inr _, s') \<Rightarrow> (Inr (''accepted'', correlationId), s'))))"

section \<open>Lemmas\<close>

text \<open>What a handler owes the client: a refused request leaves the queue as it was, and it is an
  unreadable date, a shot outside the clock window or a full queue; an accepted one
  has every parsed shot's job in the queue, none of them outside the clock window.\<close>

definition receive_ok ::
    "Platform \<Rightarrow> 's BullMQ \<Rightarrow> nat option \<Rightarrow> Request \<Rightarrow> (exn + NormalisedShot list) \<Rightarrow>
       (exn + js_string \<times> js_string) \<times> 's \<Rightarrow> 's \<Rightarrow> bool" where
  "receive_ok P B configured rq parsed result s \<longleftrightarrow>
     (case result of
        (Inl e, s') \<Rightarrow> s' = s \<and> e \<in> {RangeError, clock_skew_excessive, at_capacity}
      | (Inr answer, s') \<Rightarrow>
          answer = (''accepted'', correlation_id (rq_correlation rq) (rq_uuid rq))
          \<and> (\<exists>xs. parsed = Inr xs \<and> xs \<noteq> []
               \<and> list_all (\<lambda>x. isJobIdKnown B (idempotency_key x) s'
                     \<and> \<not> hasExcessiveClockSkew P (captured_at_utc x) (iso_format (rq_now rq))) xs)
          \<and> getWaitingCount B s' \<le> max_depth configured)"

lemma enqueue_cases:
  assumes "bullmq B"
  obtains "max_depth c \<le> getWaitingCount B s" "enqueue B c x corr r s = (Inl at_capacity, s)"
  | s' where "getWaitingCount B s < max_depth c" "enqueue B c x corr r s = (Inr (idempotency_key x), s')"
    "isJobIdKnown B (idempotency_key x) s'" "getWaitingCount B s' \<le> max_depth c"
proof (cases "max_depth c \<le> getWaitingCount B s")
  case True
  then show ?thesis using that(1) by (simp add: enqueue_def depth_check_def)
next
  case False
  let ?s = "fst (add_shot B x corr r s)"
  have "enqueue B c x corr r s = (Inr (idempotency_key x), ?s)"
    using False add_shot_spec(1) [OF assms, of x corr r s]
    by (cases "add_shot B x corr r s") (simp add: enqueue_def depth_check_def)
  then show ?thesis
    using False that(2) [of ?s] add_shot_spec(2) [OF assms, of x corr r s] add_shot_spec(4) [OF assms, of x corr r s]
    by (simp add: isJobIdKnown_def)
qed

lemma receive_single_ok:
  assumes "bullmq B" and "\<And>xs. parsed = Inr xs \<Longrightarrow> length xs = 1" and "\<And>e. parsed = Inl e \<Longrightarrow> e = RangeError"
  shows "receive_ok P B c rq parsed
           (receive_single P B c (correlation_id (rq_correlation rq) (rq_uuid rq)) (iso_format (rq_now rq)) parsed s) s"
proof (cases parsed)
  case (Inl e)
  then show ?thesis using assms(3) by (simp add: receive_single_def receive_ok_def)
next
  case (Inr xs)
  then obtain x where x: "xs = [x]" using assms(2) by (auto simp: length_Suc_conv)
  show ?thesis
    by (rule enqueue_cases [OF assms(1), of c s x "correlation_id (rq_correlation rq) (rq_uuid rq)" "iso_format (rq_now rq)"])
      (simp_all add: receive_single_def receive_ok_def Inr x at_capacity_def)
qed

lemma enqueue_all_ok:
  assumes "bullmq B" and "checkBatchCapacity B c (length xs) s = Inr ()" and "xs \<noteq> []"
  shows "enqueue_all B c xs corr r s = (Inr (), add_all B corr r xs s)"
    and "x \<in> set xs \<Longrightarrow> isJobIdKnown B (idempotency_key x) (add_all B corr r xs s)"
    and "getWaitingCount B (add_all B corr r xs s) \<le> max_depth c"
proof -
  have fits: "getWaitingCount B s + length xs \<le> max_depth c"
    using assms(2) by (auto simp: checkBatchCapacity_def split: if_splits)
  then have "depth_check B c s = None" using assms(3) by (cases xs) (auto simp: depth_check_None)
  then show "enqueue_all B c xs corr r s = (Inr (), add_all B corr r xs s)" by (simp add: enqueue_all_def)
  show "x \<in> set xs \<Longrightarrow> isJobIdKnown B (idempotency_key x) (add_all B corr r xs s)"
    using add_all_known(2) [OF assms(1)] by (simp add: isJobIdKnown_def)
  show "getWaitingCount B (add_all B corr r xs s) \<le> max_depth c"
    using add_all_known(3) [OF assms(1), of corr r xs s] fits by simp
qed

lemma map_shots_length: "map_shots f n xs = Inr ys \<Longrightarrow> length ys = length xs"
  by (induction xs arbitrary: n ys) (auto split: sum.splits)

lemma swingmetric_nonempty: "SwingmetricPayloadSchema P v = Some p \<Longrightarrow> sm_shots p \<noteq> []"
  by (auto simp: SwingmetricPayloadSchema_def bind_eq_Some_conv z_accepts)


lemma parse_single_length:
  "parseTrackpro P ids p r = Inr xs \<Longrightarrow> length xs = 1"
  "parseProswing P ids q r = Inr ys \<Longrightarrow> length ys = 1"
  by (auto simp: parseTrackpro_simps parseProswing_def split: option.splits sum.splits)

lemma swingmetric_receive_ok:
  assumes "bullmq B" and "SwingmetricPayloadSchema P (rq_body rq) = Some p"
  shows "receive_ok P B c rq (parseSwingmetric P (rq_ulid rq) p (iso_format (rq_now rq))) (swingmetric_receive P B c rq s) s"
proof (cases "parseSwingmetric P (rq_ulid rq) p (iso_format (rq_now rq))")
  case (Inl e)
  then show ?thesis using assms(2) parseSwingmetric_error [OF Inl]
    by (simp add: swingmetric_receive_def receive_ok_def ZodValidationPipe_def Let_def)
next
  case (Inr xs)
  let ?corr = "correlation_id (rq_correlation rq) (rq_uuid rq)" and ?r = "iso_format (rq_now rq)"
  have ne: "xs \<noteq> []"
    using Inr map_shots_length swingmetric_nonempty [OF assms(2)] by (fastforce simp: parseSwingmetric_def)
  show ?thesis
  proof (cases "find (\<lambda>x. hasExcessiveClockSkew P (captured_at_utc x) ?r) xs")
    case (Some x)
    then show ?thesis using assms(2) Inr
      by (simp add: swingmetric_receive_def receive_ok_def ZodValidationPipe_def Let_def)
  next
    case None
    then have skew: "list_all (\<lambda>x. \<not> hasExcessiveClockSkew P (captured_at_utc x) ?r) xs"
      by (auto simp: find_None_iff list_all_iff)
    show ?thesis
    proof (cases "checkBatchCapacity B c (length xs) s")
      case (Inl e)
      then have "e = at_capacity" by (auto simp: checkBatchCapacity_def split: if_splits)
      then show ?thesis using assms(2) Inr None Inl
        by (simp add: swingmetric_receive_def receive_ok_def ZodValidationPipe_def Let_def)
    next
      case cap: (Inr u)
      then have "checkBatchCapacity B c (length xs) s = Inr ()" by simp
      note all = enqueue_all_ok [OF assms(1) this ne, where corr = ?corr and r = ?r]
      have "swingmetric_receive P B c rq s = (Inr (''accepted'', ?corr), add_all B ?corr ?r xs s)"
        using assms(2) Inr None cap all(1)
        by (simp add: swingmetric_receive_def ZodValidationPipe_def Let_def)
      then show ?thesis using Inr ne all(2,3) skew
        by (simp add: receive_ok_def list_all_iff)
    qed
  qed
qed

lemma trackpro_receive_ok:
  assumes "bullmq B" and "TrackproPayloadSchema P (rq_body rq) = Some p"
  shows "receive_ok P B c rq (parseTrackpro P (rq_ulid rq) p (iso_format (rq_now rq))) (trackpro_receive P B c rq s) s"
proof -
  have "receive_ok P B c rq (parseTrackpro P (rq_ulid rq) p (iso_format (rq_now rq)))
          (receive_single P B c (correlation_id (rq_correlation rq) (rq_uuid rq)) (iso_format (rq_now rq))
             (parseTrackpro P (rq_ulid rq) p (iso_format (rq_now rq))) s) s"
    by (rule receive_single_ok [OF assms(1)]) (auto dest: parse_single_length simp: parseTrackpro_cases)
  then show ?thesis using assms(2) by (simp add: trackpro_receive_def ZodValidationPipe_def Let_def)
qed

lemma proswing_receive_ok:
  assumes "bullmq B" and "parseProswingRaw P (rq_body rq) = Some p"
  shows "receive_ok P B c rq (parseProswing P (rq_ulid rq) p (iso_format (rq_now rq))) (proswing_receive P B c rq s) s"
proof -
  have "receive_ok P B c rq (parseProswing P (rq_ulid rq) p (iso_format (rq_now rq)))
          (receive_single P B c (correlation_id (rq_correlation rq) (rq_uuid rq)) (iso_format (rq_now rq))
             (parseProswing P (rq_ulid rq) p (iso_format (rq_now rq))) s) s"
    by (rule receive_single_ok [OF assms(1)])
      (auto dest: parse_single_length parseProswing_error [OF parse_raw_ok [OF assms(2)]])
  then show ?thesis using assms(2) by (simp add: proswing_receive_def proswing_pipe_def Let_def)
qed

text \<open>A webhook that refuses leaves the queue as it was.\<close>

lemma receive_refused:
  assumes "bullmq B"
  shows "trackpro_receive P B c rq q = (Inl e, q') \<Longrightarrow> q' = q"
    and "swingmetric_receive P B c rq q = (Inl e, q') \<Longrightarrow> q' = q"
    and "proswing_receive P B c rq q = (Inl e, q') \<Longrightarrow> q' = q"
proof -
  show "q' = q" if r: "trackpro_receive P B c rq q = (Inl e, q')"
    using r trackpro_receive_ok [OF assms, of P rq _ c q]
    by (cases "TrackproPayloadSchema P (rq_body rq)") (auto simp: receive_ok_def trackpro_receive_def ZodValidationPipe_def)
  show "q' = q" if r: "swingmetric_receive P B c rq q = (Inl e, q')"
    using r swingmetric_receive_ok [OF assms, of P rq _ c q]
    by (cases "SwingmetricPayloadSchema P (rq_body rq)") (auto simp: receive_ok_def swingmetric_receive_def ZodValidationPipe_def)
  show "q' = q" if r: "proswing_receive P B c rq q = (Inl e, q')"
    using r proswing_receive_ok [OF assms, of P rq _ c q]
    by (cases "parseProswingRaw P (rq_body rq)") (auto simp: receive_ok_def proswing_receive_def proswing_pipe_def)
qed

section \<open>Properties\<close>



text \<open>C31: What the idempotency keys identify. Keys of different vendors differ. Two TrackPro shots
  share a key exactly when they share the shot uid. Two SwingMetric shots whose device ids have no
  bar share one exactly when player, device and the second of the time stamp agree, so of two shots
  within one second only the first is kept. Two ProSwing shots whose ids have no bar share one
  exactly when the user token and the shot id agree.\<close>

theorem idempotency_keys:
  assumes "parseTrackpro P ids1 p received1 = Inr [s1]" and "parseTrackpro P ids2 p' received2 = Inr [s2]"
    and "parseSingleShot P id3 x q received3 = Inr s3" and "parseSingleShot P id4 x' q' received4 = Inr s4"
    and "parseProswing P ids5 r received5 = Inr [s5]" and "parseProswing P ids6 r' received6 = Inr [s6]"
    and "0 \<le> sm_ts_ms x" and "0 \<le> sm_ts_ms x'"
    and "CHR ''|'' \<notin> set (sm_device q)" and "CHR ''|'' \<notin> set (sm_device q')"
    and "CHR ''|'' \<notin> set (ps_id (ps_shot r))" and "CHR ''|'' \<notin> set (ps_id (ps_shot r'))"
  shows "(idempotency_key s1 = idempotency_key s2 \<longleftrightarrow> tp_shot_uid p = tp_shot_uid p')
         \<and> (idempotency_key s3 = idempotency_key s4 \<longleftrightarrow>
              sm_id (sm_player q) = sm_id (sm_player q') \<and> sm_device q = sm_device q'
              \<and> sm_ts_ms x div 1000 = sm_ts_ms x' div 1000)
         \<and> (idempotency_key s5 = idempotency_key s6 \<longleftrightarrow>
              ps_user_token r = ps_user_token r' \<and> ps_id (ps_shot r) = ps_id (ps_shot r'))
         \<and> distinct [idempotency_key s1, idempotency_key s3, idempotency_key s5]"
proof -
  have tp: "idempotency_key s1 = ''tp|'' @ tp_shot_uid p" "idempotency_key s2 = ''tp|'' @ tp_shot_uid p'"
    using assms(1,2) by (auto simp: parseTrackpro_simps split: option.splits)
  have b: "\<bar>sm_ts_ms x\<bar> \<le> 8640000000000000" "\<bar>sm_ts_ms x'\<bar> \<le> 8640000000000000"
    using assms(3,4) by (auto simp: parseSingleShot_def toISOString_def TimeClip_def split: option.splits if_splits)
  have bucket: "time_bucket ts = ts div 1000" if "0 \<le> ts" "\<bar>ts\<bar> \<le> 8640000000000000" for ts
    using floor_fl_seconds [of ts] that by (simp add: time_bucket_def)
  have sm: "idempotency_key s3 = ''sm|'' @ join ''|'' [sm_id (sm_player q), sm_device q, show_int (sm_ts_ms x div 1000)]"
    "idempotency_key s4 = ''sm|'' @ join ''|'' [sm_id (sm_player q'), sm_device q', show_int (sm_ts_ms x' div 1000)]"
    using assms(3,4) bucket [OF assms(7) b(1)] bucket [OF assms(8) b(2)]
    by (auto simp: parseSingleShot_def Let_def split: option.splits)
  have ps: "idempotency_key s5 = ''ps|'' @ join ''|'' [ps_user_token r, ps_id (ps_shot r)]"
    "idempotency_key s6 = ''ps|'' @ join ''|'' [ps_user_token r', ps_id (ps_shot r')]"
    using assms(5,6) by (auto simp: parseProswing_def Let_def split: sum.splits)
  have num: "CHR ''|'' \<notin> set (show_int i)" for i
    using show_nat_digits [of "CHR ''|''" "nat \<bar>i\<bar>"]
    by (auto simp: show_int_def is_digit_def less_eq_char_nat)
  have "idempotency_key s3 = idempotency_key s4 \<longleftrightarrow>
      sm_id (sm_player q) = sm_id (sm_player q')
      \<and> [sm_device q, show_int (sm_ts_ms x div 1000)] = [sm_device q', show_int (sm_ts_ms x' div 1000)]"
    unfolding sm using assms(9,10) num
      join_inj_tail [of "[sm_device q, show_int (sm_ts_ms x div 1000)]" "[sm_device q', show_int (sm_ts_ms x' div 1000)]"
        "CHR ''|''" "sm_id (sm_player q)" "sm_id (sm_player q')"]
    by (auto simp del: join.simps)
  moreover have "idempotency_key s5 = idempotency_key s6 \<longleftrightarrow>
      ps_user_token r = ps_user_token r' \<and> [ps_id (ps_shot r)] = [ps_id (ps_shot r')]"
    unfolding ps using assms(11,12)
      join_inj_tail [of "[ps_id (ps_shot r)]" "[ps_id (ps_shot r')]" "CHR ''|''" "ps_user_token r" "ps_user_token r'"]
    by (auto simp del: join.simps)
  ultimately show ?thesis using tp sm(1) ps(1) by simp
qed


text \<open>Two ProSwing users, one of whose tokens holds a bar, share a key.\<close>

definition barred :: "js_string \<Rightarrow> js_string \<Rightarrow> ProswingCanonicalPayload" where
  "barred token i = \<lparr>ps_user_token = token, ps_shot = (ps_shot sample_proswing)\<lparr>ps_id := i\<rparr>\<rparr>"

lemma barred_parsed: "\<exists>s. parseProswing sample_platform ids (barred token i) r = Inr [s]
    \<and> idempotency_key s = ''ps|'' @ token @ ''|'' @ i"
proof -
  have "date_parse (legacy_date sample_platform) (ps_occurred_at (ps_shot sample_proswing)) = Some 1710498600000"
    by (simp add: sample_proswing_def sample_platform_def date_parse_def sample_proswing_time TimeClip_def)
  from parseProswing_total [OF sample_proswing_ok(1) this, of ids r]
  have "\<exists>s. parseProswing sample_platform ids sample_proswing r = Inr [s]" by blast
  then show ?thesis
    by (auto simp: parseProswing_def Let_def barred_def split: sum.splits)
qed

lemma proswing_key_collision:
  "\<exists>s t. parseProswing sample_platform ids (barred ''token|01'' ''7'') r = Inr [s]
     \<and> parseProswing sample_platform ids (barred ''token'' ''01|7'') r = Inr [t]
     \<and> idempotency_key s = idempotency_key t \<and> vendor_user_id s \<noteq> vendor_user_id t"
proof -
  obtain s t where "parseProswing sample_platform ids (barred ''token|01'' ''7'') r = Inr [s]"
    "idempotency_key s = ''ps|'' @ ''token|01'' @ ''|'' @ ''7''"
    "parseProswing sample_platform ids (barred ''token'' ''01|7'') r = Inr [t]"
    "idempotency_key t = ''ps|'' @ ''token'' @ ''|'' @ ''01|7''"
    using barred_parsed by metis
  moreover from this have "vendor_user_id s = ''token|01''" "vendor_user_id t = ''token''"
    by (auto simp: parseProswing_def Let_def barred_def split: sum.splits)
  ultimately show ?thesis by simp
qed

lemma sample_trackpro_parsed: "\<exists>s. parseTrackpro sample_platform ids sample_trackpro r = Inr [s]"
  by (simp add: parseTrackpro_simps sample_trackpro_def sample_platform_def date_parse_def
      sample_trackpro_time TimeClip_def)

theorem idempotency_keys_witness:
  "\<exists>s t. parseSingleShot sample_platform ''01J'' sample_shot sample_batch [] = Inr s
     \<and> parseSingleShot sample_platform ''01J'' (sample_shot\<lparr>sm_ts_ms := 1705307400999\<rparr>) sample_batch [] = Inr t
     \<and> idempotency_key s = idempotency_key t"
proof -
  let ?x' = "sample_shot\<lparr>sm_ts_ms := 1705307400999\<rparr>"
  obtain s1 where s1: "parseTrackpro sample_platform (\<lambda>i. []) sample_trackpro [] = Inr [s1]"
    using sample_trackpro_parsed by blast
  obtain s3 s4 where s3: "parseSingleShot sample_platform ''01J'' sample_shot sample_batch [] = Inr s3"
    "parseSingleShot sample_platform ''01J'' ?x' sample_batch [] = Inr s4"
    by (simp add: parseSingleShot_def sample_shot_def TimeClip_def toISOString_def Let_def)
  obtain s5 where s5: "parseProswing sample_platform (\<lambda>i. []) (barred ''a'' ''b'') [] = Inr [s5]"
    using barred_parsed by blast
  have "idempotency_key s3 = idempotency_key s4"
    using idempotency_keys [OF s1 s1 s3 s5 s5] by (simp add: sample_shot_def sample_batch_def barred_def)
  then show ?thesis using s3 by blast
qed

end
