(* ===== verification/Http_Edge.thy ===== *)
theory Http_Edge
  imports Guards Webhooks
begin

text \<open>
  The edge of the HTTP service: \<open>shared/global-exception.filter.ts\<close> (every exception becomes a
  problem document), \<open>shared/request-id.interceptor.ts\<close>, the hooks that \<open>main.api.ts\<close> installs
  (request ids, CORS, the raw body of signed webhooks), and the probes of
  \<open>health/health.controller.ts\<close>.
\<close>

section \<open>Correlation ids\<close>

text \<open>\<open>genReqId\<close>: the header (its first value when it is repeated) or a fresh UUID.\<close>

datatype header_value = One js_string | Many "js_string list"

definition genReqId :: "header_value option \<Rightarrow> js_string \<Rightarrow> js_string" where
  "genReqId h uuid =
     (case h of
        Some (One s) \<Rightarrow> s
      | Some (Many (s # ss)) \<Rightarrow> s
      | _ \<Rightarrow> uuid)"

record Exchange =
  x_headers :: headers
  x_id :: "js_string option"
  x_reply_headers :: "(js_string \<times> js_string) list"

text \<open>\<open>RequestIdInterceptor.intercept\<close>: the id goes on the request and on the reply.\<close>

definition RequestIdInterceptor :: "js_string \<Rightarrow> Exchange \<Rightarrow> Exchange" where
  "RequestIdInterceptor uuid x =
     (let correlationId =
            (case x_headers x ''x-correlation-id'' of
               Some c \<Rightarrow> c | None \<Rightarrow> (case x_id x of Some i \<Rightarrow> i | None \<Rightarrow> uuid))
      in x\<lparr>x_headers := (x_headers x)(''x-correlation-id'' \<mapsto> correlationId),
           x_reply_headers := x_reply_headers x @ [(''x-correlation-id'', correlationId)]\<rparr>)"

section \<open>Hooks\<close>

definition cors_headers :: "js_string \<Rightarrow> (js_string \<times> js_string) list" where
  "cors_headers corsOrigin =
     [(''Access-Control-Allow-Origin'', corsOrigin),
      (''Access-Control-Allow-Methods'', ''GET,POST,DELETE,OPTIONS''),
      (''Access-Control-Allow-Headers'',
       ''Content-Type,Authorization,X-Correlation-ID,X-Webhook-Auth,X-Webhook-Timestamp,X-Webhook-Signature,Idempotency-Key''),
      (''Access-Control-Allow-Credentials'', ''false'')]"

text \<open>\<open>preParsing\<close>: the chunks of the body, buffered, are kept on the request and passed on.\<close>

definition capture_raw_body :: "nat list list \<Rightarrow> nat list \<times> nat list list" where
  "capture_raw_body chunks = (let raw = concat chunks in (raw, [raw]))"

section \<open>The exception filter\<close>

text \<open>What is thrown: a domain error with its message, an HTTP exception with what
  \<open>getResponse()\<close> returns, anything else.\<close>

datatype thrown =
    ThrownDomain DomainError js_string
  | ThrownHttp nat jsval
  | ThrownOther

definition mapStatusToCode :: "nat \<Rightarrow> js_string" where
  "mapStatusToCode status =
     (if status = 400 then ''PAYLOAD_VALIDATION_FAILED''
      else if status = 401 then ''UNAUTHORIZED''
      else if status = 404 then ''NOT_FOUND''
      else if status = 409 then ''CONFLICT''
      else if status = 415 then ''UNSUPPORTED_MEDIA_TYPE''
      else if status = 422 then ''UNPROCESSABLE_ENTITY''
      else if status = 429 then ''TOO_MANY_REQUESTS''
      else if status = 503 then ''SERVICE_UNAVAILABLE''
      else ''INTERNAL_ERROR'')"

definition problem_type :: "js_string \<Rightarrow> js_string" where
  "problem_type errorCode =
     ''urn:problem:'' @ map (\<lambda>c. if c = CHR ''_'' then CHR ''-'' else c) (toLowerCase errorCode)"

text \<open>\<open>errorCode.toLowerCase()\<close> is a \<open>TypeError\<close> on anything but a string.\<close>

definition buildProblem :: "nat \<Rightarrow> jsval \<Rightarrow> jsval \<Rightarrow> js_string \<Rightarrow> jsval \<Rightarrow> exn + jsval" where
  "buildProblem status errorCode title correlationId issues =
     (case errorCode of
        JStr code \<Rightarrow>
          Inr (JObj ([(''type'', JStr (problem_type code)), (''error_code'', errorCode), (''title'', title),
                      (''status'', JNum (of_nat status)), (''correlation_id'', JStr correlationId)]
                     @ (if falsy issues then [] else [(''issues'', issues)])))
      | _ \<Rightarrow> Inl TypeError)"

record Reply =
  rp_status :: nat
  rp_headers :: "(js_string \<times> jsval) list"
  rp_body :: jsval

text \<open>\<open>resp[k]\<close> when the response is an object, undefined otherwise.\<close>

definition resp_field :: "jsval \<Rightarrow> js_string \<Rightarrow> jsval" where
  "resp_field resp k = (case resp of JObj kvs \<Rightarrow> get kvs k | _ \<Rightarrow> JUndefined)"

definition or_else :: "jsval \<Rightarrow> jsval \<Rightarrow> jsval" where
  "or_else v d = (if falsy v then d else v)"

text \<open>The value of the \<open>Retry-After\<close> header is what \<open>String\<close> is applied to.\<close>

definition catch_exception :: "headers \<Rightarrow> js_string option \<Rightarrow> thrown \<Rightarrow> exn + Reply" where
  "catch_exception hs request_id exception =
     (let correlationId =
            (case hs ''x-correlation-id'' of
               Some c \<Rightarrow> c | None \<Rightarrow> (case request_id of Some i \<Rightarrow> i | None \<Rightarrow> ''unknown''))
      in case exception of
           ThrownDomain e message \<Rightarrow>
             (let (status, errorCode) = domainErrorToHttp e in
              case buildProblem status (JStr errorCode) (JStr message) correlationId JUndefined of
                Inl x \<Rightarrow> Inl x
              | Inr body \<Rightarrow> Inr \<lparr>rp_status = status, rp_headers = [], rp_body = body\<rparr>)
         | ThrownHttp status resp \<Rightarrow>
             (let errorCode = or_else (resp_field resp ''error_code'') (JStr (mapStatusToCode status));
                  title = (case resp of JStr s \<Rightarrow> resp
                           | _ \<Rightarrow> or_else (resp_field resp ''message'') (JStr ''An error occurred.''));
                  retryAfter = resp_field resp ''retryAfter'' in
              case buildProblem status errorCode title correlationId (resp_field resp ''issues'') of
                Inl x \<Rightarrow> Inl x
              | Inr body \<Rightarrow>
                  Inr \<lparr>rp_status = status,
                       rp_headers = (if retryAfter = JUndefined then [] else [(''Retry-After'', retryAfter)]),
                       rp_body = body\<rparr>)
         | ThrownOther \<Rightarrow>
             (case buildProblem 500 (JStr ''INTERNAL_ERROR'') (JStr ''An unexpected error occurred.'') correlationId JUndefined of
                Inl x \<Rightarrow> Inl x
              | Inr body \<Rightarrow> Inr \<lparr>rp_status = 500, rp_headers = [], rp_body = body\<rparr>))"

text \<open>The exceptions of the model as the filter sees them. The library's exception classes turn a
  message into an object that carries it; \<open>DomainError\<close> messages are parameters.\<close>

definition thrown_of :: "js_string \<Rightarrow> exn \<Rightarrow> thrown" where
  "thrown_of message e =
     (case e of
        Domain d \<Rightarrow> ThrownDomain d message
      | Http status code retry \<Rightarrow>
          ThrownHttp status
            (JObj (opt_field ''error_code'' (map_option JStr code) @ [(''message'', JStr message)]
                   @ opt_field ''retryAfter'' (map_option (\<lambda>n. JNum (of_nat n)) retry)))
      | _ \<Rightarrow> ThrownOther)"

section \<open>Probes\<close>

definition liveness :: "int \<Rightarrow> jsval" where
  "liveness now = JObj [(''status'', JStr ''ok''), (''timestamp'', JStr (iso_format now))]"

text \<open>The indicators handed to the health check: up, or rejected with a fixed text. \<open>SELECT 1\<close> has no
  result to look at; \<open>PING\<close> must answer \<open>PONG\<close>.\<close>

definition db_indicator :: "bool \<Rightarrow> jsval + jsval" where
  "db_indicator query_ok =
     (if query_ok then Inr (JObj [(''db'', JObj [(''status'', JStr ''up'')])])
      else Inl (JObj [(''db'', JObj [(''status'', JStr ''down''), (''error'', JStr ''db_unavailable'')])]))"

definition redis_indicator :: "js_string option \<Rightarrow> jsval + jsval" where
  "redis_indicator pong =
     (if pong = Some ''PONG'' then Inr (JObj [(''redis'', JObj [(''status'', JStr ''up'')])])
      else Inl (JObj [(''redis'', JObj [(''status'', JStr ''down''), (''error'', JStr ''redis_unavailable'')])]))"

section \<open>Lemmas\<close>

lemma problem_simps:
  "buildProblem status (JStr code) title c issues =
     Inr (JObj ([(''type'', JStr (problem_type code)), (''error_code'', JStr code), (''title'', title),
                 (''status'', JNum (of_nat status)), (''correlation_id'', JStr c)]
                @ (if falsy issues then [] else [(''issues'', issues)])))"
  by (simp add: buildProblem_def)

text \<open>The documented codes and statuses of an exception.\<close>

definition http_status :: "exn \<Rightarrow> nat" where
  "http_status e = (case e of Domain d \<Rightarrow> fst (domainErrorToHttp d) | Http st c r \<Rightarrow> st | _ \<Rightarrow> 500)"

definition http_code :: "exn \<Rightarrow> js_string" where
  "http_code e =
     (case e of
        Domain d \<Rightarrow> snd (domainErrorToHttp d)
      | Http st c r \<Rightarrow> (case given c of Some code \<Rightarrow> code | None \<Rightarrow> mapStatusToCode st)
      | _ \<Rightarrow> ''INTERNAL_ERROR'')"

definition retry_after :: "exn \<Rightarrow> nat option" where
  "retry_after e = (case e of Http st c r \<Rightarrow> r | _ \<Rightarrow> None)"

text \<open>The correlation id the filter reports.\<close>

definition reported_id :: "headers \<Rightarrow> js_string option \<Rightarrow> js_string" where
  "reported_id hs request_id =
     (case hs ''x-correlation-id'' of
        Some c \<Rightarrow> c | None \<Rightarrow> (case request_id of Some i \<Rightarrow> i | None \<Rightarrow> ''unknown''))"

definition problem_body :: "nat \<Rightarrow> js_string \<Rightarrow> js_string \<Rightarrow> js_string \<Rightarrow> jsval" where
  "problem_body status code title c =
     JObj [(''type'', JStr (problem_type code)), (''error_code'', JStr code), (''title'', JStr title),
           (''status'', JNum (of_nat status)), (''correlation_id'', JStr c)]"

definition http_title :: "js_string \<Rightarrow> exn \<Rightarrow> js_string" where
  "http_title m e =
     (case e of
        Domain d \<Rightarrow> m
      | Http st c r \<Rightarrow> (if m = [] then ''An error occurred.'' else m)
      | _ \<Rightarrow> ''An unexpected error occurred.'')"

lemma falsy_simps [simp]: "falsy JUndefined" "falsy (JStr s) \<longleftrightarrow> s = []"
  by (simp_all add: falsy_def)

lemma catch_http:
  "catch_exception hs i (thrown_of m (Http st c r)) =
     Inr \<lparr>rp_status = st,
          rp_headers = (case r of None \<Rightarrow> [] | Some n \<Rightarrow> [(''Retry-After'', JNum (of_nat n))]),
          rp_body = problem_body st (case given c of Some code \<Rightarrow> code | None \<Rightarrow> mapStatusToCode st)
                      (if m = [] then ''An error occurred.'' else m) (reported_id hs i)\<rparr>"
  by (cases c; cases r)
    (simp_all add: catch_exception_def thrown_of_def resp_field_def or_else_def problem_simps
      problem_body_def reported_id_def get_append)

lemma catch_problem:
  "catch_exception hs i (thrown_of m e) =
     Inr \<lparr>rp_status = http_status e,
          rp_headers = (case retry_after e of None \<Rightarrow> [] | Some n \<Rightarrow> [(''Retry-After'', JNum (of_nat n))]),
          rp_body = problem_body (http_status e) (http_code e) (http_title m e) (reported_id hs i)\<rparr>"
proof (cases e)
  case (Http st c r)
  then show ?thesis
    by (simp add: catch_http http_status_def http_code_def http_title_def retry_after_def)
qed (simp_all add: catch_exception_def thrown_of_def problem_simps problem_body_def http_status_def http_code_def
    http_title_def retry_after_def reported_id_def split: prod.splits)

section \<open>Error responses\<close>



end
