(* ===== verification/Migrations.thy ===== *)
theory Migrations
  imports Shot
begin

text \<open>
  \<open>shared/kysely/migration-runner.ts\<close>: cutting a SQL file into statements, and running the
  statements of the three migration files in order. The loop over the file's index is a recursion
  on the rest of the file. The file system and the database are parameters.
\<close>

section \<open>The splitter\<close>

definition newline :: char where "newline = CHR 0x0A"

definition quote :: char where "quote = CHR 0x27"

definition peek :: "js_string \<Rightarrow> char option" where
  "peek s = (case s of [] \<Rightarrow> None | c # cs \<Rightarrow> Some c)"

text \<open>\<open>const stmt = current.trim(); if (stmt.length > 0) statements.push(stmt)\<close>.\<close>

definition push_stmt :: "js_string list \<Rightarrow> js_string \<Rightarrow> js_string list" where
  "push_stmt statements current = (if trim current = [] then statements else statements @ [trim current])"

text \<open>After a comment the loop's increment steps over the newline on which the inner loop stopped.\<close>

definition skip_comment :: "js_string \<Rightarrow> js_string" where
  "skip_comment s = drop 1 (dropWhile (\<lambda>c. c \<noteq> newline) s)"

lemma length_skip_comment: "length (skip_comment s) \<le> length s"
  using length_dropWhile_le [of "\<lambda>c. c \<noteq> newline" s] by (simp add: skip_comment_def)

function scan :: "bool \<Rightarrow> bool \<Rightarrow> js_string list \<Rightarrow> js_string \<Rightarrow> js_string \<Rightarrow> js_string list" where
  "scan inDollarQuote inStringLiteral statements current [] = push_stmt statements current"
| "scan inDollarQuote inStringLiteral statements current (ch # cs) =
     (if inDollarQuote then
        (if ch = CHR ''$'' \<and> peek cs = Some (CHR ''$'')
         then scan False inStringLiteral statements (current @ ''$$'') (drop 1 cs)
         else scan True inStringLiteral statements (current @ [ch]) cs)
      else if inStringLiteral then
        (if ch = quote
         then if peek cs = Some quote
              then scan False True statements (current @ [ch, quote]) (drop 1 cs)
              else scan False False statements (current @ [ch]) cs
         else scan False True statements (current @ [ch]) cs)
      else if ch = CHR ''$'' \<and> peek cs = Some (CHR ''$'')
      then scan True False statements (current @ ''$$'') (drop 1 cs)
      else if ch = quote then scan False True statements (current @ [ch]) cs
      else if ch = CHR ''-'' \<and> peek cs = Some (CHR ''-'')
      then scan False False statements current (skip_comment cs)
      else if ch = CHR '';'' then scan False False (push_stmt statements current) [] cs
      else scan False False statements (current @ [ch]) cs)"
  by pat_completeness auto

termination
  by (relation "measure (\<lambda>(d, l, st, cur, s). length s)")
     (auto simp: less_Suc_eq_le length_skip_comment le_diff_conv)

definition splitStatements :: "js_string \<Rightarrow> js_string list" where
  "splitStatements content = scan False False [] [] content"

section \<open>Running the migrations\<close>

fun run_statements :: "(js_string \<Rightarrow> 's \<Rightarrow> exn + 's) \<Rightarrow> js_string list \<Rightarrow> 's \<Rightarrow> (exn + unit) \<times> 's" where
  "run_statements run [] s = (Inr (), s)"
| "run_statements run (x # xs) s =
     (case run x s of Inl e \<Rightarrow> (Inl e, s) | Inr s' \<Rightarrow> run_statements run xs s')"

text \<open>\<open>readFileSync\<close> throws when there is no such file.\<close>

definition executeSqlFile ::
    "(js_string \<Rightarrow> js_string option) \<Rightarrow> (js_string \<Rightarrow> 's \<Rightarrow> exn + 's) \<Rightarrow> js_string \<Rightarrow> 's \<Rightarrow> (exn + unit) \<times> 's" where
  "executeSqlFile readFile run path s =
     (case readFile path of
        None \<Rightarrow> (Inl TypeError, s)
      | Some content \<Rightarrow> run_statements run (splitStatements content) s)"

definition runMigrations ::
    "(js_string \<Rightarrow> js_string option) \<Rightarrow> (js_string \<Rightarrow> 's \<Rightarrow> exn + 's) \<Rightarrow> js_string \<Rightarrow> 's \<Rightarrow> (exn + unit) \<times> 's" where
  "runMigrations readFile run dir s =
     (case executeSqlFile readFile run (dir @ ''/001_init.sql'') s of
        (Inl e, s1) \<Rightarrow> (Inl e, s1)
      | (Inr _, s1) \<Rightarrow>
          (case executeSqlFile readFile run (dir @ ''/002_club_data.sql'') s1 of
             (Inl e, s2) \<Rightarrow> (Inl e, s2)
           | (Inr _, s2) \<Rightarrow> executeSqlFile readFile run (dir @ ''/003_identity_perf.sql'') s2))"

section \<open>A reference grammar\<close>

text \<open>A statement is a sequence of pieces: ordinary characters, a lone minus or dollar sign with the
  character after it, a string literal, a dollar-quoted block, and a line comment.\<close>

datatype piece =
    Plain char
  | Lone char char
  | Literal js_string
  | Block js_string
  | Comment js_string

definition special :: "char set" where
  "special = {CHR ''$'', quote, CHR ''-'', CHR '';''}"

fun escape :: "js_string \<Rightarrow> js_string" where
  "escape [] = []"
| "escape (c # cs) = (if c = quote then [quote, quote] else [c]) @ escape cs"

fun no_double_dollar :: "js_string \<Rightarrow> bool" where
  "no_double_dollar [] \<longleftrightarrow> True"
| "no_double_dollar (c # cs) \<longleftrightarrow> \<not> (c = CHR ''$'' \<and> (cs = [] \<or> hd cs = CHR ''$'')) \<and> no_double_dollar cs"

fun piece_ok :: "piece \<Rightarrow> bool" where
  "piece_ok (Plain c) \<longleftrightarrow> c \<notin> special"
| "piece_ok (Lone c d) \<longleftrightarrow> c \<in> {CHR ''$'', CHR ''-''} \<and> d \<notin> special"
| "piece_ok (Literal s) \<longleftrightarrow> True"
| "piece_ok (Block s) \<longleftrightarrow> no_double_dollar s"
| "piece_ok (Comment s) \<longleftrightarrow> newline \<notin> set s"

fun render :: "piece \<Rightarrow> js_string" where
  "render (Plain c) = [c]"
| "render (Lone c d) = [c, d]"
| "render (Literal s) = [quote] @ escape s @ [quote]"
| "render (Block s) = ''$$'' @ s @ ''$$''"
| "render (Comment s) = ''--'' @ s @ [newline]"

text \<open>What the splitter keeps of a piece.\<close>

fun kept :: "piece \<Rightarrow> js_string" where
  "kept (Comment s) = []"
| "kept p = render p"

text \<open>No two literals are adjacent: SQL would read them as one.\<close>

fun is_literal :: "piece \<Rightarrow> bool" where
  "is_literal (Literal s) \<longleftrightarrow> True"
| "is_literal p \<longleftrightarrow> False"

fun statement_ok :: "piece list \<Rightarrow> bool" where
  "statement_ok [] \<longleftrightarrow> True"
| "statement_ok (p # ps) \<longleftrightarrow> piece_ok p \<and> \<not> (is_literal p \<and> ps \<noteq> [] \<and> is_literal (hd ps)) \<and> statement_ok ps"

definition render_all :: "piece list \<Rightarrow> js_string" where
  "render_all ps = concat (map render ps)"

definition kept_all :: "piece list \<Rightarrow> js_string" where
  "kept_all ps = concat (map kept ps)"

section \<open>Lemmas\<close>

lemma peek_simps [simp]: "peek [] = None" "peek (c # cs) = Some c"
  by (simp_all add: peek_def)

lemma specials [simp]:
  "quote \<noteq> CHR ''$''" "quote \<noteq> CHR ''-''" "quote \<noteq> CHR '';''"
  "CHR ''$'' \<noteq> quote" "CHR ''-'' \<noteq> quote" "CHR '';'' \<noteq> quote"
  by (simp_all add: quote_def)

declare scan.simps(2) [simp del]

lemma scan_literal:
  assumes "peek rest \<noteq> Some quote"
  shows "scan False True st cur (escape s @ quote # rest) = scan False False st (cur @ escape s @ [quote]) rest"
  using assms
  by (induction s arbitrary: cur) (auto simp: scan.simps(2) peek_def split: list.splits)

lemma scan_block:
  assumes "no_double_dollar s"
  shows "scan True False st cur (s @ ''$$'' @ rest) = scan False False st (cur @ s @ ''$$'') rest"
  using assms
proof (induction s arbitrary: cur)
  case Nil
  then show ?case by (simp add: scan.simps(2))
next
  case (Cons c cs)
  have "\<not> (c = CHR ''$'' \<and> peek (cs @ ''$$'' @ rest) = Some (CHR ''$''))"
    using Cons.prems by (cases cs) auto
  then have "scan True False st cur ((c # cs) @ ''$$'' @ rest) = scan True False st (cur @ [c]) (cs @ ''$$'' @ rest)"
    by (auto simp: scan.simps(2))
  with Cons.IH [of "cur @ [c]"] Cons.prems show ?case by simp
qed

lemma skip_comment_line: "newline \<notin> set s \<Longrightarrow> skip_comment (CHR ''-'' # s @ newline # rest) = rest"
proof -
  assume "newline \<notin> set s"
  then have "dropWhile (\<lambda>c. c \<noteq> newline) (s @ newline # rest) = newline # rest"
    by (subst dropWhile_append2) auto
  then show ?thesis by (simp add: skip_comment_def newline_def)
qed

lemma scan_piece:
  assumes "piece_ok p" and "is_literal p \<Longrightarrow> peek rest \<noteq> Some quote"
  shows "scan False False st cur (render p @ rest) = scan False False st (cur @ kept p) rest"
proof (cases p)
  case (Plain c)
  then show ?thesis using assms(1) by (auto simp: scan.simps(2) special_def)
next
  case (Lone c d)
  then show ?thesis using assms(1) by (auto simp: scan.simps(2) special_def)
next
  case (Literal s)
  then show ?thesis using assms(2) scan_literal [of rest st "cur @ [quote]" s] by (simp add: scan.simps(2) [of _ _ _ _ quote])
next
  case (Block s)
  then show ?thesis using assms(1) scan_block [of s st "cur @ ''$$''" rest] by (simp add: scan.simps(2) [of False])
next
  case (Comment s)
  then show ?thesis using assms(1) skip_comment_line [of s rest] by (simp add: scan.simps(2) [of False])
qed

lemma render_head: "piece_ok p \<Longrightarrow> peek (render p @ rest) = Some quote \<longleftrightarrow> is_literal p"
  by (cases p) (auto simp: special_def)

lemma scan_pieces:
  assumes "statement_ok ps" and "peek rest \<noteq> Some quote"
  shows "scan False False st cur (render_all ps @ rest) = scan False False st (cur @ kept_all ps) rest"
  using assms(1)
proof (induction ps arbitrary: cur)
  case Nil
  then show ?case by (simp add: render_all_def kept_all_def)
next
  case (Cons p ps)
  have "is_literal p \<Longrightarrow> peek (render_all ps @ rest) \<noteq> Some quote"
    using Cons.prems assms(2) render_head [of "hd ps"]
    by (cases ps) (auto simp: render_all_def)
  then have "scan False False st cur (render p @ render_all ps @ rest)
      = scan False False st (cur @ kept p) (render_all ps @ rest)"
    using Cons.prems by (intro scan_piece) auto
  with Cons.IH [of "cur @ kept p"] Cons.prems show ?case
    by (simp add: render_all_def kept_all_def)
qed

lemma push_stmts:
  assumes "\<forall>ps \<in> set sts. statement_ok ps" and "statement_ok fin"
  shows "scan False False st [] (concat (map (\<lambda>ps. render_all ps @ '';'') sts) @ render_all fin)
    = st @ filter (\<lambda>s. s \<noteq> []) (map (\<lambda>ps. trim (kept_all ps)) (sts @ [fin]))"
  using assms(1)
proof (induction sts arbitrary: st)
  case Nil
  then show ?case using scan_pieces [OF assms(2), of "[]" st "[]"] by (simp add: push_stmt_def)
next
  case (Cons ps sts)
  have "scan False False st [] (render_all ps @ CHR '';'' # R) = scan False False (push_stmt st (kept_all ps)) [] R" for R
    using Cons.prems scan_pieces [of ps "CHR '';'' # R" st "[]"] by (simp add: scan.simps(2) [of False _ _ _ "CHR '';''"])
  then show ?case using Cons.IH [of "push_stmt st (kept_all ps)"] Cons.prems by (simp add: push_stmt_def)
qed

section \<open>Splitting a well-formed file\<close>

text \<open>C35: On a file of well-formed statements, each closed by a semicolon, with an optional last one,
  the splitter returns exactly the statements' texts without their comments, trimmed, in order,
  leaving out empty ones: a semicolon, a quote or a comment marker inside a literal or a
  dollar-quoted block never cuts a statement. A comment is dropped together with the newline that
  ends it, so two tokens separated only by a comment are joined.\<close>

theorem split_statements:
  assumes "\<forall>ps \<in> set sts. statement_ok ps" and "statement_ok fin"
  shows "splitStatements (concat (map (\<lambda>ps. render_all ps @ '';'') sts) @ render_all fin)
           = filter (\<lambda>s. s \<noteq> []) (map (\<lambda>ps. trim (kept_all ps)) (sts @ [fin]))
       \<and> (\<forall>a b c. statement_ok (map Plain a) \<and> newline \<notin> set c \<and> statement_ok (map Plain b) \<longrightarrow>
            splitStatements (a @ ''--'' @ c @ [newline] @ b) = filter (\<lambda>s. s \<noteq> []) [trim (a @ b)])"
proof (intro conjI allI impI)
  show "splitStatements (concat (map (\<lambda>ps. render_all ps @ '';'') sts) @ render_all fin)
      = filter (\<lambda>s. s \<noteq> []) (map (\<lambda>ps. trim (kept_all ps)) (sts @ [fin]))"
    using push_stmts [OF assms, of "[]"] by (simp add: splitStatements_def)
next
  fix a b c
  assume ok: "statement_ok (map Plain a) \<and> newline \<notin> set c \<and> statement_ok (map Plain b)"
  have plain: "render_all (map Plain s) = s" "kept_all (map Plain s) = s" for s
    by (induction s) (simp_all add: render_all_def kept_all_def)
  have r: "render_all (map Plain a @ Comment c # map Plain b) = a @ ''--'' @ c @ [newline] @ b"
    "kept_all (map Plain a @ Comment c # map Plain b) = a @ b"
    using plain [of a] plain [of b] by (simp_all add: render_all_def kept_all_def)
  have "statement_ok (map Plain a @ Comment c # map Plain b)"
    using ok by (induction a) auto
  from push_stmts [of "[]" _ "[]", OF _ this] show
    "splitStatements (a @ ''--'' @ c @ [newline] @ b) = filter (\<lambda>s. s \<noteq> []) [trim (a @ b)]"
    by (simp only: splitStatements_def r list.map concat.simps append_Nil list.set ball_empty simp_thms)
qed

text \<open>A block with semicolons, a literal with a semicolon and an escaped quote, and a comment that
  joins two tokens.\<close>

definition sample_sql :: "piece list list" where
  "sample_sql =
     [[Plain (CHR ''D''), Plain (CHR ''O''), Plain (CHR '' ''), Block ''BEGIN; x; END''],
      [Plain (CHR ''S''), Literal [CHR ''a'', CHR '';'', quote, CHR ''b'']]]"

theorem split_statements_witness:
  "splitStatements (''DO $$BEGIN; x; END$$;S'' @ [quote, CHR ''a'', CHR '';'', quote, quote, CHR ''b'', quote] @ '';X'')
     = [''DO $$BEGIN; x; END$$'', ''S'' @ [quote, CHR ''a'', CHR '';'', quote, quote, CHR ''b'', quote], ''X'']
   \<and> splitStatements (''SELECT 1'' @ ''--'' @ ''one'' @ [newline] @ ''FROM t'') = [''SELECT 1FROM t'']"
proof -
  have "\<forall>ps \<in> set sample_sql. statement_ok ps" "statement_ok [Plain (CHR ''X'')]"
    by (simp_all add: sample_sql_def special_def quote_def)
  note t = split_statements [OF this]
  have "statement_ok (map Plain ''SELECT 1'')" "statement_ok (map Plain ''FROM t'')" "newline \<notin> set ''one''"
    by (simp_all add: special_def quote_def newline_def)
  then have "splitStatements (''SELECT 1'' @ ''--'' @ ''one'' @ [newline] @ ''FROM t'')
      = filter (\<lambda>s. s \<noteq> []) [trim (''SELECT 1'' @ ''FROM t'')]"
    using t by blast
  then have "splitStatements (''SELECT 1'' @ ''--'' @ ''one'' @ [newline] @ ''FROM t'') = [''SELECT 1FROM t'']"
    by (simp add: trim_def is_space_def)
  moreover have "splitStatements (concat (map (\<lambda>ps. render_all ps @ '';'') sample_sql) @ render_all [Plain (CHR ''X'')])
      = filter (\<lambda>s. s \<noteq> []) (map (\<lambda>ps. trim (kept_all ps)) (sample_sql @ [[Plain (CHR ''X'')]]))"
    using t by blast
  then have "splitStatements (''DO $$BEGIN; x; END$$;S'' @ [quote, CHR ''a'', CHR '';'', quote, quote, CHR ''b'', quote] @ '';X'')
     = [''DO $$BEGIN; x; END$$'', ''S'' @ [quote, CHR ''a'', CHR '';'', quote, quote, CHR ''b'', quote], ''X'']"
    by (simp add: sample_sql_def render_all_def kept_all_def trim_def is_space_def quote_def)
  ultimately show ?thesis by blast
qed

section \<open>Running a migration\<close>

text \<open>The statements run one by one, without a transaction: what ran before a failure stays.\<close>

lemma run_statements_append:
  "run_statements run (xs @ ys) s =
     (case run_statements run xs s of (Inl e, s1) \<Rightarrow> (Inl e, s1) | (Inr _, s1) \<Rightarrow> run_statements run ys s1)"
  by (induction xs arbitrary: s) (auto split: sum.splits)

lemma runMigrations_statements:
  assumes "readFile (dir @ ''/001_init.sql'') = Some a" and "readFile (dir @ ''/002_club_data.sql'') = Some b"
    and "readFile (dir @ ''/003_identity_perf.sql'') = Some c"
  shows "runMigrations readFile run dir s =
           run_statements run (splitStatements a @ splitStatements b @ splitStatements c) s"
  using assms unfolding runMigrations_def
  by (simp add: executeSqlFile_def run_statements_append split: prod.splits sum.splits)

end
