(* ===== verification/Startup.thy ===== *)
theory Startup
  imports Http_Edge Migrations
begin

text \<open>
  The start of the two processes, \<open>main.api.ts\<close> and \<open>main.worker.ts\<close>, with what they set up before
  the first request: the hooks of the server, the database pool and the parsing of its time stamps
  (\<open>shared/kysely/kysely.module.ts\<close>), the logger (\<open>shared/pino/logger.module.ts\<close>), and the readiness probe of
  \<open>health/health.controller.ts\<close>. NestJS and the plugins that are registered without options are
  outside the model; Terminus, which combines the readiness indicators, is a parameter.
\<close>

section \<open>The server\<close>

datatype hook = CorsHook js_string | OptionsHook | RawBodyHook

record Server =
  sv_body_limit :: nat
  sv_request_timeout :: nat
  sv_connection_timeout :: nat
  sv_keep_alive_timeout :: nat
  sv_hooks :: "hook list"
  sv_openapi :: bool
  sv_port :: int
  sv_host :: js_string

text \<open>The \<open>onRequest\<close> hooks, in the order of their registration: the headers of the reply, and the
  status when a hook has answered.\<close>

fun on_request :: "hook list \<Rightarrow> js_string \<Rightarrow> (js_string \<times> js_string) list \<Rightarrow> (js_string \<times> js_string) list \<times> nat option" where
  "on_request [] verb hs = (hs, None)"
| "on_request (CorsHook corsOrigin # hooks) verb hs = on_request hooks verb (hs @ cors_headers corsOrigin)"
| "on_request (OptionsHook # hooks) verb hs = (if verb = ''OPTIONS'' then (hs, Some 204) else on_request hooks verb hs)"
| "on_request (RawBodyHook # hooks) verb hs = on_request hooks verb hs"

text \<open>What \<open>bootstrap\<close> sets up; a validated environment has a port and an origin, so the defaults of
  the \<open>??\<close> operators are never used.\<close>

definition configure :: "Env \<Rightarrow> Server" where
  "configure e =
     \<lparr>sv_body_limit = 5 * 1024 * 1024, sv_request_timeout = 30000, sv_connection_timeout = 10000,
      sv_keep_alive_timeout = 65000, sv_hooks = [CorsHook (CORS_ORIGIN e), OptionsHook, RawBodyHook],
      sv_openapi = (NODE_ENV e \<noteq> Production), sv_port = PORT e, sv_host = ''0.0.0.0''\<rparr>"

section \<open>Bootstrap\<close>

text \<open>\<open>validate\<close> runs in \<open>ConfigModule.forRoot\<close>, when the application is created. A rejection of
  \<open>bootstrap\<close> ends the process before it listens.\<close>

datatype boot_failure = InvalidEnvironment env_error | MigrationFailed exn

definition bootstrap ::
    "(js_string \<Rightarrow> js_string option) \<Rightarrow> (js_string \<Rightarrow> 's \<Rightarrow> exn + 's) \<Rightarrow> js_string \<Rightarrow> environ \<Rightarrow> 's
       \<Rightarrow> (boot_failure + Server) \<times> 's" where
  "bootstrap readFile run dir cfg s =
     (case validate cfg of
        Inl x \<Rightarrow> (Inl (InvalidEnvironment x), s)
      | Inr e \<Rightarrow>
          (if RUN_MIGRATIONS e
           then case runMigrations readFile run dir s of
                  (Inl x, s') \<Rightarrow> (Inl (MigrationFailed x), s')
                | (Inr _, s') \<Rightarrow> (Inr (configure e), s')
           else (Inr (configure e), s)))"

definition bootstrapWorker :: "environ \<Rightarrow> boot_failure + Env" where
  "bootstrapWorker cfg = (case validate cfg of Inl x \<Rightarrow> Inl (InvalidEnvironment x) | Inr e \<Rightarrow> Inr e)"

section \<open>Database and logger\<close>

record PoolConfig =
  pl_connectionString :: js_string
  pl_max :: int
  pl_min :: int
  pl_idleTimeoutMillis :: nat
  pl_connectionTimeoutMillis :: nat
  pl_options :: js_string

definition pool_config :: "Env \<Rightarrow> PoolConfig" where
  "pool_config e =
     \<lparr>pl_connectionString = DATABASE_URL e, pl_max = DB_POOL_MAX e, pl_min = 5,
      pl_idleTimeoutMillis = 30000, pl_connectionTimeoutMillis = 5000,
      pl_options = ''--statement_timeout=30000 --idle_in_transaction_session_timeout=10000''\<rparr>"

text \<open>The parser registered for both time stamp types: ISO 8601, null for the empty text, and a
  \<open>RangeError\<close> for an unreadable date.\<close>

definition timestamp_parser :: "(js_string \<Rightarrow> int option) \<Rightarrow> js_string \<Rightarrow> exn + js_string option" where
  "timestamp_parser legacy val =
     (if val = [] then Inr None
      else case toISOString (date_parse legacy val) of None \<Rightarrow> Inl RangeError | Some s \<Rightarrow> Inr (Some s))"

definition log_level :: "Env \<Rightarrow> js_string" where
  "log_level e = (if NODE_ENV e = Production then ''info'' else ''debug'')"

definition pretty_log :: "Env \<Rightarrow> bool" where
  "pretty_log e \<longleftrightarrow> NODE_ENV e = Development"

definition log_redact :: "js_string list" where
  "log_redact =
     [''req.headers.authorization'', ''req.headers.cookie'', ''req.headers[\"x-webhook-auth\"]'',
      ''req.headers[\"x-webhook-signature\"]'', ''*.password'', ''*.secret'', ''*.token'']"

text \<open>The serializers keep three fields of a request and one of a response.\<close>

definition log_request :: "(js_string \<times> jsval) list \<Rightarrow> jsval" where
  "log_request rq =
     JObj [(''method'', get rq ''method''), (''url'', get rq ''url''), (''remoteAddress'', get rq ''remoteAddress'')]"

definition log_response :: "(js_string \<times> jsval) list \<Rightarrow> jsval" where
  "log_response rs = JObj [(''statusCode'', get rs ''statusCode'')]"

text \<open>The active span's ids, nothing when there is no span or the library cannot be loaded.\<close>

definition custom_props :: "(exn + (js_string \<times> js_string) option) \<Rightarrow> jsval" where
  "custom_props active_span =
     (case active_span of
        Inr (Some (traceId, spanId)) \<Rightarrow> JObj [(''traceId'', JStr traceId), (''spanId'', JStr spanId)]
      | _ \<Rightarrow> JObj [])"

section \<open>Readiness\<close>

text \<open>Terminus runs the indicators and combines what they return or reject with: the report of a 200, or
  what it throws.\<close>

type_synonym terminus = "(jsval + jsval) list \<Rightarrow> thrown + jsval"

definition readiness :: "terminus \<Rightarrow> bool \<Rightarrow> js_string option \<Rightarrow> thrown + jsval" where
  "readiness health_check query_ok pong = health_check [db_indicator query_ok, redis_indicator pong]"

text \<open>Documented: the check succeeds exactly when every indicator returns and reports \<open>up\<close>.\<close>

definition indicator_up :: "jsval + jsval \<Rightarrow> bool" where
  "indicator_up i =
     (case i of
        Inr (JObj kvs) \<Rightarrow> list_all (\<lambda>(k, v). case v of JObj s \<Rightarrow> get s ''status'' = JStr ''up'' | _ \<Rightarrow> False) kvs
      | _ \<Rightarrow> False)"

definition terminus_doc :: "terminus \<Rightarrow> bool" where
  "terminus_doc check \<longleftrightarrow> (\<forall>is. isl (check is) \<longleftrightarrow> \<not> list_all indicator_up is)"

text \<open>What the check throws when an indicator rejects: its own 503, which it documents for a
  \<open>HealthCheckError\<close>, or the reason itself, which it documents for anything else. The indicators reject
  with plain objects.\<close>

definition wraps_rejections :: "terminus \<Rightarrow> bool" where
  "wraps_rejections check \<longleftrightarrow>
     (\<forall>is. list_ex isl is \<longrightarrow> (\<exists>report. check is = Inl (ThrownHttp 503 (JObj report))
        \<and> get report ''error_code'' = JUndefined \<and> get report ''message'' = JUndefined \<and> get report ''issues'' = JUndefined
        \<and> get report ''retryAfter'' = JUndefined))"

definition rethrows_objects :: "terminus \<Rightarrow> bool" where
  "rethrows_objects check \<longleftrightarrow> (\<forall>is. list_ex isl is \<longrightarrow> check is = Inl ThrownOther)"

lemma indicators_up:
  "indicator_up (db_indicator q) \<longleftrightarrow> q" "indicator_up (redis_indicator p) \<longleftrightarrow> p = Some ''PONG''"
  "isl (db_indicator q) \<longleftrightarrow> \<not> q" "isl (redis_indicator p) \<longleftrightarrow> p \<noteq> Some ''PONG''"
  by (simp_all add: indicator_up_def db_indicator_def redis_indicator_def)

lemma readiness_ready:
  "terminus_doc check \<Longrightarrow> isl (readiness check query_ok pong) \<longleftrightarrow> \<not> (query_ok \<and> pong = Some ''PONG'')"
  by (simp add: readiness_def terminus_doc_def indicators_up)

text \<open>The status of an unready service depends on how Terminus takes a rejection with a plain object:
  503 when it wraps it, 500 when it throws it on.\<close>

lemma readiness_unready:
  assumes "\<not> (query_ok \<and> pong = Some ''PONG'')" and "readiness check query_ok pong = Inl t"
    and "catch_exception hs i t = Inr reply"
  shows "wraps_rejections check \<Longrightarrow>
           rp_status reply = 503 \<and> rp_body reply = problem_body 503 ''SERVICE_UNAVAILABLE'' ''An error occurred.'' (reported_id hs i)"
    and "rethrows_objects check \<Longrightarrow>
           rp_status reply = 500 \<and> rp_body reply = problem_body 500 ''INTERNAL_ERROR'' ''An unexpected error occurred.'' (reported_id hs i)"
proof -
  have ex: "list_ex isl [db_indicator query_ok, redis_indicator pong]"
    using assms(1) by (simp add: indicators_up)
  show "rp_status reply = 503 \<and> rp_body reply = problem_body 503 ''SERVICE_UNAVAILABLE'' ''An error occurred.'' (reported_id hs i)"
    if w: "wraps_rejections check"
  proof -
    obtain report where r: "check [db_indicator query_ok, redis_indicator pong] = Inl (ThrownHttp 503 (JObj report))"
      "get report ''error_code'' = JUndefined" "get report ''message'' = JUndefined" "get report ''issues'' = JUndefined"
      "get report ''retryAfter'' = JUndefined"
      using w ex unfolding wraps_rejections_def by blast
    then have "t = ThrownHttp 503 (JObj report)" using assms(2) by (simp add: readiness_def)
    then show ?thesis
      using assms(3) r by (auto simp: catch_exception_def resp_field_def or_else_def problem_simps problem_body_def
          reported_id_def mapStatusToCode_def)
  qed
  show "rp_status reply = 500 \<and> rp_body reply = problem_body 500 ''INTERNAL_ERROR'' ''An unexpected error occurred.'' (reported_id hs i)"
    if w: "rethrows_objects check"
  proof -
    have "t = ThrownOther" using w ex assms(2) by (simp add: rethrows_objects_def readiness_def)
    then show ?thesis
      using assms(3) by (auto simp: catch_exception_def problem_simps problem_body_def reported_id_def)
  qed
qed

section \<open>Lemmas\<close>

lemma get_filter: "k \<in> S \<Longrightarrow> get (filter (\<lambda>(k, v). k \<in> S) kvs) k = get kvs k"
  by (induction kvs) auto

text \<open>No other field of a request, its headers among them, reaches the log.\<close>

lemma log_request_fields:
  "log_request rq = log_request (filter (\<lambda>(k, v). k \<in> {''method'', ''url'', ''remoteAddress''}) rq)"
  using get_filter [where S = "{''method'', ''url'', ''remoteAddress''}" and kvs = rq]
  by (simp add: log_request_def)

lemma timestamp_parser_iso:
  assumes "\<bar>t\<bar> \<le> 8640000000000000"
  shows "timestamp_parser legacy (iso_format t) = Inr (Some (iso_format t))"
proof -
  have "iso_format t \<noteq> []" by (auto simp: iso_format_def iso_seconds_def Let_def)
  then show ?thesis using assms by (simp add: timestamp_parser_def toISOString_def)
qed

text \<open>A failing run stops at a statement or a file: what ran before it stays, since there is no
  transaction around the statements.\<close>

definition migration_files :: "js_string \<Rightarrow> js_string list" where
  "migration_files dir = [dir @ ''/001_init.sql'', dir @ ''/002_club_data.sql'', dir @ ''/003_identity_perf.sql'']"

definition migration_statements :: "(js_string \<Rightarrow> js_string option) \<Rightarrow> js_string list \<Rightarrow> js_string list" where
  "migration_statements readFile paths =
     concat (map (\<lambda>p. splitStatements (the (readFile p))) (takeWhile (\<lambda>p. readFile p \<noteq> None) paths))"

fun run_files ::
    "(js_string \<Rightarrow> js_string option) \<Rightarrow> (js_string \<Rightarrow> 's \<Rightarrow> exn + 's) \<Rightarrow> js_string list \<Rightarrow> 's \<Rightarrow> (exn + unit) \<times> 's" where
  "run_files readFile run [] s = (Inr (), s)"
| "run_files readFile run (p # ps) s =
     (case executeSqlFile readFile run p s of
        (Inl e, s') \<Rightarrow> (Inl e, s') | (Inr _, s') \<Rightarrow> run_files readFile run ps s')"

lemma runMigrations_files: "runMigrations readFile run dir s = run_files readFile run (migration_files dir) s"
  by (simp add: runMigrations_def migration_files_def split: prod.splits sum.splits)

lemma run_statements_prefix:
  assumes "run_statements run xs s = (res, s')"
  obtains ran rest where "xs = ran @ rest" and "run_statements run ran s = (Inr (), s')" and "isl res \<longleftrightarrow> rest \<noteq> []"
proof -
  have "\<exists>ran rest. xs = ran @ rest \<and> run_statements run ran s = (Inr (), s') \<and> (isl res \<longleftrightarrow> rest \<noteq> [])"
    using assms
  proof (induction xs arbitrary: s)
    case (Cons x xs)
    show ?case
    proof (cases "run x s")
      case (Inl e)
      with Cons.prems show ?thesis by (intro exI [of _ "[]"] exI [of _ "x # xs"]) auto
    next
      case (Inr t)
      then obtain ran rest where "xs = ran @ rest \<and> run_statements run ran t = (Inr (), s') \<and> (isl res \<longleftrightarrow> rest \<noteq> [])"
        using Cons.IH [of t] Cons.prems by auto
      with Inr show ?thesis by (intro exI [of _ "x # ran"] exI [of _ rest]) simp
    qed
  qed auto
  with that show thesis by blast
qed

lemma run_files_prefix:
  assumes "run_files readFile run ps s = (res, s')"
  shows "\<exists>ran rest. migration_statements readFile ps = ran @ rest \<and> run_statements run ran s = (Inr (), s')
           \<and> (isl res \<longleftrightarrow> rest \<noteq> [] \<or> (\<exists>p \<in> set ps. readFile p = None))"
  using assms
proof (induction ps arbitrary: s)
  case Nil
  then show ?case by (auto simp: migration_statements_def)
next
  case (Cons p ps)
  show ?case
  proof (cases "readFile p")
    case None
    with Cons.prems show ?thesis by (auto simp: executeSqlFile_def migration_statements_def)
  next
    case (Some sql)
    note readable = Some
    obtain r t where run: "run_statements run (splitStatements sql) s = (r, t)" by fastforce
    obtain ran rest where pre: "splitStatements sql = ran @ rest" "run_statements run ran s = (Inr (), t)" "isl r \<longleftrightarrow> rest \<noteq> []"
      using run_statements_prefix [OF run] by blast
    have ms: "migration_statements readFile (p # ps) = splitStatements sql @ migration_statements readFile ps"
      by (simp add: migration_statements_def Some)
    show ?thesis
    proof (cases r)
      case (Inl e)
      then have "res = Inl e" "s' = t" using Cons.prems run Some by (simp_all add: executeSqlFile_def)
      with pre Inl ms show ?thesis by (intro exI [of _ ran] exI [of _ "rest @ migration_statements readFile ps"]) simp
    next
      case (Inr u)
      then have "run_files readFile run ps t = (res, s')" using Cons.prems run Some by (simp add: executeSqlFile_def)
      from Cons.IH [OF this] obtain ran' rest' where "migration_statements readFile ps = ran' @ rest'"
        "run_statements run ran' t = (Inr (), s')" "isl res \<longleftrightarrow> rest' \<noteq> [] \<or> (\<exists>p \<in> set ps. readFile p = None)"
        by blast
      with pre Inr ms show ?thesis
        by (intro exI [of _ "ran @ ran'"] exI [of _ rest']) (simp add: run_statements_append readable)
    qed
  qed
qed

section \<open>The order of the start\<close>



end
