(* ===== verification/Idempotency.thy ===== *)
theory Idempotency
  imports Identity Guards "HOL-Library.Countable"
begin

text \<open>
  \<open>shared/idempotency/idempotency.interceptor.ts\<close> and the route it wraps,
  \<open>IdentityController.linkIdentity\<close>. The lookup in Redis and the execution of the handler are
  separate awaits, so they are separate definitions. Whether a call to Redis succeeds is an
  argument. \<open>JSON.stringify\<close> and \<open>JSON.parse\<close> of a cached response are a parameter, with their
  round trip as hypothesis. NestJS runs the interceptor before the validation pipe: a replay
  never looks at the body.
\<close>

section \<open>The interceptor\<close>

definition IDEMPOTENCY_CACHE_TTL_S :: nat where
  "IDEMPOTENCY_CACHE_TTL_S = 86400"

definition MAX_IDEMPOTENCY_KEY_LENGTH :: nat where
  "MAX_IDEMPOTENCY_KEY_LENGTH = 128"

definition buildCacheKey :: "js_string \<Rightarrow> js_string \<Rightarrow> js_string" where
  "buildCacheKey key path = ''idempotency:'' @ path @ '':'' @ key"

record 'b Json =
  stringify :: "nat \<times> 'b \<Rightarrow> js_string"
  parse_entry :: "js_string \<Rightarrow> (nat \<times> 'b) option"

definition json_ok :: "'b Json \<Rightarrow> bool" where
  "json_ok J \<longleftrightarrow> (\<forall>x. parse_entry J (stringify J x) = Some x)"

text \<open>The entry served for a key, when Redis has one that can be read. Only the interceptor writes
  under its prefix, so an entry is a text.\<close>

definition cached_response :: "'r Redis \<Rightarrow> 'b Json \<Rightarrow> int \<Rightarrow> js_string \<Rightarrow> 'r \<Rightarrow> (nat \<times> 'b) option" where
  "cached_response R J now cacheKey r =
     (case r_get R now cacheKey r of Some (Text t) \<Rightarrow> parse_entry J t | _ \<Rightarrow> None)"

type_synonym ('b, 'd, 'r) endpoint = "'d \<times> 'r \<Rightarrow> (exn + nat \<times> 'b) \<times> ('d \<times> 'r)"

text \<open>\<open>tap\<close> on the handler's answer: a 2xx answer is cached, a failed write is only logged.\<close>

definition executeAndCache ::
    "'r Redis \<Rightarrow> 'b Json \<Rightarrow> int \<Rightarrow> bool \<Rightarrow> js_string \<Rightarrow> ('b, 'd, 'r) endpoint \<Rightarrow> ('b, 'd, 'r) endpoint" where
  "executeAndCache R J now set_ok cacheKey handler s =
     (case handler s of
        (Inl e, s') \<Rightarrow> (Inl e, s')
      | (Inr (status, body), (d, r)) \<Rightarrow>
          (Inr (status, body),
           (d, if 200 \<le> status \<and> status < 300 \<and> set_ok
               then r_set R now cacheKey (Text (stringify J (status, body))) IDEMPOTENCY_CACHE_TTL_S r
               else r)))"

text \<open>The header's verdict: no enforcement, a refused key, or the cache key.\<close>

definition header_key :: "js_string option \<Rightarrow> js_string \<Rightarrow> exn + js_string option" where
  "header_key rawKey pathname =
     (case given rawKey of
        None \<Rightarrow> Inr None
      | Some key \<Rightarrow>
          if MAX_IDEMPOTENCY_KEY_LENGTH < length key then Inl (Http 400 None None)
          else Inr (Some (buildCacheKey key pathname)))"

definition intercept ::
    "'r Redis \<Rightarrow> 'b Json \<Rightarrow> int \<Rightarrow> int \<Rightarrow> bool \<Rightarrow> bool \<Rightarrow> js_string option \<Rightarrow> js_string
       \<Rightarrow> ('b, 'd, 'r) endpoint \<Rightarrow> ('b, 'd, 'r) endpoint" where
  "intercept R J now later get_ok set_ok rawKey pathname handler s =
     (case header_key rawKey pathname of
        Inl e \<Rightarrow> (Inl e, s)
      | Inr None \<Rightarrow> handler s
      | Inr (Some cacheKey) \<Rightarrow>
          if \<not> get_ok then handler s
          else (case cached_response R J now cacheKey (snd s) of
                  Some answer \<Rightarrow> (Inr answer, s)
                | None \<Rightarrow> executeAndCache R J later set_ok cacheKey handler s))"

section \<open>The link route\<close>

definition link_path :: "js_string \<Rightarrow> js_string" where
  "link_path canonicalUserId = ''/v1/users/'' @ canonicalUserId @ ''/identities''"

definition link_handler ::
    "'r Redis \<Rightarrow> int \<Rightarrow> js_string \<Rightarrow> jsval \<Rightarrow> (UserIdentity, Db, 'r) endpoint" where
  "link_handler R now canonicalUserId body s =
     (case link_endpoint R now canonicalUserId body s of
        Inl e \<Rightarrow> (Inl e, s)
      | Inr (row, s') \<Rightarrow> (Inr (201, row), s'))"

definition link_route ::
    "'r Redis \<Rightarrow> UserIdentity Json \<Rightarrow> int \<Rightarrow> js_string option \<Rightarrow> js_string \<Rightarrow> jsval \<Rightarrow> (UserIdentity, Db, 'r) endpoint" where
  "link_route R J now rawKey canonicalUserId body =
     intercept R J now now True True rawKey (link_path canonicalUserId) (link_handler R now canonicalUserId body)"

section \<open>Lemmas\<close>

lemma header_key_simps:
  "header_key None path = Inr None" "header_key (Some []) path = Inr None"
  "key \<noteq> [] \<Longrightarrow> length key \<le> 128 \<Longrightarrow> header_key (Some key) path = Inr (Some (buildCacheKey key path))"
  by (simp_all add: header_key_def MAX_IDEMPOTENCY_KEY_LENGTH_def)

text \<open>Two users never share an entry: an id in a route holds no slash.\<close>

lemma link_key_inj:
  assumes "CHR ''/'' \<notin> set a" and "CHR ''/'' \<notin> set b"
  shows "buildCacheKey k (link_path a) = buildCacheKey l (link_path b) \<longleftrightarrow> k = l \<and> a = b"
proof -
  have "a @ CHR ''/'' # xs = b @ CHR ''/'' # ys \<longleftrightarrow> a = b \<and> xs = ys" for xs ys
    using assms
  proof (induction a arbitrary: b)
    case Nil
    then show ?case by (cases b) auto
  next
    case (Cons c cs)
    then show ?case by (cases b) auto
  qed
  then show ?thesis by (auto simp: buildCacheKey_def link_path_def)
qed

lemma cached_after_set:
  assumes "redis_ok R" and "json_ok J" and "now \<le> t" and "t < now + 86400000"
  shows "cached_response R J t k (r_set R now k (Text (stringify J x)) IDEMPOTENCY_CACHE_TTL_S r) = Some x"
proof -
  have "r_get R t k (r_set R now k (Text (stringify J x)) IDEMPOTENCY_CACHE_TTL_S r) = Some (Text (stringify J x))"
    using redis_set_live [OF assms(1,3), of IDEMPOTENCY_CACHE_TTL_S] assms(4)
    by (simp add: IDEMPOTENCY_CACHE_TTL_S_def)
  then show ?thesis using assms(2) by (cases x) (simp add: cached_response_def json_ok_def)
qed

lemma execute_caches:
  assumes "redis_ok R" and "json_ok J" and "executeAndCache R J now True k handler s = (Inr (status, body), s')"
    and "200 \<le> status" "status < 300" and "now \<le> t" "t < now + 86400000"
  shows "cached_response R J t k (snd s') = Some (status, body)"
  using assms cached_after_set [OF assms(1,2,6,7)]
  by (auto simp: executeAndCache_def split: sum.splits prod.splits)

text \<open>The handler: one audit entry and the mapping, no cache entry but the resolver's.\<close>

lemma link_handler_Inr:
  assumes "link_handler R now cid body (d, r) = (Inr (status, row), (d', r'))"
  shows "status = 201" and "length (audit_log d') = Suc (length (audit_log d))"
    and "redis_ok R \<Longrightarrow> r_get R t (buildCacheKey k path) r' = r_get R t (buildCacheKey k path) r"
    and "\<exists>v u. LinkBodySchema body = Some (v, u) \<and> lookup_identity v u d' = Some cid"
proof -
  obtain v u where b: "LinkBodySchema body = Some (v, u)"
    and l: "linkIdentity R now v u cid ''internal-api'' (d, r) = Inr (row, (d', r'))" and st: "status = 201"
    using assms by (auto simp: link_handler_def link_endpoint_def split: sum.splits)
  show "status = 201" by (rule st)
  show "length (audit_log d') = Suc (length (audit_log d))" using link_Inr(2) [OF l] by simp
  show "r_get R t (buildCacheKey k path) r' = r_get R t (buildCacheKey k path) r" if "redis_ok R"
    using link_Inr(4) [OF l] redis_del [OF that]
    by (simp add: buildCacheKey_def identityCacheKey_def identityListCacheKey_def)
  show "\<exists>v u. LinkBodySchema body = Some (v, u) \<and> lookup_identity v u d' = Some cid"
    using b link_Inr(1) [OF l, of v u] by auto
qed

lemma link_route_miss:
  assumes "key \<noteq> []" "length key \<le> 128" and "cached_response R J now (buildCacheKey key (link_path cid)) (snd s) = None"
  shows "link_route R J now (Some key) cid body s =
     executeAndCache R J now True (buildCacheKey key (link_path cid)) (link_handler R now cid body) s"
  using assms by (simp add: link_route_def intercept_def header_key_simps)

section \<open>What a key guarantees\<close>

text \<open>C33: A link request with an idempotency key that has succeeded is replayed for 24 hours: any later
  request with that key to the same user, whatever its body, gets the same answer and changes
  nothing, not the mapping, not the audit log, as long as the entry is in Redis. Requests to
  another user are not served from it. The key does not protect overlapping retries: when both
  have looked up the key before either has answered, both run the handler and the audit log
  grows twice.\<close>

theorem link_idempotency:
  assumes "redis_ok R" and "json_ok J" and "key \<noteq> []" and "length key \<le> 128" and "CHR ''/'' \<notin> set cid"
    and miss: "cached_response R J now (buildCacheKey key (link_path cid)) r = None"
    and first: "link_route R J now (Some key) cid body (d, r) = (Inr ans, (d1, r1))"
  shows "(\<forall>t body2 d2 r2. now \<le> t \<and> t < now + 86400000 \<and>
             r_get R t (buildCacheKey key (link_path cid)) r2 = r_get R t (buildCacheKey key (link_path cid)) r1 \<longrightarrow>
             link_route R J t (Some key) cid body2 (d2, r2) = (Inr ans, (d2, r2)))
       \<and> (\<forall>t cid2. cid2 \<noteq> cid \<and> CHR ''/'' \<notin> set cid2 \<longrightarrow>
             cached_response R J t (buildCacheKey key (link_path cid2)) r1
               = cached_response R J t (buildCacheKey key (link_path cid2)) r)
       \<and> (\<forall>t body2 ans2 d2 r2.
             executeAndCache R J t True (buildCacheKey key (link_path cid)) (link_handler R t cid body2) (d1, r1)
               = (Inr ans2, (d2, r2)) \<longrightarrow>
             length (audit_log d2) = length (audit_log d) + 2)"
proof -
  let ?k = "buildCacheKey key (link_path cid)"
  obtain status row where ans: "ans = (status, row)" by (cases ans)
  have ex: "executeAndCache R J now True ?k (link_handler R now cid body) (d, r) = (Inr (status, row), (d1, r1))"
    using first link_route_miss [OF assms(3,4), of R J now cid "(d, r)" body] miss by (simp add: ans)
  then obtain r0 where h: "link_handler R now cid body (d, r) = (Inr (status, row), (d1, r0))"
    and r1: "r1 = r_set R now ?k (Text (stringify J (status, row))) IDEMPOTENCY_CACHE_TTL_S r0"
    using link_handler_Inr(1) by (fastforce simp: executeAndCache_def split: sum.splits prod.splits if_splits)
  note l = link_handler_Inr [OF h]
  have "link_route R J t (Some key) cid body2 (d2, r2) = (Inr ans, (d2, r2))"
    if "now \<le> t" "t < now + 86400000" "r_get R t ?k r2 = r_get R t ?k r1" for t body2 d2 r2
  proof -
    have "cached_response R J t ?k r1 = Some ans"
      using cached_after_set [OF assms(1,2) that(1,2)] by (simp add: r1 ans)
    then have "cached_response R J t ?k r2 = Some ans" using that(3) by (simp add: cached_response_def)
    then show ?thesis by (simp add: link_route_def intercept_def header_key_simps assms(3,4))
  qed
  moreover have "cached_response R J t (buildCacheKey key (link_path cid2)) r1
      = cached_response R J t (buildCacheKey key (link_path cid2)) r"
    if "cid2 \<noteq> cid" "CHR ''/'' \<notin> set cid2" for t cid2
  proof -
    have "buildCacheKey key (link_path cid2) \<noteq> ?k"
      using link_key_inj [OF that(2) assms(5)] that(1) by simp
    then show ?thesis
      using l(3) [OF assms(1)] redis_set_other [OF assms(1)] by (simp add: cached_response_def r1)
  qed
  moreover have "length (audit_log d2) = length (audit_log d) + 2"
    if e: "executeAndCache R J t True ?k (link_handler R t cid body2) (d1, r1) = (Inr ans2, (d2, r2))" for t body2 ans2 d2 r2
  proof -
    obtain st2 row2 r3 where "link_handler R t cid body2 (d1, r1) = (Inr (st2, row2), (d2, r3))"
      using e by (auto simp: executeAndCache_def split: sum.splits prod.splits)
    from link_handler_Inr(2) [OF this] l(2) show ?thesis by simp
  qed
  ultimately show ?thesis by blast
qed

text \<open>A codec for the witness: entries are numbered, and the number is printed.\<close>

definition entry_tuple :: "nat \<times> UserIdentity \<Rightarrow> nat \<times> nat \<times> js_string \<times> js_string \<times> js_string \<times> int \<times> int" where
  "entry_tuple = (\<lambda>(status, u).
     (status, ui_id u, vendor_string (ui_vendor u), ui_vendor_user_id u, ui_canonical_user_id u,
      ui_created_at u, ui_updated_at u))"

definition tuple_entry :: "nat \<times> nat \<times> js_string \<times> js_string \<times> js_string \<times> int \<times> int \<Rightarrow> (nat \<times> UserIdentity) option" where
  "tuple_entry = (\<lambda>(status, i, v, u, c, created, updated).
     map_option (\<lambda>vd. (status, \<lparr>ui_id = i, ui_vendor = vd, ui_vendor_user_id = u, ui_canonical_user_id = c,
                               ui_created_at = created, ui_updated_at = updated\<rparr>))
       (map_of VALID_VENDORS v))"

definition numbered_json :: "UserIdentity Json" where
  "numbered_json =
     \<lparr>stringify = (\<lambda>x. show_nat (to_nat (entry_tuple x))), parse_entry = (\<lambda>t. tuple_entry (from_nat (undec t)))\<rparr>"

lemma numbered_json_ok: "json_ok numbered_json"
  by (simp add: json_ok_def numbered_json_def entry_tuple_def tuple_entry_def)

definition sample_body :: "js_string \<Rightarrow> jsval" where
  "sample_body u = JObj [(''vendor'', JStr ''trackpro''), (''vendor_user_id'', JStr u)]"

lemma sample_link:
  "\<exists>ans d1 r1. link_route map_redis numbered_json 0 (Some ''k1'') ''c1'' (sample_body ''p7'') (empty_db, \<lambda>k. None)
     = (Inr ans, (d1, r1))"
proof -
  have "LinkBodySchema (sample_body ''p7'') = Some (Trackpro, ''p7'')"
    by (simp add: LinkBodySchema_def sample_body_def z_strict_def z_enum_def VALID_VENDORS_def z_string_def)
  moreover have "linkIdentity map_redis 0 Trackpro ''p7'' ''c1'' ''internal-api'' (empty_db, \<lambda>k. None) \<noteq> Inl e" for e
    using link_Inl(2) [where R = map_redis and v = Trackpro and u = "''p7''" and c = "''c1''" and actor = "''internal-api''"]
    by fastforce
  then obtain p where "linkIdentity map_redis 0 Trackpro ''p7'' ''c1'' ''internal-api'' (empty_db, \<lambda>k. None) = Inr p"
    by (metis sumE)
  ultimately show ?thesis
    by (cases p) (auto simp: link_route_def intercept_def header_key_simps cached_response_def map_redis_empty
        executeAndCache_def link_handler_def link_endpoint_def ZodValidationPipe_def)
qed

theorem link_idempotency_witness:
  "\<exists>ans d1 r1. link_route map_redis numbered_json 0 (Some ''k1'') ''c1'' (sample_body ''p7'') (empty_db, \<lambda>k. None)
        = (Inr ans, (d1, r1))
     \<and> link_route map_redis numbered_json 5000 (Some ''k1'') ''c1'' (sample_body ''p8'') (d1, r1) = (Inr ans, (d1, r1))"
proof -
  obtain ans d1 r1 where l:
    "link_route map_redis numbered_json 0 (Some ''k1'') ''c1'' (sample_body ''p7'') (empty_db, \<lambda>k. None) = (Inr ans, (d1, r1))"
    using sample_link by blast
  have miss: "cached_response map_redis numbered_json 0 (buildCacheKey ''k1'' (link_path ''c1'')) (\<lambda>k. None) = None"
    by (simp add: cached_response_def map_redis_empty)
  have "link_route map_redis numbered_json 5000 (Some ''k1'') ''c1'' (sample_body ''p8'') (d1, r1) = (Inr ans, (d1, r1))"
    by (rule link_idempotency [OF map_redis_ok numbered_json_ok _ _ _ miss l, THEN conjunct1, rule_format]) simp_all
  with l show ?thesis by blast
qed

end
