(* ===== verification/Js_Sqrt.thy ===== *)
theory Js_Sqrt
  imports Js_Number
begin

text \<open>
  \<open>Math.sqrt\<close> and \<open>Math.pow(x, 2)\<close> on binary64 numbers, and the rounding lemmas that the statistics
  need: relative error, and interpolation between two numbers.
\<close>

section \<open>Integer square root\<close>

fun isqrt :: "nat \<Rightarrow> nat" where
  "isqrt n =
     (if n = 0 then 0
      else let r = 2 * isqrt (n div 4) in if (r + 1) * (r + 1) \<le> n then r + 1 else r)"

declare isqrt.simps [simp del]

lemma isqrt_bounds: "isqrt n * isqrt n \<le> n \<and> n < (isqrt n + 1) * (isqrt n + 1)"
proof (induction n rule: isqrt.induct)
  case (1 n)
  show ?case
  proof (cases "n = 0")
    case True
    then show ?thesis by (simp add: isqrt.simps)
  next
    case False
    let ?k = "isqrt (n div 4)"
    have k: "?k * ?k \<le> n div 4" "n div 4 < (?k + 1) * (?k + 1)" using 1 False by auto
    have lo: "(2 * ?k) * (2 * ?k) \<le> n" using k(1) by linarith
    have "n < 4 * ((?k + 1) * (?k + 1))" using k(2) by linarith
    then have hi: "n < (2 * ?k + 2) * (2 * ?k + 2)" by (simp add: algebra_simps)
    show ?thesis
      using lo hi by (subst (1 2 3 4) isqrt.simps) (simp add: False Let_def not_le)
  qed
qed

section \<open>Square roots\<close>

text \<open>The double nearest to the square root of a non-negative number: its exponent, and the
  rounded significand (ties to even, though no double has a tie).\<close>

definition sqrt_exp :: "rat \<Rightarrow> int" where
  "sqrt_exp q = max (flog2 q div 2 - 52) (- 1074)"

definition sqrt_significand :: "rat \<Rightarrow> nat" where
  "sqrt_significand y =
     (let n = isqrt (nat \<lfloor>y\<rfloor>); m = (of_nat n + 1 / 2) * (of_nat n + 1 / 2)
      in if y < m then n else if m < y then n + 1 else if even n then n else n + 1)"

definition Math_sqrt :: "number \<Rightarrow> number" where
  "Math_sqrt q =
     (if q = 0 then 0
      else of_nat (sqrt_significand (q / 2 powi (2 * sqrt_exp q))) * 2 powi sqrt_exp q)"

text \<open>V8's \<open>Math.pow(x, 2)\<close> is taken to be the rounded square.\<close>

definition Math_pow2 :: "number \<Rightarrow> number" where
  "Math_pow2 x = fl (x * x)"

lemma Math_sqrt_nonneg: "0 \<le> Math_sqrt q"
  by (simp add: Math_sqrt_def)

lemma Math_sqrt_0 [simp]: "Math_sqrt 0 = 0"
  by (simp add: Math_sqrt_def)

text \<open>Within half a unit in the last place of the root.\<close>

lemma sqrt_significand_near:
  assumes "0 \<le> y" and "s = of_nat (sqrt_significand y)"
  shows "y \<le> (s + 1 / 2) * (s + 1 / 2)" and "1 \<le> s \<Longrightarrow> (s - 1 / 2) * (s - 1 / 2) \<le> y"
proof -
  define n where "n = isqrt (nat \<lfloor>y\<rfloor>)"
  have "n * n \<le> nat \<lfloor>y\<rfloor>" "nat \<lfloor>y\<rfloor> < (n + 1) * (n + 1)" using isqrt_bounds by (auto simp: n_def)
  then have "int (n * n) \<le> \<lfloor>y\<rfloor>" "\<lfloor>y\<rfloor> < int ((n + 1) * (n + 1))" using assms(1) by linarith+
  then have "of_int (int (n * n)) \<le> y" "y < of_int (int ((n + 1) * (n + 1)))"
    by (simp_all only: le_floor_iff floor_less_iff)
  then have b: "of_nat n * of_nat n \<le> y" "y < (of_nat n + 1) * (of_nat n + 1)"
    by (simp_all add: algebra_simps)
  have sq: "a \<le> b \<Longrightarrow> 0 \<le> a \<Longrightarrow> a * a \<le> b * b" for a b :: rat by (simp add: mult_mono)
  define m where "m = (of_nat n + 1 / 2) * (of_nat n + 1 / 2 :: rat)"
  have s: "(s = of_nat n \<and> y \<le> m) \<or> (s = of_nat n + 1 \<and> m \<le> y)"
    by (auto simp: assms(2) sqrt_significand_def n_def [symmetric] m_def [symmetric] Let_def)
  from s show "y \<le> (s + 1 / 2) * (s + 1 / 2)"
  proof
    assume "s = of_nat n + 1 \<and> m \<le> y"
    then show ?thesis using b(2) sq [of "of_nat n + 1" "of_nat n + 1 + 1 / 2"] by auto
  qed (simp add: m_def)
  show "(s - 1 / 2) * (s - 1 / 2) \<le> y" if "1 \<le> s"
    using s
  proof
    assume a: "s = of_nat n \<and> y \<le> m"
    then have "(s - 1 / 2) * (s - 1 / 2) \<le> of_nat n * of_nat n" using that sq [of "s - 1 / 2" s] by simp
    with b(1) show ?thesis by linarith
  next
    assume "s = of_nat n + 1 \<and> m \<le> y"
    moreover from this have "s - 1 / 2 = of_nat n + 1 / 2" by simp
    ultimately show ?thesis by (simp only: m_def)
  qed
qed

text \<open>The result is within half a unit in its last place of the real root.\<close>

lemma Math_sqrt_near:
  assumes "0 < q" and "h = 2 powi sqrt_exp q / 2"
  shows "q \<le> (Math_sqrt q + h) * (Math_sqrt q + h)" and "h < Math_sqrt q \<Longrightarrow> (Math_sqrt q - h) * (Math_sqrt q - h) \<le> q"
proof -
  define u where "u = (2::rat) powi sqrt_exp q"
  have u: "0 < u" by (simp add: u_def)
  have uu: "2 powi (2 * sqrt_exp q) = u * u" unfolding u_def mult_2 by (rule power_int_add) simp
  define y where "y = q / (u * u)"
  define s where "s = (of_nat (sqrt_significand y) :: rat)"
  have m: "Math_sqrt q = s * u" using assms(1) by (simp add: Math_sqrt_def uu y_def s_def u_def)
  have h: "h = u / 2" by (simp add: assms(2) u_def)
  have q: "q = y * (u * u)" using u by (simp add: y_def)
  have y: "0 \<le> y" using assms(1) u by (simp add: y_def)
  note n = sqrt_significand_near [OF y s_def]
  have "y * (u * u) \<le> ((s + 1 / 2) * (s + 1 / 2)) * (u * u)"
    using n(1) u by (intro mult_right_mono) auto
  then show "q \<le> (Math_sqrt q + h) * (Math_sqrt q + h)" unfolding m h by (subst q) (simp add: algebra_simps)
  assume "h < Math_sqrt q"
  then have "1 / 2 < s" using u by (simp add: m h)
  then have "1 \<le> s" by (auto simp: s_def)
  then have "((s - 1 / 2) * (s - 1 / 2)) * (u * u) \<le> y * (u * u)"
    using n(2) u by (intro mult_right_mono) auto
  then show "(Math_sqrt q - h) * (Math_sqrt q - h) \<le> q" unfolding m h by (subst q) (simp add: algebra_simps)
qed

section \<open>Rounding\<close>

lemma fl_multiple:
  assumes "e = - 1074"
  shows "\<exists>m. fl q = of_int m * 2 powi e"
proof (cases "q = 0")
  case True
  then show ?thesis by (intro exI [of _ 0]) simp
next
  case False
  obtain k where k: "ulp_exp q = e + int k"
    using zle_iff_zadd [of e "ulp_exp q"] by (auto simp: ulp_exp_def assms)
  have "(2::rat) powi ulp_exp q = 2 ^ k * 2 powi e"
    unfolding k by (simp add: power_int_add pow2_nat mult.commute)
  then have "fl q = of_int (rne (q / 2 powi ulp_exp q) * 2 ^ k) * 2 powi e"
    using False by (simp add: fl_def)
  then show ?thesis by blast
qed

lemma fl_err_rel:
  assumes "2 powi e \<le> q" and "- 1021 \<le> e"
  shows "fl q \<le> q + q / 2 ^ 52"
proof -
  have q: "0 < q" using assms(1) pow2_pos [of e] by linarith
  have "e \<le> flog2 q" using flog2_mono [OF pow2_pos assms(1)] by simp
  then have e: "ulp_exp q - 1 = flog2 q - 53" using q assms(2) by (simp add: ulp_exp_def)
  have "(2::rat) powi (flog2 q - 53) = 2 powi flog2 q / 2 ^ 53" by (simp add: power_int_diff)
  also have "\<dots> \<le> q / 2 ^ 52" using flog2_bounds(1) [OF q] q by simp
  finally show ?thesis using fl_err [of q] e by (simp add: abs_le_iff)
qed

text \<open>A difference of two doubles is rounded with a small relative error, or not at all.\<close>

lemma fl_diff:
  assumes "is_double a" and "is_double b" and "a \<le> b"
  shows "fl (b - a) = b - a \<or> (\<exists>e. - 1021 \<le> e \<and> 2 powi e \<le> b - a)"
proof -
  obtain e t where e: "e = - (1074::int)" and t: "t = - (1021::int)" by simp
  show ?thesis
  proof (cases "b - a < 2 powi t")
    case True
    obtain m n where "a = of_int m * 2 powi e" "b = of_int n * 2 powi e"
      using fl_multiple [OF e, of a] fl_multiple [OF e, of b] assms(1,2) by (auto simp: is_double_def)
    then have d: "b - a = of_int (n - m) * 2 powi e" by (simp add: left_diff_distrib)
    show ?thesis
    proof (cases "b - a = 0")
      case False
      then have "flog2 (b - a) < t" using flog2_less [OF _ True] assms(3) by simp
      then have "ulp_exp (b - a) \<le> e" using assms(3) False by (simp add: ulp_exp_def e t)
      then show ?thesis using fl_grid [OF d] by simp
    qed simp
  next
    case False
    then show ?thesis using t by (intro disjI2 exI [of _ t]) simp
  qed
qed

text \<open>Linear interpolation never leaves the interval, when the fraction stays clear of one.\<close>

lemma interpolation_bounds:
  assumes "is_double a" and "is_double b" and "a \<le> b" and "0 \<le> f" and "f \<le> 23 / 25"
  shows "a \<le> fl (a + fl (fl (b - a) * f))" and "fl (a + fl (fl (b - a) * f)) \<le> b"
proof -
  have d0: "0 \<le> fl (b - a)" using assms(3) by (intro fl_nonneg) simp
  have "0 \<le> fl (fl (b - a) * f)" using d0 assms(4) by (intro fl_nonneg) simp
  then show "a \<le> fl (a + fl (fl (b - a) * f))"
    using fl_mono [of a "a + fl (fl (b - a) * f)"] assms(1) by (simp add: is_double_def)
  have "fl (fl (b - a) * f) \<le> b - a"
    using fl_diff [OF assms(1-3)]
  proof
    assume e: "fl (b - a) = b - a"
    then have "fl (b - a) * f \<le> b - a" using mult_left_le [of f "b - a"] assms(3-5) by simp
    then have "fl (fl (b - a) * f) \<le> fl (b - a)" by (rule fl_mono)
    with e show ?thesis by simp
  next
    assume "\<exists>e. - 1021 \<le> e \<and> 2 powi e \<le> b - a"
    then obtain e where e: "- 1021 \<le> e" and big: "2 powi e \<le> b - a" by blast
    let ?d = "b - a"
    have dpos: "0 < ?d" using big pow2_pos [of e] by linarith
    have "fl ?d \<le> ?d + ?d / 2 ^ 52" by (rule fl_err_rel [OF big e])
    also have "\<dots> \<le> ?d * (100 / 99)" using dpos by (simp add: field_simps)
    finally have "fl ?d \<le> ?d * (100 / 99)" .
    then have "fl ?d * f \<le> ?d * (100 / 99) * (23 / 25)"
      using assms(4,5) d0 dpos by (intro mult_mono) auto
    also have "\<dots> \<le> ?d * (94 / 100)" using dpos by simp
    finally have x: "fl ?d * f \<le> ?d * (94 / 100)" .
    show ?thesis
    proof (cases "fl ?d * f \<le> 2 powi e")
      case True
      have "fl (2 powi e) = 2 powi e"
        by (rule fl_grid [of _ 1 e]) (use e in \<open>simp_all add: ulp_exp_def\<close>)
      with fl_mono [OF True] big show ?thesis by linarith
    next
      case False
      then have "fl (fl ?d * f) \<le> fl ?d * f + fl ?d * f / 2 ^ 52"
        using fl_err_rel [OF _ e, of "fl ?d * f"] by simp
      also have "\<dots> \<le> ?d * (94 / 100) + ?d * (94 / 100) / 2 ^ 52"
        using x by (intro add_mono divide_right_mono) auto
      also have "\<dots> \<le> ?d" using dpos by (simp add: field_simps)
      finally show ?thesis .
    qed
  qed
  then have "a + fl (fl (b - a) * f) \<le> b" by simp
  then show "fl (a + fl (fl (b - a) * f)) \<le> b"
    using fl_mono [of "a + fl (fl (b - a) * f)" b] assms(2) by (simp add: is_double_def)
qed

end
