(* ===== verification/Shots_Query.thy ===== *)
theory Shots_Query
  imports Repository Redaction
begin

text \<open>
  \<open>shots/shots.service.ts\<close> and \<open>shots/shots.controller.ts\<close>: the paged list of a user's shots. The
  page order is the order of the type of keys below. Base64url, \<open>JSON.parse\<close> on arbitrary text
  and PostgreSQL's reading of a time stamp that a client wrote are parameters.
\<close>

section \<open>Keys of the page order\<close>

text \<open>\<open>(captured_at_utc, canonical_shot_id)\<close>, compared as SQL compares rows.\<close>

datatype page_key = PageKey (pk_time: int) (pk_id: js_string)

instantiation page_key :: linorder
begin

definition less_eq_page_key :: "page_key \<Rightarrow> page_key \<Rightarrow> bool" where
  "less_eq_page_key a b \<longleftrightarrow> pk_time a < pk_time b \<or> pk_time a = pk_time b \<and> pk_id a \<le> pk_id b"

definition less_page_key :: "page_key \<Rightarrow> page_key \<Rightarrow> bool" where
  "less_page_key a b \<longleftrightarrow> pk_time a < pk_time b \<or> pk_time a = pk_time b \<and> pk_id a < pk_id b"

instance
  by standard (auto simp: less_eq_page_key_def less_page_key_def page_key.expand)

end

definition row_key :: "'a ShotCore_scheme \<Rightarrow> page_key" where
  "row_key r = PageKey (instant (captured_at_utc r)) (canonical_shot_id r)"

section \<open>Cursors\<close>

text \<open>What lies outside the repository: base64url, \<open>JSON.parse\<close>, the text the driver binds for a
  value, and PostgreSQL's cast of that text to a time stamp.\<close>

record Codec =
  to_base64url :: "js_string \<Rightarrow> js_string"
  from_base64url :: "js_string \<Rightarrow> js_string"
  json_parse :: "js_string \<Rightarrow> jsval option"
  bind_text :: "jsval \<Rightarrow> js_string"
  cast_timestamptz :: "js_string \<Rightarrow> int option"

definition plain :: "js_string \<Rightarrow> bool" where
  "plain s \<longleftrightarrow> list_all (\<lambda>c. 32 \<le> (of_char c :: nat) \<and> (of_char c :: nat) < 127 \<and> c \<noteq> CHR 0x22 \<and> c \<noteq> CHR 0x5C) s"

definition cursor_object :: "js_string \<Rightarrow> js_string \<Rightarrow> jsval" where
  "cursor_object ts sid = JObj [(''captured_at_utc'', JStr ts), (''canonical_shot_id'', JStr sid)]"

text \<open>Their documented behaviour, on the texts that cursors are made of.\<close>

definition codec_ok :: "Codec \<Rightarrow> bool" where
  "codec_ok C \<longleftrightarrow>
     (\<forall>s. list_all (\<lambda>c. (of_char c :: nat) < 128) s \<longrightarrow> from_base64url C (to_base64url C s) = s)
     \<and> (\<forall>ts sid num. plain ts \<and> plain sid \<longrightarrow>
          json_parse C (json_text num (cursor_object ts sid)) = Some (cursor_object ts sid))
     \<and> (\<forall>s. bind_text C (JStr s) = s)
     \<and> (\<forall>s t. iso_parse s = Some t \<longrightarrow> cast_timestamptz C s = Some t)
     \<and> (\<forall>s. to_base64url C s = [] \<longrightarrow> s = [])"

text \<open>The object holds no number, whose digits \<open>json_text\<close> would need.\<close>

definition encodeCursor :: "Codec \<Rightarrow> js_string \<Rightarrow> js_string \<Rightarrow> js_string" where
  "encodeCursor C ts sid = to_base64url C (json_text (\<lambda>x. []) (cursor_object ts sid))"

text \<open>Whatever goes wrong, the client is told the cursor is invalid; the fields of a decoded object
  need not be strings.\<close>

definition decodeCursor :: "Codec \<Rightarrow> js_string \<Rightarrow> exn + jsval \<times> jsval" where
  "decodeCursor C cursor =
     (case json_parse C (from_base64url C cursor) of
        Some (JObj kvs) \<Rightarrow>
          let ts = get kvs ''captured_at_utc''; sid = get kvs ''canonical_shot_id''
          in if falsy ts \<or> falsy sid then Inl (Domain InvalidCursorError) else Inr (ts, sid)
      | _ \<Rightarrow> Inl (Domain InvalidCursorError))"

section \<open>The service\<close>

record ShotsQuery =
  q_since :: "js_string option"
  q_until :: "js_string option"
  q_club :: "js_string option"
  q_cursor :: "js_string option"
  q_limit :: "int option"
  q_include_near_duplicates :: bool

record UserFilter =
  f_canonical_user_id :: "js_string option"
  f_vendor :: "Vendor option"
  f_vendor_user_id :: "js_string option"

record ShotsPage =
  pg_data :: "ShotCore list"
  pg_next_cursor :: "js_string option"
  pg_has_more :: bool
  pg_limit :: int
  pg_since :: js_string
  pg_until :: js_string

record QueryEnv =
  qe_legacy_date :: "js_string \<Rightarrow> int option"
  qe_codec :: Codec
  qe_now :: int

definition DEFAULT_WINDOW_DAYS :: int where "DEFAULT_WINDOW_DAYS = 30"
definition MAX_LIMIT :: int where "MAX_LIMIT = 100"
definition DEFAULT_LIMIT :: int where "DEFAULT_LIMIT = 50"

definition default_since :: "QueryEnv \<Rightarrow> int" where
  "default_since env = qe_now env - DEFAULT_WINDOW_DAYS * 86400 * 1000"

definition truthy :: "js_string option \<Rightarrow> js_string option" where
  "truthy s = (case s of Some (c # cs) \<Rightarrow> Some (c # cs) | _ \<Rightarrow> None)"

definition parseWindowDate :: "QueryEnv \<Rightarrow> js_string \<Rightarrow> js_string \<Rightarrow> exn + js_string" where
  "parseWindowDate env v fieldName =
     (case toISOString (date_parse (qe_legacy_date env) v) of
        None \<Rightarrow> Inl (Domain (InvalidDateError fieldName v))
      | Some s \<Rightarrow> Inr s)"

definition window_date :: "QueryEnv \<Rightarrow> js_string option \<Rightarrow> js_string \<Rightarrow> int \<Rightarrow> exn + js_string" where
  "window_date env v fieldName dflt =
     (case truthy v of Some s \<Rightarrow> parseWindowDate env s fieldName | None \<Rightarrow> Inr (iso_format dflt))"

text \<open>\<open>isNaN(rawLimit)\<close> cannot hold: the controller passes no NaN.\<close>

definition effective_limit :: "ShotsQuery \<Rightarrow> int" where
  "effective_limit q = (case q_limit q of Some n \<Rightarrow> min n MAX_LIMIT | None \<Rightarrow> min DEFAULT_LIMIT MAX_LIMIT)"

text \<open>\<open>xs.slice(0, n)\<close>: a negative \<open>n\<close> counts from the end.\<close>

definition slice_to :: "int \<Rightarrow> 'a list \<Rightarrow> 'a list" where
  "slice_to n xs = (if 0 \<le> n then take (nat n) xs else take (length xs - nat (- n)) xs)"

definition club_param :: "ShotsQuery \<Rightarrow> exn + unit" where
  "club_param q =
     (case truthy (q_club q) of
        Some c \<Rightarrow> if c \<in> set VALID_CLUB_CODES then Inr () else Inl (Domain (UnknownClubCodeError c))
      | None \<Rightarrow> Inr ())"

definition matches :: "UserFilter \<Rightarrow> ShotsQuery \<Rightarrow> js_string \<Rightarrow> js_string \<Rightarrow> NormalisedShot \<Rightarrow> bool" where
  "matches f q since until_utc r \<longleftrightarrow>
     instant since \<le> instant (captured_at_utc r)
     \<and> instant (captured_at_utc r) \<le> instant until_utc
     \<and> pred_option (\<lambda>c. canonical_user_id r = Some c) (truthy (f_canonical_user_id f))
     \<and> pred_option (\<lambda>v. vendor r = v) (f_vendor f)
     \<and> pred_option (\<lambda>u. vendor_user_id r = u) (truthy (f_vendor_user_id f))
     \<and> pred_option (\<lambda>c. club_code r = Club c) (truthy (q_club q))
     \<and> (q_include_near_duplicates q \<or> duplicate_of r = None)"

text \<open>The rows of the query before the limit: filtered, below the cursor, newest first.\<close>

definition ordered :: "(NormalisedShot \<Rightarrow> bool) \<Rightarrow> Db \<Rightarrow> NormalisedShot list" where
  "ordered p d = rev (sort_key row_key (filter p (shots d)))"

definition cursor_key :: "QueryEnv \<Rightarrow> js_string option \<Rightarrow> exn + page_key option" where
  "cursor_key env cursor =
     (case truthy cursor of
        None \<Rightarrow> Inr None
      | Some c \<Rightarrow>
          (case decodeCursor (qe_codec env) c of
             Inl e \<Rightarrow> Inl e
           | Inr (ts, sid) \<Rightarrow>
               (case cast_timestamptz (qe_codec env) (bind_text (qe_codec env) ts) of
                  None \<Rightarrow> Inl DbError
                | Some t \<Rightarrow> Inr (Some (PageKey t (bind_text (qe_codec env) sid))))))"

definition below :: "page_key option \<Rightarrow> NormalisedShot \<Rightarrow> bool" where
  "below k r \<longleftrightarrow> pred_option (\<lambda>k. row_key r < k) k"

definition executeQuery :: "QueryEnv \<Rightarrow> UserFilter \<Rightarrow> ShotsQuery \<Rightarrow> Db \<Rightarrow> exn + ShotsPage" where
  "executeQuery env f q d =
     (let limit = effective_limit q in
      case window_date env (q_since q) ''since'' (default_since env) of
        Inl e \<Rightarrow> Inl e
      | Inr since \<Rightarrow>
      (case window_date env (q_until q) ''until'' (qe_now env) of
        Inl e \<Rightarrow> Inl e
      | Inr until_utc \<Rightarrow>
      (case club_param q of
        Inl e \<Rightarrow> Inl e
      | Inr _ \<Rightarrow>
      (case cursor_key env (q_cursor q) of
        Inl e \<Rightarrow> Inl e
      | Inr k \<Rightarrow>
          if limit + 1 < 0 then Inl DbError
          else
            let rows = take (nat (limit + 1)) (ordered (\<lambda>r. matches f q since until_utc r \<and> below k r) d);
                hasMore = (limit < int (length rows));
                page = (if hasMore then slice_to limit rows else rows);
                nextCursor =
                  (if hasMore \<and> page \<noteq> []
                   then Some (encodeCursor (qe_codec env) (captured_at_utc (last page)) (canonical_shot_id (last page)))
                   else None)
            in Inr \<lparr>pg_data = map ShotCore.truncate page, pg_next_cursor = nextCursor, pg_has_more = hasMore,
                    pg_limit = limit, pg_since = since, pg_until = until_utc\<rparr>))))"

definition listByCanonicalUser_shots :: "QueryEnv \<Rightarrow> js_string \<Rightarrow> ShotsQuery \<Rightarrow> Db \<Rightarrow> exn + ShotsPage" where
  "listByCanonicalUser_shots env userId q d =
     executeQuery env \<lparr>f_canonical_user_id = Some userId, f_vendor = None, f_vendor_user_id = None\<rparr> q d"

definition listByVendorUser :: "QueryEnv \<Rightarrow> js_string \<Rightarrow> js_string \<Rightarrow> ShotsQuery \<Rightarrow> Db \<Rightarrow> exn + ShotsPage" where
  "listByVendorUser env vendor_name vendorUserId q d =
     (case map_of VALID_VENDORS vendor_name of
        None \<Rightarrow> Inl (Domain (UnknownVendorError vendor_name))
      | Some v \<Rightarrow>
          executeQuery env
            \<lparr>f_canonical_user_id = None, f_vendor = Some v, f_vendor_user_id = Some vendorUserId\<rparr> q d)"

section \<open>The controller\<close>

record ShotsParams =
  p_since :: "js_string option"
  p_until :: "js_string option"
  p_club :: "js_string option"
  p_cursor :: "js_string option"
  p_limit :: "js_string option"
  p_include_near_duplicates :: "js_string option"

definition query_of :: "ShotsParams \<Rightarrow> ShotsQuery" where
  "query_of p =
     \<lparr>q_since = p_since p, q_until = p_until p, q_club = p_club p, q_cursor = p_cursor p,
      q_limit = (case p_limit p of
                   None \<Rightarrow> None
                 | Some s \<Rightarrow> (case parseInt s of None \<Rightarrow> None | Some n \<Rightarrow> Some \<lfloor>n\<rfloor>)),
      q_include_near_duplicates = (p_include_near_duplicates p = Some ''true'')\<rparr>"

definition listByUser_endpoint :: "QueryEnv \<Rightarrow> js_string \<Rightarrow> ShotsParams \<Rightarrow> Db \<Rightarrow> exn + ShotsPage" where
  "listByUser_endpoint env userId p d = listByCanonicalUser_shots env userId (query_of p) d"

definition listByVendorUser_endpoint ::
    "QueryEnv \<Rightarrow> js_string \<Rightarrow> js_string \<Rightarrow> ShotsParams \<Rightarrow> Db \<Rightarrow> exn + ShotsPage" where
  "listByVendorUser_endpoint env vendor_name vendorUserId p d =
     listByVendorUser env vendor_name vendorUserId (query_of p) d"


section \<open>Lemmas on the order\<close>

lemma row_key_inj:
  assumes "db_inv d" and "r \<in> set (shots d)" and "q \<in> set (shots d)" and "row_key r = row_key q"
  shows "r = q"
  using assms by (auto simp: row_key_def db_inv_def distinct_map dest: inj_onD)

lemma ordered_set: "set (ordered p d) = {r \<in> set (shots d). p r}"
  by (simp add: ordered_def)

lemma ordered_filter: "filter p (ordered q d) = ordered (\<lambda>r. q r \<and> p r) d"
  by (simp add: ordered_def rev_filter [symmetric] filter_sort conj_commute)

text \<open>Keys of stored shots are distinct, so the order is strict.\<close>

lemma ordered_strict:
  assumes "db_inv d"
  shows "sorted_wrt (\<lambda>a b. row_key b < row_key a) (ordered p d)"
proof -
  let ?s = "sort_key row_key (filter p (shots d))"
  have "distinct (map row_key (shots d))"
    using assms row_key_inj [OF assms] by (auto simp: distinct_map inj_on_def db_inv_def)
  then have "distinct (map row_key (filter p (shots d)))" by (rule distinct_map_filter)
  then have "distinct (map row_key ?s)"
    by (simp add: distinct_map distinct_sort)
  moreover have "sorted (map row_key ?s)" by simp
  ultimately have "sorted_wrt (<) (map row_key ?s)" by (simp add: strict_sorted_iff)
  then show ?thesis by (simp add: ordered_def sorted_wrt_rev sorted_wrt_map)
qed

lemma below_split:
  assumes "db_inv d" and "ordered p d = A @ r # B"
  shows "ordered (\<lambda>q. p q \<and> below (Some (row_key r)) q) d = B"
proof -
  have s: "sorted_wrt (\<lambda>a b. row_key b < row_key a) (A @ r # B)"
    using ordered_strict [OF assms(1), of p] assms(2) by simp
  have "filter (below (Some (row_key r))) (A @ r # B) = B"
    using s by (auto simp: below_def sorted_wrt_append filter_empty_conv filter_id_conv dest: less_asym)
  then show ?thesis using ordered_filter [of "below (Some (row_key r))" p d] assms(2) by simp
qed

section \<open>Lemmas on the query\<close>

lemma truthy_simps [simp]: "truthy None = None" "truthy (Some []) = None" "truthy (Some (c # cs)) = Some (c # cs)"
  by (simp_all add: truthy_def)

lemma truthy_nonempty: "s \<noteq> [] \<Longrightarrow> truthy (Some s) = Some s"
  by (cases s) simp_all

definition window :: "QueryEnv \<Rightarrow> ShotsQuery \<Rightarrow> exn + js_string \<times> js_string" where
  "window env q =
     (case window_date env (q_since q) ''since'' (default_since env) of
        Inl e \<Rightarrow> Inl e
      | Inr since \<Rightarrow>
          (case window_date env (q_until q) ''until'' (qe_now env) of
             Inl e \<Rightarrow> Inl e | Inr until_utc \<Rightarrow> Inr (since, until_utc)))"

lemma slice_to_subset: "set (slice_to n xs) \<subseteq> set xs"
  by (auto simp: slice_to_def dest: in_set_takeD)

text \<open>A query with a limit of one or more, by its remaining rows.\<close>

lemma executeQuery_rows:
  assumes "window env q = Inr (since, until_utc)" and "club_param q = Inr ()"
    and "cursor_key env (q_cursor q) = Inr k" and "1 \<le> effective_limit q"
    and "rows = ordered (\<lambda>r. matches f q since until_utc r \<and> below k r) d"
  shows "executeQuery env f q d =
     (let n = nat (effective_limit q) in
      Inr \<lparr>pg_data = map ShotCore.truncate (take n rows),
           pg_next_cursor = (if n < length rows
             then Some (encodeCursor (qe_codec env) (captured_at_utc (rows ! (n - 1))) (canonical_shot_id (rows ! (n - 1))))
             else None),
           pg_has_more = (n < length rows), pg_limit = effective_limit q,
           pg_since = since, pg_until = until_utc\<rparr>)"
proof -
  define n where "n = nat (effective_limit q)"
  then have n: "effective_limit q = int n" "0 < n" using assms(4) by simp_all
  have w: "window_date env (q_since q) ''since'' (default_since env) = Inr since"
    "window_date env (q_until q) ''until'' (qe_now env) = Inr until_utc"
    using assms(1) by (auto simp: window_def split: sum.splits)
  have last: "n < length rows \<Longrightarrow> last (take n rows) = rows ! (n - 1)"
    using n(2) take_Suc_conv_app_nth [of "n - 1" rows] by simp
  have "nat (int n + 1) = Suc n" by simp
  then show ?thesis
    using n(2) last
    by (simp add: executeQuery_def w assms(2,3) n(1) assms(5) [symmetric] slice_to_def Let_def min_def)
qed

text \<open>Cursors that the service hands out.\<close>

lemma json_quote_plain:
  assumes "plain s"
  shows "json_quote s = CHR 0x22 # s @ [CHR 0x22]"
proof -
  have "json_escape c = [c]" if "c \<in> set s" for c
  proof -
    have "32 \<le> (of_char c :: nat)" "c \<noteq> CHR 0x22" "c \<noteq> CHR 0x5C"
      using that \<open>plain s\<close> by (auto simp: plain_def list_all_iff)
    moreover from this(1) have "c \<notin> {CHR 0x08, CHR 0x09, CHR 0x0A, CHR 0x0C, CHR 0x0D}" by auto
    ultimately show ?thesis by (simp add: json_escape_def)
  qed
  then have m: "map json_escape s = map (\<lambda>c. [c]) s" by simp
  have "concat (map (\<lambda>c. [c]) s) = s" by (induction s) simp_all
  then show ?thesis by (simp only: json_quote_def m)
qed

lemma plain_keys: "plain ''captured_at_utc''" "plain ''canonical_shot_id''"
  by (simp_all add: plain_def)

lemma plain_parts:
  assumes "plain ts" and "plain sid"
  shows "list_all (\<lambda>c. (of_char c :: nat) < 128) (json_text num (cursor_object ts sid))"
proof -
  have "list_all (\<lambda>c. (of_char c :: nat) < 128) s" if "plain s" for s
    by (rule list.pred_mono_strong [OF that [unfolded plain_def]]) simp
  then show ?thesis using assms plain_keys
    by (simp add: cursor_object_def json_quote_plain)
qed

lemma cursor_roundtrip:
  assumes "codec_ok C" and "plain ts" and "plain sid" and "ts \<noteq> []" and "sid \<noteq> []"
  shows "decodeCursor C (encodeCursor C ts sid) = Inr (JStr ts, JStr sid)" and "encodeCursor C ts sid \<noteq> []"
proof -
  have t: "from_base64url C (encodeCursor C ts sid) = json_text (\<lambda>x. []) (cursor_object ts sid)"
    using assms(1) plain_parts [OF assms(2,3)] by (simp add: codec_ok_def encodeCursor_def)
  have "json_parse C (json_text (\<lambda>x. []) (cursor_object ts sid)) = Some (cursor_object ts sid)"
    using assms(1,2,3) by (simp add: codec_ok_def)
  then show "decodeCursor C (encodeCursor C ts sid) = Inr (JStr ts, JStr sid)"
    using assms(4,5) by (simp add: decodeCursor_def t) (simp add: cursor_object_def falsy_def)
  have "json_text (\<lambda>x. []) (cursor_object ts sid) \<noteq> []" by (simp add: cursor_object_def)
  then show "encodeCursor C ts sid \<noteq> []" using assms(1) by (auto simp: codec_ok_def encodeCursor_def)
qed

text \<open>Stored shots whose time stamp and id are plain text, as the parsers and \<open>ulid\<close> make them.\<close>

definition plain_shots :: "Db \<Rightarrow> bool" where
  "plain_shots d \<longleftrightarrow>
     list_all (\<lambda>r. plain (captured_at_utc r) \<and> plain (canonical_shot_id r) \<and> canonical_shot_id r \<noteq> []) (shots d)"

lemma cursor_key_of_row:
  assumes "codec_ok (qe_codec env)" and "db_inv d" and "plain_shots d" and "r \<in> set (shots d)"
  shows "cursor_key env (Some (encodeCursor (qe_codec env) (captured_at_utc r) (canonical_shot_id r))) = Inr (Some (row_key r))"
proof -
  have p: "plain (captured_at_utc r)" "plain (canonical_shot_id r)" "canonical_shot_id r \<noteq> []"
    using assms(3,4) by (auto simp: plain_shots_def list_all_iff)
  obtain t where t: "iso_parse (captured_at_utc r) = Some t"
    using assms(2,4) by (auto simp: db_inv_def list_all_iff shots_check_def timestamptz_def)
  have "captured_at_utc r \<noteq> []" using t by (auto simp: iso_parse_def parse_year_def take_digits_def)
  note c = cursor_roundtrip [OF assms(1) p(1,2) this p(3)]
  show ?thesis
    using c t assms(1) by (simp add: cursor_key_def truthy_nonempty codec_ok_def row_key_def instant_def)
qed

section \<open>A client that follows the cursors\<close>

fun follow :: "nat \<Rightarrow> QueryEnv \<Rightarrow> UserFilter \<Rightarrow> ShotsQuery \<Rightarrow> Db \<Rightarrow> exn + ShotCore list" where
  "follow 0 env f q d = Inr []"
| "follow (Suc n) env f q d =
     (case executeQuery env f q d of
        Inl e \<Rightarrow> Inl e
      | Inr page \<Rightarrow>
          (case pg_next_cursor page of
             None \<Rightarrow> Inr (pg_data page)
           | Some c \<Rightarrow>
               (case follow n env f (q\<lparr>q_cursor := Some c\<rparr>) d of
                  Inl e \<Rightarrow> Inl e | Inr ds \<Rightarrow> Inr (pg_data page @ ds))))"

lemma query_cursor_irrelevant [simp]:
  "window env (q\<lparr>q_cursor := c\<rparr>) = window env q" "club_param (q\<lparr>q_cursor := c\<rparr>) = club_param q"
  "effective_limit (q\<lparr>q_cursor := c\<rparr>) = effective_limit q"
  "matches f (q\<lparr>q_cursor := c\<rparr>) since until_utc = matches f q since until_utc"
  by (simp_all add: window_def club_param_def effective_limit_def matches_def fun_eq_iff cong: sum.case_cong)

lemma follow_rest:
  assumes "codec_ok (qe_codec env)" and "db_inv d" and "plain_shots d"
    and "window env q = Inr (since, until_utc)" and "club_param q = Inr ()" and "1 \<le> effective_limit q"
    and "ordered (matches f q since until_utc) d = A @ B" and "length B < n"
    and "cursor_key env (q_cursor q) = Inr (if A = [] then None else Some (row_key (last A)))"
  shows "follow n env f q d = Inr (map ShotCore.truncate B)"
  using assms(4-9)
proof (induction n arbitrary: q A B)
  case (Suc n)
  let ?p = "matches f q since until_utc" and ?k = "if A = [] then None else Some (row_key (last A))"
  let ?m = "nat (effective_limit q)"
  have rows: "B = ordered (\<lambda>r. ?p r \<and> below ?k r) d"
  proof (cases "A = []")
    case True
    then show ?thesis using Suc.prems(4) by (simp add: below_def)
  next
    case False
    then have "ordered ?p d = butlast A @ last A # B" using Suc.prems(4) by simp
    from below_split [OF assms(2) this] show ?thesis using False by simp
  qed
  note ex = executeQuery_rows [OF Suc.prems(1,2,6,3) rows]
  have m: "0 < ?m" using Suc.prems(3) by simp
  show ?case
  proof (cases "?m < length B")
    case False
    then show ?thesis by (simp add: ex Let_def)
  next
    case True
    let ?r = "B ! (?m - 1)"
    let ?c = "encodeCursor (qe_codec env) (captured_at_utc ?r) (canonical_shot_id ?r)"
    have take: "take ?m B = take (?m - 1) B @ [?r]"
      using m True take_Suc_conv_app_nth [of "?m - 1" B] by simp
    have "?r \<in> set (ordered ?p d)" using True by (simp add: Suc.prems(4))
    then have "?r \<in> set (shots d)" by (simp add: ordered_set)
    then have key: "cursor_key env (Some ?c) = Inr (Some (row_key ?r))" by (rule cursor_key_of_row [OF assms(1-3)])
    have "follow n env f (q\<lparr>q_cursor := Some ?c\<rparr>) d = Inr (map ShotCore.truncate (drop ?m B))"
    proof (rule Suc.IH [where A = "A @ take ?m B"])
      show "ordered (matches f (q\<lparr>q_cursor := Some ?c\<rparr>) since until_utc) d = (A @ take ?m B) @ drop ?m B"
        using Suc.prems(4) by simp
      show "length (drop ?m B) < n" using Suc.prems(5) m True by simp
      show "cursor_key env (q_cursor (q\<lparr>q_cursor := Some ?c\<rparr>))
            = Inr (if A @ take ?m B = [] then None else Some (row_key (last (A @ take ?m B))))"
        using key by (simp add: take)
    qed (use Suc.prems in simp_all)
    then show ?thesis using True
      by (simp add: ex Let_def map_append [symmetric] del: map_append)
  qed
qed simp


lemma strict_distinct: "sorted_wrt (\<lambda>a b. row_key b < row_key a) rows \<Longrightarrow> distinct rows"
  by (induction rows) auto

section \<open>A concrete codec\<close>

definition sample_json_parse :: "js_string \<Rightarrow> jsval option" where
  "sample_json_parse s =
     (let field = (\<lambda>t. takeWhile (\<lambda>c. c \<noteq> CHR 0x22) t);
          ts = field (drop 20 s);
          sid = field (drop (20 + length ts + 23) s)
      in Some (cursor_object ts sid))"

definition sample_codec :: Codec where
  "sample_codec =
     \<lparr>to_base64url = (\<lambda>s. s), from_base64url = (\<lambda>s. s), json_parse = sample_json_parse,
      bind_text = (\<lambda>v. case v of JStr s \<Rightarrow> s | _ \<Rightarrow> []), cast_timestamptz = iso_parse\<rparr>"

lemma sample_codec_ok: "codec_ok sample_codec"
proof -
  have tw: "takeWhile (\<lambda>c. c \<noteq> CHR 0x22) (s @ CHR 0x22 # t) = s" if "plain s" for s t
    using that by (induction s) (simp_all add: plain_def)
  have "sample_json_parse (json_text num (cursor_object ts sid)) = Some (cursor_object ts sid)"
    if "plain ts" "plain sid" for ts sid num
  proof -
    let ?p = "''{'' @ [CHR 0x22] @ ''captured_at_utc'' @ [CHR 0x22] @ '':'' @ [CHR 0x22]"
    let ?q = "[CHR 0x22] @ '','' @ [CHR 0x22] @ ''canonical_shot_id'' @ [CHR 0x22] @ '':'' @ [CHR 0x22]"
    have t: "json_text num (cursor_object ts sid) = ?p @ ts @ ?q @ sid @ CHR 0x22 # ''}''"
      using that plain_keys by (simp add: cursor_object_def json_quote_plain)
    have d0: "drop (length xs) (xs @ ys) = ys" for xs ys :: js_string by simp
    have "length ?p = 20" "length (?p @ ts @ ?q) = 20 + length ts + 23" by simp_all
    then have d: "drop 20 (?p @ x) = x" "drop (20 + length ts + 23) (?p @ ts @ ?q @ y) = y" for x y
      using d0 [of ?p x] d0 [of "?p @ ts @ ?q" y] by (simp_all only: append_assoc)
    have a: "takeWhile (\<lambda>c. c \<noteq> CHR 0x22) (drop 20 (?p @ ts @ ?q @ sid @ CHR 0x22 # ''}'')) = ts"
      unfolding d(1) using tw [OF that(1)] by simp
    have b: "takeWhile (\<lambda>c. c \<noteq> CHR 0x22) (drop (20 + length ts + 23) (?p @ ts @ ?q @ sid @ CHR 0x22 # ''}'')) = sid"
      unfolding d(2) by (rule tw [OF that(2)])
    show ?thesis unfolding sample_json_parse_def t Let_def a b ..
  qed
  then show ?thesis by (simp add: codec_ok_def sample_codec_def)
qed

lemma follow_all:
  assumes "codec_ok (qe_codec env)" and "db_inv d" and "plain_shots d"
    and "window env q = Inr (since, until_utc)" and "club_param q = Inr ()"
    and "q_cursor q = None" and "1 \<le> effective_limit q" and "length (shots d) < n"
  shows "\<exists>rows. follow n env f q d = Inr (map ShotCore.truncate rows)
           \<and> set rows = {r \<in> set (shots d). matches f q since until_utc r}
           \<and> distinct (map canonical_shot_id rows)
           \<and> sorted_wrt (\<lambda>a b. row_key b < row_key a) rows"
proof -
  let ?rows = "ordered (matches f q since until_utc) d"
  have strict: "sorted_wrt (\<lambda>a b. row_key b < row_key a) ?rows" by (rule ordered_strict [OF assms(2)])
  then have "distinct ?rows" by (rule strict_distinct)
  moreover have "inj_on canonical_shot_id (set ?rows)"
    using assms(2) by (auto simp: ordered_set db_inv_def distinct_map intro: inj_on_subset)
  ultimately have "distinct (map canonical_shot_id ?rows)" by (simp add: distinct_map)
  moreover have "length ?rows \<le> length (shots d)" by (simp add: ordered_def)
  then have "follow n env f q d = Inr (map ShotCore.truncate ?rows)"
    using follow_rest [OF assms(1-5,7), of f "[]" ?rows n] assms(6,8) by (simp add: cursor_key_def)
  ultimately show ?thesis using strict ordered_set by blast
qed

section \<open>Properties\<close>

text \<open>C13: Following the cursors is complete. For a valid query over a table that does not change, a
  client that starts without a cursor and follows \<open>next_cursor\<close> gets every matching shot exactly
  once, newest first, and reaches the last page within one request more than there are shots.\<close>

theorem pagination_complete:
  assumes "codec_ok (qe_codec env)" and "db_inv d" and "plain_shots d"
    and "window env q = Inr (since, until_utc)" and "club_param q = Inr ()"
    and "q_cursor q = None" and "1 \<le> effective_limit q" and "length (shots d) < n"
  shows "\<exists>rows. follow n env f q d = Inr (map ShotCore.truncate rows)
           \<and> set rows = {r \<in> set (shots d). matches f q since until_utc r}
           \<and> distinct (map canonical_shot_id rows)
           \<and> sorted_wrt (\<lambda>a b. row_key b < row_key a) rows"
  by (rule follow_all [OF assms])


lemma sample_window:
  "window \<lparr>qe_legacy_date = (\<lambda>s. None), qe_codec = sample_codec, qe_now = 0\<rparr>
     \<lparr>q_since = None, q_until = None, q_club = None, q_cursor = None, q_limit = Some 1,
      q_include_near_duplicates = False\<rparr> = Inr (iso_format (- 30 * 86400 * 1000), iso_format 0)"
  by (simp add: window_def window_date_def default_since_def DEFAULT_WINDOW_DAYS_def)

theorem pagination_complete_witness:
  "\<exists>rows. follow 2 \<lparr>qe_legacy_date = (\<lambda>s. None), qe_codec = sample_codec, qe_now = 0\<rparr>
      \<lparr>f_canonical_user_id = None, f_vendor = None, f_vendor_user_id = None\<rparr>
      \<lparr>q_since = None, q_until = None, q_club = None, q_cursor = None, q_limit = Some 1,
       q_include_near_duplicates = False\<rparr> sample_db = Inr (map ShotCore.truncate rows)
     \<and> set rows \<subseteq> {sample_normalised}"
proof -
  let ?env = "\<lparr>qe_legacy_date = (\<lambda>s. None), qe_codec = sample_codec, qe_now = 0\<rparr>"
  let ?q = "\<lparr>q_since = None, q_until = None, q_club = None, q_cursor = None, q_limit = Some 1,
             q_include_near_duplicates = False\<rparr>"
  have p: "plain_shots sample_db"
    by (simp add: plain_shots_def sample_db_def plain_def sample_normalised_def)
  have "db_inv sample_db" by (rule upsert_db_inv [OF empty_db_inv(1) sample_upsert])
  from pagination_complete [OF _ this p sample_window, of 2
      "\<lparr>f_canonical_user_id = None, f_vendor = None, f_vendor_user_id = None\<rparr>"]
  obtain rows where "follow 2 ?env \<lparr>f_canonical_user_id = None, f_vendor = None, f_vendor_user_id = None\<rparr> ?q sample_db
      = Inr (map ShotCore.truncate rows)" "set rows \<subseteq> set (shots sample_db)"
    using sample_codec_ok
    by (auto simp: club_param_def effective_limit_def MAX_LIMIT_def sample_db_def)
  then show ?thesis by (intro exI [of _ rows]) (simp add: sample_db_def)
qed

text \<open>What each check before the table refuses.\<close>

lemma window_error:
  "window env q = Inl e \<Longrightarrow>
     (\<exists>v. e = Domain (InvalidDateError ''since'' v) \<and> truthy (q_since q) = Some v)
     \<or> (\<exists>v. e = Domain (InvalidDateError ''until'' v) \<and> truthy (q_until q) = Some v)"
  by (auto simp: window_def window_date_def parseWindowDate_def split: sum.splits option.splits)

lemma club_error:
  "club_param q = Inl e \<Longrightarrow> \<exists>c. e = Domain (UnknownClubCodeError c) \<and> truthy (q_club q) = Some c \<and> c \<notin> set VALID_CLUB_CODES"
  by (auto simp: club_param_def split: option.splits if_splits)

lemma cursor_error:
  "cursor_key env v = Inl e \<Longrightarrow>
     (e = Domain InvalidCursorError \<and> truthy v \<noteq> None)
     \<or> (e = DbError \<and> (\<exists>c ts sid. truthy v = Some c \<and> decodeCursor (qe_codec env) c = Inr (ts, sid)
          \<and> cast_timestamptz (qe_codec env) (bind_text (qe_codec env) ts) = None))"
  by (auto simp: cursor_key_def decodeCursor_def Let_def split: option.splits sum.splits jsval.splits if_splits)

lemma executeQuery_error:
  "executeQuery env f q d = Inl e \<Longrightarrow>
     window env q = Inl e \<or> club_param q = Inl e \<or> cursor_key env (q_cursor q) = Inl e
     \<or> e = DbError \<and> effective_limit q < - 1"
  by (auto simp: executeQuery_def window_def Let_def split: sum.splits if_splits)

text \<open>A page holds rows of the table that match, at most as many as the limit says.\<close>

lemma executeQuery_page:
  assumes "executeQuery env f q d = Inr page"
  shows "pg_limit page = effective_limit q" and "int (length (pg_data page)) \<le> max 0 (effective_limit q)"
    and "list_all (\<lambda>c. list_ex (\<lambda>r. c = ShotCore.truncate r \<and> matches f q (pg_since page) (pg_until page) r) (shots d))
           (pg_data page)"
proof -
  let ?L = "effective_limit q"
  obtain since until_utc k where pre: "window_date env (q_since q) ''since'' (default_since env) = Inr since"
    "window_date env (q_until q) ''until'' (qe_now env) = Inr until_utc"
    "club_param q = Inr ()" "cursor_key env (q_cursor q) = Inr k" "\<not> ?L + 1 < 0"
    using assms by (auto simp: executeQuery_def Let_def split: sum.splits if_splits)
  let ?rows = "take (nat (?L + 1)) (ordered (\<lambda>r. matches f q since until_utc r \<and> below k r) d)"
  define pg where "pg = (if ?L < int (length ?rows) then slice_to ?L ?rows else ?rows)"
  obtain page' where "executeQuery env f q d = Inr page'" "pg_data page' = map ShotCore.truncate pg"
    "pg_limit page' = ?L" "pg_since page' = since" "pg_until page' = until_utc"
    using pre by (simp add: executeQuery_def Let_def pg_def)
  then have page: "pg_data page = map ShotCore.truncate pg" "pg_limit page = ?L" "pg_since page = since"
    "pg_until page = until_utc"
    using assms by simp_all
  have "set pg \<subseteq> set ?rows" using slice_to_subset [of ?L ?rows] by (simp add: pg_def split: if_split)
  then have "\<forall>r \<in> set pg. r \<in> set (shots d) \<and> matches f q since until_utc r"
    by (auto dest!: in_set_takeD subsetD simp: ordered_set)
  then show "list_all (\<lambda>c. list_ex (\<lambda>r. c = ShotCore.truncate r \<and> matches f q (pg_since page) (pg_until page) r)
      (shots d)) (pg_data page)"
    unfolding page list_all_iff list_ex_iff set_map ball_simps by blast
  show "pg_limit page = ?L" by (rule page)
  show "int (length (pg_data page)) \<le> max 0 ?L" by (auto simp: page pg_def slice_to_def)
qed

text \<open>C40: What a page may hold, and how a query fails. Every shot of a page is a stored shot within
  the window, of the user asked for (when the id is not empty), of the club, and no near duplicate
  unless those are asked for; there are at most \<open>limit\<close> of them, and no raw payload. A refused
  query names the reason, a domain error with status 400; the database refuses only a limit below
  \<open>- 1\<close> and a decodable cursor whose time it cannot read, and those become a 500.\<close>

theorem shots_query_result:
  "case executeQuery env f q d of
     Inr page \<Rightarrow>
       pg_limit page = effective_limit q \<and> int (length (pg_data page)) \<le> max 0 (effective_limit q)
       \<and> list_all (\<lambda>c. list_ex (\<lambda>r. c = ShotCore.truncate r \<and> matches f q (pg_since page) (pg_until page) r) (shots d))
           (pg_data page)
   | Inl e \<Rightarrow>
       (\<exists>v. e = Domain (InvalidDateError ''since'' v) \<and> truthy (q_since q) = Some v)
       \<or> (\<exists>v. e = Domain (InvalidDateError ''until'' v) \<and> truthy (q_until q) = Some v)
       \<or> (\<exists>c. e = Domain (UnknownClubCodeError c) \<and> truthy (q_club q) = Some c \<and> c \<notin> set VALID_CLUB_CODES)
       \<or> (e = Domain InvalidCursorError \<and> truthy (q_cursor q) \<noteq> None)
       \<or> (e = DbError \<and> (effective_limit q < - 1
            \<or> (\<exists>c ts sid. truthy (q_cursor q) = Some c \<and> decodeCursor (qe_codec env) c = Inr (ts, sid)
                 \<and> cast_timestamptz (qe_codec env) (bind_text (qe_codec env) ts) = None)))"
proof (cases "executeQuery env f q d")
  case (Inl e)
  from executeQuery_error [OF Inl] show ?thesis
    unfolding Inl sum.case using window_error club_error cursor_error by (elim disjE) blast+
next
  case (Inr page)
  then show ?thesis using executeQuery_page [OF Inr] by simp
qed

text \<open>Three edges of the interface. With \<open>limit=0\<close> a page is empty and, when a shot matches,
  still promises more without a cursor to get it; with \<open>limit=-1\<close> it does so even when no shot
  exists; any other negative limit is a database error. And an empty user id in the path is no
  filter: the query is the one for all users.\<close>

theorem shots_query_edges:
  assumes "window env q = Inr (since, until_utc)" and "club_param q = Inr ()" and "q_cursor q = None"
  shows "(effective_limit q = 0 \<longrightarrow>
            (\<exists>page. executeQuery env f q d = Inr page \<and> pg_data page = [] \<and> pg_next_cursor page = None
               \<and> (pg_has_more page \<longleftrightarrow> (\<exists>r \<in> set (shots d). matches f q since until_utc r))))
         \<and> (effective_limit q = - 1 \<longrightarrow>
            (\<exists>page. executeQuery env f q d = Inr page \<and> pg_data page = [] \<and> pg_next_cursor page = None
               \<and> pg_has_more page))
         \<and> (effective_limit q < - 1 \<longrightarrow> executeQuery env f q d = Inl DbError)
         \<and> listByCanonicalUser_shots env [] q d
             = executeQuery env \<lparr>f_canonical_user_id = None, f_vendor = None, f_vendor_user_id = None\<rparr> q d"
proof -
  have dates: "window_date env (q_since q) ''since'' (default_since env) = Inr since"
    "window_date env (q_until q) ''until'' (qe_now env) = Inr until_utc"
    using assms(1) by (auto simp: window_def split: sum.splits)
  have key: "cursor_key env (q_cursor q) = Inr None" by (simp add: cursor_key_def assms(3))
  let ?rows = "ordered (\<lambda>r. matches f q since until_utc r \<and> below None r) d"
  have ne: "0 < length ?rows \<longleftrightarrow> (\<exists>r \<in> set (shots d). matches f q since until_utc r)"
    by (auto simp: ordered_def filter_empty_conv below_def)
  have "executeQuery env f q d =
     (if effective_limit q + 1 < 0 then Inl DbError
      else let rows = take (nat (effective_limit q + 1)) ?rows; hasMore = (effective_limit q < int (length rows));
               page = (if hasMore then slice_to (effective_limit q) rows else rows)
           in Inr \<lparr>pg_data = map ShotCore.truncate page,
                   pg_next_cursor = (if hasMore \<and> page \<noteq> []
                     then Some (encodeCursor (qe_codec env) (captured_at_utc (last page)) (canonical_shot_id (last page)))
                     else None),
                   pg_has_more = hasMore, pg_limit = effective_limit q, pg_since = since, pg_until = until_utc\<rparr>)"
    by (simp add: executeQuery_def Let_def dates assms(2) key)
  note ex = this
  have zero: "effective_limit q = 0 \<longrightarrow>
            (\<exists>page. executeQuery env f q d = Inr page \<and> pg_data page = [] \<and> pg_next_cursor page = None
               \<and> (pg_has_more page \<longleftrightarrow> 0 < length ?rows))"
    by (cases ?rows) (simp_all add: ex slice_to_def Let_def)
  have minus: "effective_limit q = - 1 \<longrightarrow>
            (\<exists>page. executeQuery env f q d = Inr page \<and> pg_data page = [] \<and> pg_next_cursor page = None
               \<and> pg_has_more page)"
    by (simp add: ex slice_to_def Let_def)
  have neg: "effective_limit q < - 1 \<longrightarrow> executeQuery env f q d = Inl DbError" by (simp add: ex)
  have "matches \<lparr>f_canonical_user_id = Some [], f_vendor = None, f_vendor_user_id = None\<rparr> q s u
        = matches \<lparr>f_canonical_user_id = None, f_vendor = None, f_vendor_user_id = None\<rparr> q s u" for s u
    by (simp add: matches_def fun_eq_iff)
  then have "listByCanonicalUser_shots env [] q d
      = executeQuery env \<lparr>f_canonical_user_id = None, f_vendor = None, f_vendor_user_id = None\<rparr> q d"
    unfolding listByCanonicalUser_shots_def executeQuery_def by (simp only:)
  with zero minus neg show ?thesis unfolding ne by blast
qed

theorem shots_query_edges_witness:
  "\<exists>page. listByCanonicalUser_shots \<lparr>qe_legacy_date = (\<lambda>s. None), qe_codec = sample_codec, qe_now = 0\<rparr> ''nobody''
      (query_of \<lparr>p_since = None, p_until = None, p_club = None, p_cursor = None, p_limit = Some ''-1'',
                 p_include_near_duplicates = None\<rparr>) empty_db = Inr page
     \<and> pg_data page = [] \<and> pg_has_more page"
proof -
  let ?env = "\<lparr>qe_legacy_date = (\<lambda>s. None), qe_codec = sample_codec, qe_now = 0\<rparr>"
  let ?q = "query_of \<lparr>p_since = None, p_until = None, p_club = None, p_cursor = None, p_limit = Some ''-1'',
                 p_include_near_duplicates = None\<rparr>"
  have "parseInt ''-1'' = Some (- 1)" by code_simp
  moreover have "\<lfloor>- 1 :: rat\<rfloor> = - 1" using floor_of_int [of "- 1", where 'a = rat] by simp
  ultimately have q: "effective_limit ?q = - 1" "q_since ?q = None" "q_until ?q = None" "q_cursor ?q = None" "club_param ?q = Inr ()"
    by (simp_all add: query_of_def effective_limit_def MAX_LIMIT_def club_param_def)
  then have "window ?env ?q = Inr (iso_format (- 30 * 86400 * 1000), iso_format 0)"
    by (simp add: window_def window_date_def default_since_def DEFAULT_WINDOW_DAYS_def)
  from shots_query_edges [OF this q(5,4), of "\<lparr>f_canonical_user_id = Some ''nobody'', f_vendor = None, f_vendor_user_id = None\<rparr>" empty_db]
  show ?thesis using q(1) unfolding listByCanonicalUser_shots_def by auto
qed

end
