(* ===== verification/Stats.thy ===== *)
theory Stats
  imports Js_Sqrt Shots_Query Guards "HOL-Library.Multiset"
begin

text \<open>
  \<open>stats/stats.service.ts\<close> and \<open>stats/stats.controller.ts\<close>: per-club statistics over a window. The
  columns are double precision, so \<open>Number\<close> of a column is the number. The order PostgreSQL gives
  to rows with equal times is not specified: the query's order is a parameter.
\<close>

section \<open>Results\<close>

record NumericStats =
  ns_mean :: number
  ns_stdev :: number
  ns_p50 :: "number option"
  ns_p90 :: "number option"

record MeanStdev =
  ms_mean :: number
  ms_stdev :: number

record SpinStats =
  sp_mean :: "number option"
  sp_stdev :: "number option"
  sp_sample_size :: nat
  sp_vendors_excluded :: "Vendor list"

record ClubAggregate =
  ag_club_code :: club_code
  ag_sample_size :: nat
  ag_carry_m :: NumericStats
  ag_lateral_m :: NumericStats
  ag_ball_speed_mps :: MeanStdev
  ag_launch_angle_deg :: MeanStdev
  ag_spin_rpm :: SpinStats
  ag_lateral_sigma_m :: number
  ag_carry_sigma_m :: number
  ag_low_sample_size :: bool

record StatsQuery =
  sq_since :: "js_string option"
  sq_until :: "js_string option"
  sq_club :: "js_string option"

record StatsResult =
  st_user_id :: js_string
  st_since :: js_string
  st_until :: js_string
  st_club :: "js_string option"
  st_shot_count :: nat
  st_capped :: bool
  st_by_club :: "ClubAggregate list"

definition LOW_SAMPLE_SIZE_THRESHOLD :: nat where "LOW_SAMPLE_SIZE_THRESHOLD = 10"
definition MAX_STATS_ROWS :: nat where "MAX_STATS_ROWS = 10000"

section \<open>Numbers\<close>

definition sum_of :: "number list \<Rightarrow> number" where
  "sum_of xs = foldl (\<lambda>a b. fl (a + b)) 0 xs"

definition mean_of :: "number list \<Rightarrow> number" where
  "mean_of xs = fl (sum_of xs / of_nat (length xs))"

definition stddev :: "number list \<Rightarrow> number" where
  "stddev values =
     (if values = [] then 0
      else
        let mean = mean_of values;
            variance = fl (foldl (\<lambda>a b. fl (a + Math_pow2 (fl (b - mean)))) 0 values / of_nat (length values))
        in Math_sqrt variance)"

definition percentile_index :: "nat \<Rightarrow> nat \<Rightarrow> number" where
  "percentile_index p n = fl (fl (of_nat p / 100) * of_nat (n - 1))"

definition percentile :: "number list \<Rightarrow> nat \<Rightarrow> number" where
  "percentile xs p =
     (if xs = [] then 0
      else
        let idx = percentile_index p (length xs); lower = \<lfloor>idx\<rfloor>; upper = \<lceil>idx\<rceil>
        in if lower = upper then xs ! nat lower
           else fl (xs ! nat lower
                  + fl (fl (xs ! nat upper - xs ! nat lower) * fl (idx - of_int lower))))"

section \<open>Grouping\<close>

text \<open>The map from clubs to their rows, in the order in which the clubs were first met.\<close>

fun push_group :: "'k \<Rightarrow> 'a \<Rightarrow> ('k \<times> 'a list) list \<Rightarrow> ('k \<times> 'a list) list" where
  "push_group k x [] = [(k, [x])]"
| "push_group k x ((k', xs) # g) = (if k = k' then (k', xs @ [x]) # g else (k', xs) # push_group k x g)"

definition group_by :: "('a \<Rightarrow> 'k) \<Rightarrow> 'a list \<Rightarrow> ('k \<times> 'a list) list" where
  "group_by f rows = foldl (\<lambda>g x. push_group (f x) x g) [] rows"

section \<open>The service\<close>

definition numeric_stats :: "bool \<Rightarrow> number list \<Rightarrow> NumericStats" where
  "numeric_stats isLowSample vals =
     \<lparr>ns_mean = mean_of vals, ns_stdev = stddev vals,
      ns_p50 = (if isLowSample then None else Some (percentile vals 50)),
      ns_p90 = (if isLowSample then None else Some (percentile vals 90))\<rparr>"

text \<open>\<open>[...new Set(xs)]\<close> keeps the first occurrences.\<close>

fun first_occurrences :: "'a list \<Rightarrow> 'a list" where
  "first_occurrences [] = []"
| "first_occurrences (x # xs) = x # filter (\<lambda>y. y \<noteq> x) (first_occurrences xs)"

definition spin_stats :: "NormalisedShot list \<Rightarrow> SpinStats" where
  "spin_stats rows =
     (let spinVals = sort (map of_int (List.map_filter spin_rpm rows))
      in \<lparr>sp_mean = (if spinVals \<noteq> [] then Some (mean_of spinVals) else None),
          sp_stdev = (if spinVals \<noteq> [] then Some (stddev spinVals) else None),
          sp_sample_size = length spinVals,
          sp_vendors_excluded = first_occurrences (map vendor (filter (\<lambda>s. spin_rpm s = None) rows))\<rparr>)"

definition club_aggregate :: "club_code \<Rightarrow> NormalisedShot list \<Rightarrow> ClubAggregate" where
  "club_aggregate clubCode rows =
     (let n = length rows;
          isLowSample = (n < LOW_SAMPLE_SIZE_THRESHOLD);
          carryVals = sort (map carry_m rows);
          lateralVals = sort (map lateral_m rows);
          speedVals = map ball_speed_mps rows;
          angleVals = map launch_angle_deg rows
      in \<lparr>ag_club_code = clubCode, ag_sample_size = n,
          ag_carry_m = numeric_stats isLowSample carryVals,
          ag_lateral_m = numeric_stats isLowSample lateralVals,
          ag_ball_speed_mps = \<lparr>ms_mean = mean_of speedVals, ms_stdev = stddev speedVals\<rparr>,
          ag_launch_angle_deg = \<lparr>ms_mean = mean_of angleVals, ms_stdev = stddev angleVals\<rparr>,
          ag_spin_rpm = spin_stats rows,
          ag_lateral_sigma_m = stddev lateralVals, ag_carry_sigma_m = stddev carryVals,
          ag_low_sample_size = isLowSample\<rparr>)"

text \<open>The statement's conditions. A club that is defined is compared with the enum column, whose
  input function rejects a text that is no label: only the empty one gets this far.\<close>

definition stats_row :: "UserFilter \<Rightarrow> js_string option \<Rightarrow> js_string \<Rightarrow> js_string \<Rightarrow> NormalisedShot \<Rightarrow> bool" where
  "stats_row f club since until_utc r \<longleftrightarrow>
     pred_option (\<lambda>c. canonical_user_id r = Some c) (f_canonical_user_id f)
     \<and> pred_option (\<lambda>v. vendor r = v) (f_vendor f)
     \<and> pred_option (\<lambda>u. vendor_user_id r = u) (f_vendor_user_id f)
     \<and> instant since \<le> instant (captured_at_utc r)
     \<and> instant (captured_at_utc r) \<le> instant until_utc
     \<and> duplicate_of r = None
     \<and> club_code r \<noteq> Club ''PT''
     \<and> pred_option (\<lambda>c. club_code r = Club c) club"

text \<open>\<open>ORDER BY captured_at_utc DESC\<close>.\<close>

definition newest_first :: "(NormalisedShot list \<Rightarrow> NormalisedShot list) \<Rightarrow> bool" where
  "newest_first order \<longleftrightarrow>
     (\<forall>xs. mset (order xs) = mset xs
        \<and> sorted_wrt (\<lambda>a b. instant (captured_at_utc b) \<le> instant (captured_at_utc a)) (order xs))"

definition stats_of ::
    "(NormalisedShot list \<Rightarrow> NormalisedShot list) \<Rightarrow> UserFilter \<Rightarrow> js_string \<Rightarrow> StatsQuery \<Rightarrow> js_string
       \<Rightarrow> js_string \<Rightarrow> Db \<Rightarrow> StatsResult" where
  "stats_of order f userLabel q since until_utc d =
     (let rows = take MAX_STATS_ROWS (order (filter (stats_row f (sq_club q) since until_utc) (shots d)))
      in \<lparr>st_user_id = userLabel, st_since = since, st_until = until_utc, st_club = sq_club q,
          st_shot_count = length rows, st_capped = (length rows = MAX_STATS_ROWS),
          st_by_club = map (\<lambda>(c, xs). club_aggregate c xs) (group_by club_code rows)\<rparr>)"

definition executeStatsQuery ::
    "(NormalisedShot list \<Rightarrow> NormalisedShot list) \<Rightarrow> QueryEnv \<Rightarrow> UserFilter \<Rightarrow> js_string \<Rightarrow> StatsQuery \<Rightarrow> Db \<Rightarrow> exn + StatsResult" where
  "executeStatsQuery order env f userLabel q d =
     (case window_date env (sq_since q) ''since'' (default_since env) of
        Inl e \<Rightarrow> Inl e
      | Inr since \<Rightarrow>
      (case window_date env (sq_until q) ''until'' (qe_now env) of
        Inl e \<Rightarrow> Inl e
      | Inr until_utc \<Rightarrow>
          if until_utc \<le> since
          then Inl (Domain (InvalidDateError ''since''
                 (''since ('' @ since @ '') must be before until ('' @ until_utc @ '')'')))
          else case truthy (sq_club q) of
            Some c \<Rightarrow>
              if c \<notin> set VALID_CLUB_CODES then Inl (Domain (UnknownClubCodeError c))
              else Inr (stats_of order f userLabel q since until_utc d)
          | None \<Rightarrow>
              if sq_club q \<noteq> None then Inl DbError
              else Inr (stats_of order f userLabel q since until_utc d)))"

definition getStats ::
    "(NormalisedShot list \<Rightarrow> NormalisedShot list) \<Rightarrow> QueryEnv \<Rightarrow> js_string \<Rightarrow> StatsQuery \<Rightarrow> Db \<Rightarrow> exn + StatsResult" where
  "getStats order env userId q d =
     executeStatsQuery order env
       \<lparr>f_canonical_user_id = Some userId, f_vendor = None, f_vendor_user_id = None\<rparr> userId q d"

definition getStatsByVendorUser ::
    "(NormalisedShot list \<Rightarrow> NormalisedShot list) \<Rightarrow> QueryEnv \<Rightarrow> js_string \<Rightarrow> js_string \<Rightarrow> StatsQuery \<Rightarrow> Db
       \<Rightarrow> exn + StatsResult" where
  "getStatsByVendorUser order env vendor_name vendorUserId q d =
     (case map_of VALID_VENDORS vendor_name of
        None \<Rightarrow> Inl (Domain (UnknownVendorError vendor_name))
      | Some v \<Rightarrow>
          executeStatsQuery order env
            \<lparr>f_canonical_user_id = None, f_vendor = Some v, f_vendor_user_id = Some vendorUserId\<rparr>
            (vendor_name @ ''/'' @ vendorUserId) q d)"

text \<open>The controller's routes stand behind the internal guard.\<close>

definition stats_endpoint ::
    "(NormalisedShot list \<Rightarrow> NormalisedShot list) \<Rightarrow> Env \<Rightarrow> headers \<Rightarrow> QueryEnv \<Rightarrow> js_string \<Rightarrow> StatsQuery \<Rightarrow> Db
       \<Rightarrow> exn + StatsResult" where
  "stats_endpoint order e hs env userId q d =
     (case InternalApiGuard e hs of Inl x \<Rightarrow> Inl x | Inr _ \<Rightarrow> getStats order env userId q d)"

definition vendor_stats_endpoint ::
    "(NormalisedShot list \<Rightarrow> NormalisedShot list) \<Rightarrow> Env \<Rightarrow> headers \<Rightarrow> QueryEnv \<Rightarrow> js_string \<Rightarrow> js_string
       \<Rightarrow> StatsQuery \<Rightarrow> Db \<Rightarrow> exn + StatsResult" where
  "vendor_stats_endpoint order e hs env vendor_name vendorUserId q d =
     (case InternalApiGuard e hs of Inl x \<Rightarrow> Inl x | Inr _ \<Rightarrow> getStatsByVendorUser order env vendor_name vendorUserId q d)"

section \<open>Lemmas on groups\<close>

lemma push_group_lookup:
  "map_of (push_group k x g) k' =
     (if k' = k then Some ((case map_of g k of Some xs \<Rightarrow> xs | None \<Rightarrow> []) @ [x]) else map_of g k')"
  by (induction k x g rule: push_group.induct) auto

lemma push_group_keys: "set (map fst (push_group k x g)) = insert k (set (map fst g))"
  by (induction k x g rule: push_group.induct) auto

lemma push_group_distinct: "distinct (map fst g) \<Longrightarrow> distinct (map fst (push_group k x g))"
proof (induction k x g rule: push_group.induct)
  case (2 k x k' xs g)
  then show ?case using push_group_keys [of k x g] by (cases "k = k'") simp_all
qed simp

lemma push_group_sum: "(\<Sum>(k, xs)\<leftarrow>push_group k x g. length xs) = Suc (\<Sum>(k, xs)\<leftarrow>g. length xs)"
  by (induction k x g rule: push_group.induct) auto

lemma group_by_snoc: "group_by f (rows @ [x]) = push_group (f x) x (group_by f rows)"
  by (simp add: group_by_def)

lemma group_by_distinct: "distinct (map fst (group_by f rows))"
  by (induction rows rule: rev_induct) (simp_all add: group_by_snoc push_group_distinct, simp add: group_by_def)

lemma group_by_sum: "(\<Sum>(k, xs)\<leftarrow>group_by f rows. length xs) = length rows"
  by (induction rows rule: rev_induct) (simp_all add: group_by_snoc push_group_sum, simp add: group_by_def)

lemma group_by_lookup:
  "map_of (group_by f rows) k =
     (if filter (\<lambda>x. f x = k) rows = [] then None else Some (filter (\<lambda>x. f x = k) rows))"
proof (induction rows rule: rev_induct)
  case Nil
  then show ?case by (simp add: group_by_def)
next
  case (snoc x rows)
  then show ?case by (auto simp: group_by_snoc push_group_lookup)
qed

lemma group_by_mem:
  assumes "(k, xs) \<in> set (group_by f rows)"
  shows "xs = filter (\<lambda>x. f x = k) rows" and "xs \<noteq> []"
proof -
  have "map_of (group_by f rows) k = Some xs"
    using assms by (simp add: group_by_distinct)
  then show "xs = filter (\<lambda>x. f x = k) rows" and "xs \<noteq> []"
    by (simp_all add: group_by_lookup split: if_splits)
qed

section \<open>Lemmas on percentiles\<close>

lemma fl_half: "\<bar>k\<bar> \<le> 2 ^ 40 \<Longrightarrow> fl (of_int k / 2) = of_int k / 2"
proof -
  assume k: "\<bar>k\<bar> \<le> 2 ^ 40"
  show ?thesis
  proof (cases "k = 0")
    case False
    have "\<bar>of_int k :: rat\<bar> \<le> 2 ^ 40" using k by (metis of_int_abs of_int_le_iff of_int_numeral of_int_power)
    then have "\<bar>of_int k / 2 :: rat\<bar> < 2 powi 45" by (simp add: power_int_def)
    then have "flog2 \<bar>of_int k / 2 :: rat\<bar> < 45" using False by (intro flog2_less) auto
    then have "ulp_exp (of_int k / 2) \<le> - 1" by (simp add: ulp_exp_def)
    then show ?thesis by (intro fl_grid [of _ k "- 1"]) (simp_all add: power_int_def)
  qed simp
qed

lemma index_50: "n \<le> 10000 \<Longrightarrow> percentile_index 50 n = of_nat (n - 1) / 2"
proof -
  assume n: "n \<le> 10000"
  have h: "fl (1 / 2 :: rat) = 1 / 2" using fl_half [of 1] by simp
  have "fl (of_int (int (n - 1)) / 2) = of_int (int (n - 1)) / 2" by (rule fl_half) (use n in simp)
  then show ?thesis by (simp add: percentile_index_def h)
qed

lemma fl_nine_tenths: "9 / 10 \<le> fl (9 / 10)" "fl (9 / 10) \<le> 9 / 10 + 1 / 10 ^ 15"
  by (simp_all add: fl_eval)

lemma index_90:
  assumes "0 < n" and "n \<le> 10000"
  defines "k \<equiv> 9 * (n - 1) div 10"
  shows "of_nat k \<le> percentile_index 90 n" and "percentile_index 90 n \<le> of_nat k + 91 / 100"
    and "percentile_index 90 n \<le> of_nat (n - 1)"
proof -
  let ?m = "of_nat (n - 1) :: rat"
  have m: "0 \<le> ?m" "?m \<le> 10000" using assms(1,2) by auto
  have i: "percentile_index 90 n = fl (fl (9 / 10) * ?m)" by (simp add: percentile_index_def)
  have int: "fl (of_nat j) = of_nat j" if "j \<le> 10000" for j
    using fl_int_small [of "int j"] that by simp
  have "10 * k \<le> 9 * (n - 1)" "9 * (n - 1) \<le> 10 * k + 9" unfolding k_def by presburger+
  then have "of_nat (10 * k) \<le> (of_nat (9 * (n - 1)) :: rat)" "(of_nat (9 * (n - 1)) :: rat) \<le> of_nat (10 * k + 9)"
    by (simp_all only: of_nat_le_iff)
  then have b: "10 * of_nat k \<le> 9 * ?m" "9 * ?m \<le> 10 * of_nat k + 9"
    by (simp_all only: of_nat_mult of_nat_numeral of_nat_add)
  have k: "k \<le> 10000" using assms(2) by (simp add: k_def)
  have lo: "9 / 10 * ?m \<le> fl (9 / 10) * ?m" using fl_nine_tenths(1) m(1) by (intro mult_right_mono)
  have hi: "fl (9 / 10) * ?m \<le> (9 / 10 + 1 / 10 ^ 15) * ?m" using fl_nine_tenths(2) m(1) by (intro mult_right_mono)
  also have "\<dots> \<le> 9 / 10 * ?m + 1 / 10 ^ 11" using m by (simp add: algebra_simps)
  finally have hi: "fl (9 / 10) * ?m \<le> 9 / 10 * ?m + 1 / 10 ^ 11" .
  have "of_nat k \<le> fl (9 / 10) * ?m" using b(1) lo by linarith
  then show "of_nat k \<le> percentile_index 90 n" using fl_mono int [OF k] i by metis
  have abs: "\<bar>fl (9 / 10) * ?m\<bar> < 2 ^ 40" using lo hi m by (simp add: abs_less_iff)
  show "percentile_index 90 n \<le> of_nat k + 91 / 100"
  proof -
    have "fl (fl (9 / 10) * ?m) \<le> fl (9 / 10) * ?m + 1 / 2 ^ 14"
      using abs_le_D1 [OF fl_err_small [OF abs]] by linarith
    also have "\<dots> \<le> 9 / 10 * ?m + 1 / 10 ^ 11 + 1 / 2 ^ 14" using hi by simp
    also have "\<dots> \<le> of_nat k + 91 / 100" using b(2) by simp
    finally show ?thesis by (simp only: i)
  qed
  have "fl (9 / 10) * ?m \<le> 1 * ?m" using fl_nine_tenths(2) m(1) by (intro mult_right_mono) auto
  then show "percentile_index 90 n \<le> ?m"
    using fl_mono [of "fl (9 / 10) * ?m" ?m] int [of "n - 1"] assms(2) i by simp
qed

text \<open>A percentile lies between the two values around its index.\<close>

lemma percentile_between:
  assumes "xs \<noteq> []" and "sorted xs" and "\<forall>x \<in> set xs. is_double x"
    and idx: "percentile_index p (length xs) = idx"
    and "of_nat k \<le> idx" and "idx \<le> of_nat k + 91 / 100" and "idx \<le> of_nat (length xs - 1)"
  shows "xs ! k \<le> percentile xs p" and "percentile xs p \<le> xs ! (if idx = of_nat k then k else Suc k)"
    and "k < length xs" and "idx \<noteq> of_nat k \<Longrightarrow> Suc k < length xs"
proof -
  have l: "\<lfloor>idx\<rfloor> = int k" using assms(5,6) by (intro floor_unique) auto
  have "of_nat k \<le> (of_nat (length xs - 1) :: rat)" using assms(5,7) by linarith
  then show k: "k < length xs" using assms(1) by (cases xs) auto
  show sk: "Suc k < length xs" if "idx \<noteq> of_nat k"
  proof -
    have "of_nat k < (of_nat (length xs - 1) :: rat)" using assms(5,7) that by linarith
    then show ?thesis by simp
  qed
  have "xs ! k \<le> percentile xs p \<and> percentile xs p \<le> xs ! (if idx = of_nat k then k else Suc k)"
  proof (cases "idx = of_nat k")
    case True
    then show ?thesis using assms(1) l by (simp add: percentile_def idx Let_def)
  next
    case False
    then have u: "\<lceil>idx\<rceil> = int (Suc k)" using assms(5,6) by (intro ceiling_unique) auto
    let ?a = "xs ! k" and ?b = "xs ! Suc k" and ?f = "fl (idx - of_nat k)"
    have d: "is_double ?a" "is_double ?b" using assms(3) k sk [OF False] by auto
    have ab: "?a \<le> ?b" using assms(2) sk [OF False] by (simp add: sorted_nth_mono)
    have f0: "0 \<le> ?f" using assms(5) by (intro fl_nonneg) simp
    have "idx - of_nat k \<le> 91 / 100" using assms(6) by linarith
    then have "?f \<le> fl (91 / 100)" by (rule fl_mono)
    also have "\<dots> \<le> 23 / 25" by (simp add: fl_eval)
    finally have f1: "?f \<le> 23 / 25" .
    have "percentile xs p = fl (?a + fl (fl (?b - ?a) * ?f))"
      using assms(1) by (simp add: percentile_def idx Let_def l u nat_add_distrib)
    then show ?thesis using interpolation_bounds [OF d ab f0 f1] False by simp
  qed
  then show "xs ! k \<le> percentile xs p" and "percentile xs p \<le> xs ! (if idx = of_nat k then k else Suc k)"
    by simp_all
qed

lemma percentile_50_90:
  assumes "10 \<le> length xs" and "length xs \<le> 10000" and "sorted xs" and "\<forall>x \<in> set xs. is_double x"
  shows "hd xs \<le> percentile xs 50" and "percentile xs 50 \<le> percentile xs 90" and "percentile xs 90 \<le> last xs"
proof -
  let ?n = "length xs"
  have ne: "xs \<noteq> []" "0 < ?n" using assms(1) by auto
  define j where "j = (?n - 1) div 2"
  define k where "k = 9 * (?n - 1) div 10"
  have half: "of_nat j \<le> of_nat (?n - 1) / (2::rat)" "of_nat (?n - 1) / 2 \<le> of_nat j + (91 / 100 :: rat)"
  proof -
    have "2 * j \<le> ?n - 1" "?n - 1 \<le> 2 * j + 1" unfolding j_def by presburger+
    then have "of_nat (2 * j) \<le> (of_nat (?n - 1) :: rat)" "(of_nat (?n - 1) :: rat) \<le> of_nat (2 * j + 1)"
      by (simp_all only: of_nat_le_iff)
    then show "of_nat j \<le> of_nat (?n - 1) / (2::rat)" "of_nat (?n - 1) / 2 \<le> of_nat j + (91 / 100 :: rat)"
      by simp_all
  qed
  have "of_nat (?n - 1) / 2 \<le> (of_nat (?n - 1) :: rat)" by simp
  note p50 = percentile_between [OF ne(1) assms(3,4) index_50 [OF assms(2)] half this]
  note p90 = percentile_between [OF ne(1) assms(3,4) refl index_90 [OF ne(2) assms(2), folded k_def]]
  have "xs ! 0 \<le> xs ! j" using assms(3) p50(3) by (simp add: sorted_nth_mono)
  then show "hd xs \<le> percentile xs 50" using p50(1) ne by (simp add: hd_conv_nth)
  have "2 * j \<le> ?n - 1" "9 * (?n - 1) < 10 * k + 10"
    using div_mult_mod_eq [of "9 * (?n - 1)" 10] by (simp_all add: j_def k_def)
  then have jk: "Suc j \<le> k" using assms(1) by linarith
  have "k < ?n" by (rule p90(3))
  have "xs ! (if of_nat (?n - 1) / 2 = (of_nat j :: rat) then j else Suc j) \<le> xs ! k"
    using jk \<open>k < ?n\<close> by (intro sorted_nth_mono [OF assms(3)]) auto
  with p50(2) have "percentile xs 50 \<le> xs ! k" by (rule order_trans)
  then show "percentile xs 50 \<le> percentile xs 90" using p90(1) by linarith
  have "xs ! (if percentile_index 90 ?n = of_nat k then k else Suc k) \<le> xs ! (?n - 1)"
    using p90(4) \<open>k < ?n\<close> by (intro sorted_nth_mono [OF assms(3)]) (auto split: if_splits)
  with p90(2) have "percentile xs 90 \<le> xs ! (?n - 1)" by (rule order_trans)
  then show "percentile xs 90 \<le> last xs" using ne by (simp add: last_conv_nth)
qed

section \<open>Results of a query\<close>

text \<open>What a group's numeric statistics are: nothing but the mean and deviation for a low sample,
  otherwise two percentiles between the least and the greatest value, in order.\<close>

definition numeric_ok :: "bool \<Rightarrow> number list \<Rightarrow> NumericStats \<Rightarrow> bool" where
  "numeric_ok low vals s \<longleftrightarrow>
     0 \<le> ns_stdev s
     \<and> (if low then ns_p50 s = None \<and> ns_p90 s = None
        else \<exists>a b. ns_p50 s = Some a \<and> ns_p90 s = Some b
               \<and> (\<exists>u \<in> set vals. u \<le> a) \<and> a \<le> b \<and> (\<exists>v \<in> set vals. b \<le> v))"

lemma stddev_nonneg: "0 \<le> stddev xs"
  by (simp add: stddev_def Math_sqrt_nonneg Let_def)

lemma numeric_stats_ok:
  assumes "length vals \<le> 10000" and "\<forall>x \<in> set vals. is_double x"
  shows "numeric_ok (length vals < 10) vals (numeric_stats (length vals < 10) (sort vals))"
proof (cases "length vals < 10")
  case True
  then show ?thesis by (simp add: numeric_ok_def numeric_stats_def stddev_nonneg)
next
  case False
  then have ne: "sort vals \<noteq> []" by (metis length_sort list.size(3) not_less_iff_gr_or_eq zero_less_numeral)
  have "hd (sort vals) \<in> set vals" "last (sort vals) \<in> set vals"
    using hd_in_set [OF ne] last_in_set [OF ne] by simp_all
  then show ?thesis
    using False assms percentile_50_90 [of "sort vals"]
    by (auto simp: numeric_ok_def numeric_stats_def stddev_nonneg)
qed

definition aggregate_ok :: "NormalisedShot list \<Rightarrow> ClubAggregate \<Rightarrow> bool" where
  "aggregate_ok rows a \<longleftrightarrow>
     (let g = filter (\<lambda>r. club_code r = ag_club_code a) rows in
      g \<noteq> [] \<and> ag_sample_size a = length g \<and> ag_low_sample_size a = (length g < 10)
      \<and> numeric_ok (length g < 10) (map carry_m g) (ag_carry_m a)
      \<and> numeric_ok (length g < 10) (map lateral_m g) (ag_lateral_m a)
      \<and> sp_sample_size (ag_spin_rpm a) = length (filter (\<lambda>r. spin_rpm r \<noteq> None) g)
      \<and> set (sp_vendors_excluded (ag_spin_rpm a)) = {vendor r |r. r \<in> set g \<and> spin_rpm r = None}
      \<and> (sp_mean (ag_spin_rpm a) = None \<longleftrightarrow> (\<forall>r \<in> set g. spin_rpm r = None)))"

lemma first_occurrences_set: "set (first_occurrences xs) = set xs"
  by (induction xs) auto

lemma map_filter_length: "length (List.map_filter f xs) = length (filter (\<lambda>x. f x \<noteq> None) xs)"
  by (induction xs) (auto simp: map_filter_simps split: option.splits)

lemma map_filter_Nil: "List.map_filter f xs = [] \<longleftrightarrow> (\<forall>x \<in> set xs. f x = None)"
  by (induction xs) (auto simp: map_filter_simps split: option.splits)

lemma spin_stats_fields:
  "sp_sample_size (spin_stats g) = length (filter (\<lambda>r. spin_rpm r \<noteq> None) g)"
  "set (sp_vendors_excluded (spin_stats g)) = {vendor r |r. r \<in> set g \<and> spin_rpm r = None}"
  "sp_mean (spin_stats g) = None \<longleftrightarrow> (\<forall>r \<in> set g. spin_rpm r = None)"
proof -
  have "sort (map of_int (List.map_filter spin_rpm g)) = ([] :: rat list) \<longleftrightarrow> List.map_filter spin_rpm g = []"
    by (simp flip: set_empty)
  then show "sp_mean (spin_stats g) = None \<longleftrightarrow> (\<forall>r \<in> set g. spin_rpm r = None)"
    by (simp add: spin_stats_def Let_def map_filter_Nil)
qed (auto simp: spin_stats_def Let_def map_filter_length first_occurrences_set)

lemma club_aggregate_ok:
  assumes "(c, g) \<in> set (group_by club_code rows)" and "length rows \<le> 10000"
    and "\<forall>r \<in> set rows. is_double (carry_m r) \<and> is_double (lateral_m r)"
  shows "aggregate_ok rows (club_aggregate c g)"
proof -
  note g = group_by_mem [OF assms(1)]
  have sub: "set g \<subseteq> set rows" using g(1) by auto
  have "length (filter P xs) \<le> length xs" for P and xs :: "NormalisedShot list" by (rule length_filter_le)
  then have len: "length g \<le> 10000" using g(1) assms(2) order_trans by metis
  have dbl: "\<forall>x \<in> set (map carry_m g). is_double x" "\<forall>x \<in> set (map lateral_m g). is_double x"
    using assms(3) sub by auto
  have n: "numeric_ok (length g < 10) (map carry_m g) (numeric_stats (length g < 10) (sort (map carry_m g)))"
    "numeric_ok (length g < 10) (map lateral_m g) (numeric_stats (length g < 10) (sort (map lateral_m g)))"
    using numeric_stats_ok [of "map carry_m g"] numeric_stats_ok [of "map lateral_m g"] len dbl by simp_all
  note s = spin_stats_fields [of g]
  show ?thesis
    using n s g by (simp add: aggregate_ok_def club_aggregate_def Let_def LOW_SAMPLE_SIZE_THRESHOLD_def)
qed

text \<open>The rows of an answer: the newest of those that match, at most the cap.\<close>

definition newest_rows :: "NormalisedShot list \<Rightarrow> NormalisedShot list \<Rightarrow> bool" where
  "newest_rows matching rows \<longleftrightarrow>
     mset rows \<subseteq># mset matching \<and> length rows = min 10000 (length matching)
     \<and> (\<forall>r \<in> set rows. \<forall>x \<in># mset matching - mset rows. instant (captured_at_utc x) \<le> instant (captured_at_utc r))"

lemma newest_rows_take:
  assumes "newest_first order"
  shows "newest_rows m (take MAX_STATS_ROWS (order m))"
proof -
  let ?n = MAX_STATS_ROWS
  have o: "mset (order m) = mset m"
    and s: "sorted_wrt (\<lambda>a b. instant (captured_at_utc b) \<le> instant (captured_at_utc a)) (order m)"
    using assms by (simp_all add: newest_first_def)
  have split: "mset m = mset (take ?n (order m)) + mset (drop ?n (order m))"
    using o by (metis append_take_drop_id mset_append)
  have "length (order m) = length m" using o by (metis size_mset)
  moreover have "instant (captured_at_utc x) \<le> instant (captured_at_utc r)"
    if "r \<in> set (take ?n (order m))" "x \<in> set (drop ?n (order m))" for r x
    using s that by (metis append_take_drop_id sorted_wrt_append)
  ultimately show ?thesis by (simp add: newest_rows_def split MAX_STATS_ROWS_def min.commute)
qed

lemma executeStatsQuery_Inr:
  assumes "executeStatsQuery order env f label q d = Inr res"
  shows "\<exists>since until_utc. since < until_utc \<and> res = stats_of order f label q since until_utc d"
    and "sq_club q \<noteq> Some []" and "pred_option (\<lambda>c. c \<in> set VALID_CLUB_CODES) (sq_club q)"
proof -
  have "\<exists>since until_utc. since < until_utc \<and> res = stats_of order f label q since until_utc d
      \<and> sq_club q \<noteq> Some [] \<and> pred_option (\<lambda>c. c \<in> set VALID_CLUB_CODES) (sq_club q)"
  proof (cases "sq_club q")
    case None
    then show ?thesis using assms
      by (simp add: executeStatsQuery_def not_le split: sum.splits if_splits) blast
  next
    case (Some c)
    then show ?thesis using assms
      by (cases c) (simp_all add: executeStatsQuery_def not_le split: sum.splits if_splits, blast)
  qed
  then show "\<exists>since until_utc. since < until_utc \<and> res = stats_of order f label q since until_utc d"
    and "sq_club q \<noteq> Some []" and "pred_option (\<lambda>c. c \<in> set VALID_CLUB_CODES) (sq_club q)"
    by blast+
qed

lemma ag_fields: "ag_club_code (club_aggregate c g) = c" "ag_sample_size (club_aggregate c g) = length g"
  by (simp_all add: club_aggregate_def Let_def)

section \<open>Properties\<close>

text \<open>C18: An answered statistics query covers the newest matching shots, at most ten thousand, of a
  window that is not empty; duplicates and putts are never counted. Each club met appears once,
  and the sample sizes add up to the shot count. Below ten shots a club has no percentiles; from
  ten on, floating-point rounding included, the least value is at most the 50th percentile, which is at
  most the 90th, which is at most the greatest value; deviations are not negative; spin statistics cover
  exactly the shots with a spin, and name the vendors of the others. \<open>capped\<close> is
  set when ten thousand or more shots match.\<close>

theorem stats_result:
  assumes "newest_first order"
    and "\<forall>r \<in> set (shots d). is_double (carry_m r) \<and> is_double (lateral_m r)"
    and "executeStatsQuery order env f label q d = Inr res"
    and "matching = filter (stats_row f (sq_club q) (st_since res) (st_until res)) (shots d)"
  shows "st_since res < st_until res
       \<and> (\<exists>rows. newest_rows matching rows \<and> st_shot_count res = length rows
            \<and> list_all (aggregate_ok rows) (st_by_club res)
            \<and> set (map ag_club_code (st_by_club res)) = club_code ` set rows)
       \<and> st_capped res = (10000 \<le> length matching)
       \<and> distinct (map ag_club_code (st_by_club res))
       \<and> sum_list (map ag_sample_size (st_by_club res)) = st_shot_count res
       \<and> Club ''PT'' \<notin> set (map ag_club_code (st_by_club res))"
proof -
  obtain since until_utc where w: "since < until_utc" and res: "res = stats_of order f label q since until_utc d"
    using executeStatsQuery_Inr(1) [OF assms(3)] by blast
  have m: "matching = filter (stats_row f (sq_club q) since until_utc) (shots d)"
    by (simp add: assms(4) res stats_of_def Let_def)
  define rows where "rows = take MAX_STATS_ROWS (order matching)"
  let ?g = "group_by club_code rows"
  note n = newest_rows_take [OF assms(1), of matching, folded rows_def]
  have by_club: "st_by_club res = map (\<lambda>(c, xs). club_aggregate c xs) ?g"
    and count: "st_shot_count res = length rows" and capped: "st_capped res = (length rows = 10000)"
    and window: "st_since res = since" "st_until res = until_utc"
    by (simp_all add: res stats_of_def Let_def m rows_def MAX_STATS_ROWS_def)
  have sub: "set rows \<subseteq> set matching"
    using n by (metis newest_rows_def set_mset_mono set_mset_mset)
  have codes: "map ag_club_code (st_by_club res) = map fst ?g"
    by (auto simp: by_club ag_fields)
  have sizes: "map ag_sample_size (st_by_club res) = map (\<lambda>(k, xs). length xs) ?g"
    by (auto simp: by_club ag_fields)
  have len: "length rows \<le> 10000" using n by (simp add: newest_rows_def)
  have dbl: "\<forall>r \<in> set rows. is_double (carry_m r) \<and> is_double (lateral_m r)"
    using sub assms(2) by (auto simp: m)
  have ok: "list_all (aggregate_ok rows) (st_by_club res)"
    using club_aggregate_ok [OF _ len dbl] by (auto simp: by_club list_all_iff)
  have keys: "k \<in> set (map fst ?g) \<longleftrightarrow> k \<in> club_code ` set rows" for k
  proof -
    have "k \<in> set (map fst ?g) \<longleftrightarrow> map_of ?g k \<noteq> None" by (simp add: map_of_eq_None_iff)
    then show ?thesis by (auto simp: group_by_lookup filter_empty_conv image_iff)
  qed
  have "Club ''PT'' \<notin> club_code ` set rows" using sub by (auto simp: m stats_row_def)
  moreover have "distinct (map fst ?g)" "(\<Sum>(k, xs)\<leftarrow>?g. length xs) = length rows"
    by (rule group_by_distinct, rule group_by_sum)
  moreover have "length rows = 10000 \<longleftrightarrow> 10000 \<le> length matching" using n by (auto simp: newest_rows_def)
  ultimately show ?thesis
    using w window n ok count capped codes sizes keys
    by (intro conjI exI [of _ rows]) auto
qed

definition sample_order :: "NormalisedShot list \<Rightarrow> NormalisedShot list" where
  "sample_order xs = rev (sort_key (\<lambda>r. instant (captured_at_utc r)) xs)"

lemma sample_newest_first: "newest_first sample_order"
  using sorted_sort_key [of "\<lambda>r :: NormalisedShot. instant (captured_at_utc r)"]
  by (simp add: newest_first_def sample_order_def sorted_wrt_rev sorted_wrt_map)

definition stats_env :: QueryEnv where
  "stats_env = \<lparr>qe_legacy_date = (\<lambda>s. None), qe_codec = sample_codec, qe_now = 0\<rparr>"

lemma sample_stats:
  "executeStatsQuery sample_order stats_env f label \<lparr>sq_since = None, sq_until = None, sq_club = None\<rparr> d
     = Inr (stats_of sample_order f label \<lparr>sq_since = None, sq_until = None, sq_club = None\<rparr>
              (iso_format (- 30 * 86400 * 1000)) (iso_format 0) d)"
proof -
  have "iso_format (- 30 * 86400 * 1000) < iso_format 0"
    by (rule iso_format_less) (simp_all add: four_digit_year_def)
  then show ?thesis
    by (simp add: executeStatsQuery_def window_date_def default_since_def DEFAULT_WINDOW_DAYS_def stats_env_def not_le)
qed

theorem stats_result_witness:
  "\<exists>res. executeStatsQuery sample_order stats_env \<lparr>f_canonical_user_id = None, f_vendor = None, f_vendor_user_id = None\<rparr>
       ''user-1'' \<lparr>sq_since = None, sq_until = None, sq_club = None\<rparr> sample_db = Inr res
     \<and> \<not> st_capped res \<and> sum_list (map ag_sample_size (st_by_club res)) = st_shot_count res"
proof -
  have dbl: "\<forall>r \<in> set (shots sample_db). is_double (carry_m r) \<and> is_double (lateral_m r)"
    using fl_int_small [of 140] fl_int_small [of "- 3"]
    by (simp add: sample_db_def sample_normalised_def is_double_def)
  have "\<not> 10000 \<le> length (filter p (shots sample_db))" for p
    using length_filter_le [of p "shots sample_db"] by (simp add: sample_db_def)
  then show ?thesis
    using stats_result [OF sample_newest_first dbl sample_stats refl] sample_stats by blast
qed

text \<open>The errors and edges of a statistics query: every refusal of a malformed window, vendor or club
  is a 400, except that an empty club parameter reaches the database and fails there; a
  window whose end is not after its start is refused; and asking for putts, a valid club, always
  answers that there are none.\<close>

theorem stats_edges:
  "case getStatsByVendorUser order env vendor_name vendorUserId q d of
     Inl e \<Rightarrow> (\<exists>x. e = Domain x \<and> fst (domainErrorToHttp x) = 400) \<or> e = DbError \<and> sq_club q = Some []
   | Inr res \<Rightarrow> sq_club q \<noteq> Some [] \<and> st_since res < st_until res
        \<and> (sq_club q = Some ''PT'' \<and> newest_first order \<longrightarrow> st_shot_count res = 0)"
proof (cases "getStatsByVendorUser order env vendor_name vendorUserId q d")
  case (Inl e)
  have w: "\<exists>x. e' = Domain x \<and> fst (domainErrorToHttp x) = 400" if "window_date env v name t = Inl e'" for v name t e'
    using that by (auto simp: window_date_def parseWindowDate_def domainErrorToHttp_cases split: option.splits)
  show ?thesis
  proof (cases "map_of VALID_VENDORS vendor_name")
    case None
    then have "e = Domain (UnknownVendorError vendor_name)" using Inl by (simp add: getStatsByVendorUser_def)
    then show ?thesis using Inl by (simp add: domainErrorToHttp_cases)
  next
    case (Some v)
    note ex = Inl [unfolded getStatsByVendorUser_def Some option.case executeStatsQuery_def]
    have "(\<exists>x. e = Domain x \<and> fst (domainErrorToHttp x) = 400) \<or> e = DbError \<and> sq_club q = Some []"
    proof (cases "window_date env (sq_since q) ''since'' (default_since env)")
      case (Inl e1)
      then show ?thesis using ex w [OF Inl] by simp
    next
      case (Inr since)
      note since = Inr
      show ?thesis
      proof (cases "window_date env (sq_until q) ''until'' (qe_now env)")
        case (Inl e1)
        then show ?thesis using ex since w [OF Inl] by simp
      next
        case (Inr until_utc)
        then show ?thesis
          using ex since by (cases "sq_club q" rule: option.exhaust; cases "the (sq_club q)")
            (auto simp: domainErrorToHttp_cases split: if_splits)
      qed
    qed
    then show ?thesis by (simp add: Inl)
  qed
next
  case (Inr res)
  then obtain v where ex: "executeStatsQuery order env
      \<lparr>f_canonical_user_id = None, f_vendor = Some v, f_vendor_user_id = Some vendorUserId\<rparr>
      (vendor_name @ ''/'' @ vendorUserId) q d = Inr res"
    by (auto simp: getStatsByVendorUser_def split: option.splits)
  obtain since until_utc where w: "since < until_utc"
    and res: "res = stats_of order \<lparr>f_canonical_user_id = None, f_vendor = Some v, f_vendor_user_id = Some vendorUserId\<rparr>
      (vendor_name @ ''/'' @ vendorUserId) q since until_utc d"
    using executeStatsQuery_Inr(1) [OF ex] by blast
  have "st_shot_count res = 0" if pt: "sq_club q = Some ''PT''" and "newest_first order"
  proof -
    have "filter (stats_row f (Some ''PT'') a b) xs = []" for f a b xs
      by (auto simp: filter_empty_conv stats_row_def)
    moreover have "order [] = []" using that(2) by (metis mset_zero_iff newest_first_def mset.simps(1))
    ultimately show ?thesis by (simp add: res stats_of_def pt)
  qed
  then show ?thesis
    using executeStatsQuery_Inr(2) [OF ex] w by (auto simp: Inr res stats_of_def Let_def)
qed

theorem stats_edges_witness:
  "\<exists>e. getStatsByVendorUser sample_order stats_env ''trackpro'' ''user-1''
          \<lparr>sq_since = None, sq_until = None, sq_club = Some []\<rparr> sample_db = Inl e"
  using stats_edges [where order = sample_order and env = stats_env and vendor_name = "''trackpro''" and vendorUserId = "''user-1''"
      and q = "\<lparr>sq_since = None, sq_until = None, sq_club = Some []\<rparr>" and d = sample_db]
  by (simp split: sum.splits)

end
