(* ===== verification/Api.thy ===== *)
theory Api
  imports Routes Startup Idempotency Stats
begin

text \<open>
  The API as one function: a request passes the \<open>onRequest\<close> hooks, the route table, the throttlers and
  the guard of its route (\<open>serve\<close>), then the request-id interceptor and the handler of its controller,
  and what comes back is a status and a JSON value, from the handler or from the exception filter.
  This is how \<open>main.api.ts\<close> and \<open>app.module.ts\<close> put the parts together; the object literals that
  the services return are the values below. A path is the list of its segments, as in \<open>Routes\<close>.
\<close>

section \<open>Response bodies\<close>

definition opt_json :: "('a \<Rightarrow> jsval) \<Rightarrow> 'a option \<Rightarrow> jsval" where
  "opt_json f v = (case v of None \<Rightarrow> JNull | Some x \<Rightarrow> f x)"

definition accepted_json :: "js_string \<times> js_string \<Rightarrow> jsval" where
  "accepted_json = (\<lambda>(status, correlationId). JObj [(''status'', JStr status), (''correlation_id'', JStr correlationId)])"

text \<open>A row of \<open>user_identities\<close>; its time stamps are read as ISO 8601.\<close>

definition identity_json :: "UserIdentity \<Rightarrow> jsval" where
  "identity_json u =
     JObj [(''id'', JNum (of_nat (ui_id u))), (''vendor'', JStr (vendor_string (ui_vendor u))),
           (''vendor_user_id'', JStr (ui_vendor_user_id u)), (''canonical_user_id'', JStr (ui_canonical_user_id u)),
           (''created_at'', JStr (iso_format (ui_created_at u))), (''updated_at'', JStr (iso_format (ui_updated_at u)))]"

text \<open>A shot without its raw payload. No stored shot has a club outside the enumeration.\<close>

definition club_json :: "club_code \<Rightarrow> jsval" where
  "club_json c = (case c of Club s \<Rightarrow> JStr s | Inherited s \<Rightarrow> JUndefined)"

definition shot_json :: "ShotCore \<Rightarrow> jsval" where
  "shot_json s =
     JObj [(''canonical_shot_id'', JStr (canonical_shot_id s)), (''vendor'', JStr (vendor_string (vendor s))),
           (''vendor_shot_id'', opt_json JStr (vendor_shot_id s)), (''idempotency_key'', JStr (idempotency_key s)),
           (''vendor_user_id'', JStr (vendor_user_id s)), (''canonical_user_id'', opt_json JStr (canonical_user_id s)),
           (''captured_at_utc'', JStr (captured_at_utc s)),
           (''captured_at_tz_offset_min'', opt_json (\<lambda>n. JNum (of_int n)) (captured_at_tz_offset_min s)),
           (''received_at_utc'', JStr (received_at_utc s)), (''club_code'', club_json (club_code s)),
           (''club_raw'', JStr (club_raw s)), (''ball_speed_mps'', JNum (ball_speed_mps s)),
           (''club_head_speed_mps'', opt_json JNum (club_head_speed_mps s)),
           (''launch_angle_deg'', JNum (launch_angle_deg s)), (''spin_rpm'', opt_json (\<lambda>n. JNum (of_int n)) (spin_rpm s)),
           (''carry_m'', JNum (carry_m s)), (''total_m'', opt_json JNum (total_m s)), (''lateral_m'', JNum (lateral_m s)),
           (''device_id'', opt_json JStr (device_id s)), (''session_id'', opt_json JStr (session_id s)),
           (''content_hash'', JStr (content_hash s)), (''schema_version'', JNum (of_int (schema_version s))),
           (''parser_version'', JStr (parser_version s)), (''duplicate_of'', opt_json JStr (duplicate_of s))]"

definition page_json :: "ShotsQuery \<Rightarrow> ShotsPage \<Rightarrow> jsval" where
  "page_json q page =
     JObj [(''data'', JArr (map shot_json (pg_data page))),
           (''paging'', JObj [(''next_cursor'', opt_json JStr (pg_next_cursor page)), (''has_more'', JBool (pg_has_more page)),
                              (''limit'', JNum (of_int (pg_limit page)))]),
           (''meta'', JObj [(''since'', JStr (pg_since page)), (''until'', JStr (pg_until page)),
                            (''club'', opt_json JStr (q_club q)),
                            (''include_near_duplicates'', JBool (q_include_near_duplicates q))])]"

definition numeric_json :: "NumericStats \<Rightarrow> jsval" where
  "numeric_json s =
     JObj [(''mean'', JNum (ns_mean s)), (''stdev'', JNum (ns_stdev s)),
           (''p50'', opt_json JNum (ns_p50 s)), (''p90'', opt_json JNum (ns_p90 s))]"

definition mean_stdev_json :: "MeanStdev \<Rightarrow> jsval" where
  "mean_stdev_json s = JObj [(''mean'', JNum (ms_mean s)), (''stdev'', JNum (ms_stdev s))]"

definition spin_json :: "SpinStats \<Rightarrow> jsval" where
  "spin_json s =
     JObj [(''mean'', opt_json JNum (sp_mean s)), (''stdev'', opt_json JNum (sp_stdev s)),
           (''sample_size'', JNum (of_nat (sp_sample_size s))),
           (''vendors_excluded'', JArr (map (\<lambda>v. JStr (vendor_string v)) (sp_vendors_excluded s)))]"

definition aggregate_json :: "ClubAggregate \<Rightarrow> jsval" where
  "aggregate_json a =
     JObj [(''club_code'', club_json (ag_club_code a)), (''sample_size'', JNum (of_nat (ag_sample_size a))),
           (''carry_m'', numeric_json (ag_carry_m a)), (''lateral_m'', numeric_json (ag_lateral_m a)),
           (''ball_speed_mps'', mean_stdev_json (ag_ball_speed_mps a)),
           (''launch_angle_deg'', mean_stdev_json (ag_launch_angle_deg a)), (''spin_rpm'', spin_json (ag_spin_rpm a)),
           (''dispersion'', JObj [(''lateral_sigma_m'', JNum (ag_lateral_sigma_m a)),
                                  (''carry_sigma_m'', JNum (ag_carry_sigma_m a))]),
           (''low_sample_size'', JBool (ag_low_sample_size a))]"

definition stats_json :: "StatsResult \<Rightarrow> jsval" where
  "stats_json s =
     JObj [(''user_id'', JStr (st_user_id s)),
           (''window'', JObj [(''since'', JStr (st_since s)), (''until'', JStr (st_until s))]),
           (''club'', opt_json JStr (st_club s)),
           (''totals'', JObj [(''shot_count'', JNum (of_nat (st_shot_count s))), (''capped'', JBool (st_capped s))]),
           (''by_club'', JArr (map aggregate_json (st_by_club s)))]"

section \<open>The process and a request\<close>

text \<open>What the process is started with: its environment and the code outside the model.\<close>

record ('q, 'r) Service =
  sc_env :: Env
  sc_platform :: Platform
  sc_queue :: "'q BullMQ"
  sc_redis :: "'r Redis"
  sc_json :: "UserIdentity Json"
  sc_hmac :: "js_string \<Rightarrow> js_string \<Rightarrow> js_string"
  sc_skips :: skip_rule
  sc_codec :: Codec
  sc_row_order :: "NormalisedShot list \<Rightarrow> NormalisedShot list"
  sc_health :: terminus
  sc_exposition :: js_string
  sc_message :: "exn \<Rightarrow> js_string"

text \<open>The state behind the handlers.\<close>

record ('q, 'r) App =
  ap_db :: Db
  ap_redis :: 'r
  ap_queue :: 'q

text \<open>A request, and the circumstances in which it is served: the clock, what is drawn at random, the
  verdicts of the throttlers' storage, and the health of the two dependencies.\<close>

record HttpRequest =
  hq_verb :: http_method
  hq_path :: "js_string list"
  hq_query :: "js_string \<Rightarrow> js_string option"
  hq_headers :: headers
  hq_body :: jsval
  hq_raw_body :: "js_string option"

record Moment =
  mo_now :: int
  mo_uuid :: js_string
  mo_ulid :: "nat \<Rightarrow> js_string"
  mo_below :: "Throttler \<Rightarrow> bool"
  mo_query_ok :: bool
  mo_pong :: "js_string option"

record HttpResponse =
  hr_status :: nat
  hr_body :: "jsval option"

section \<open>The handlers by route\<close>

definition request_id :: "Moment \<Rightarrow> HttpRequest \<Rightarrow> js_string" where
  "request_id mo rq = genReqId (map_option One (hq_headers rq ''x-correlation-id'')) (mo_uuid mo)"

text \<open>The exchange a handler sees: the interceptor has put the request's id into the header.\<close>

definition exchange :: "Moment \<Rightarrow> HttpRequest \<Rightarrow> Exchange" where
  "exchange mo rq =
     RequestIdInterceptor (mo_uuid mo)
       \<lparr>x_headers = hq_headers rq, x_id = Some (request_id mo rq), x_reply_headers = []\<rparr>"

definition webhook_request :: "Moment \<Rightarrow> HttpRequest \<Rightarrow> Request" where
  "webhook_request mo rq =
     \<lparr>rq_body = hq_body rq, rq_correlation = x_headers (exchange mo rq) ''x-correlation-id'', rq_uuid = mo_uuid mo,
      rq_now = mo_now mo, rq_ulid = mo_ulid mo\<rparr>"

definition guard_request :: "Moment \<Rightarrow> HttpRequest \<Rightarrow> WebhookRequest" where
  "guard_request mo rq = \<lparr>wr_headers = hq_headers rq, wr_raw_body = hq_raw_body rq, wr_now = mo_now mo\<rparr>"

definition depth_setting :: "('q, 'r) Service \<Rightarrow> nat option" where
  "depth_setting sc = Some (nat (MAX_QUEUE_DEPTH (sc_env sc)))"

definition query_env :: "('q, 'r) Service \<Rightarrow> Moment \<Rightarrow> QueryEnv" where
  "query_env sc mo =
     \<lparr>qe_legacy_date = legacy_date (sc_platform sc), qe_codec = sc_codec sc, qe_now = mo_now mo\<rparr>"

definition shots_params :: "HttpRequest \<Rightarrow> ShotsParams" where
  "shots_params rq =
     \<lparr>p_since = hq_query rq ''since'', p_until = hq_query rq ''until'', p_club = hq_query rq ''club'',
      p_cursor = hq_query rq ''cursor'', p_limit = hq_query rq ''limit'',
      p_include_near_duplicates = hq_query rq ''include_near_duplicates''\<rparr>"

definition stats_params :: "HttpRequest \<Rightarrow> StatsQuery" where
  "stats_params rq =
     \<lparr>sq_since = hq_query rq ''since'', sq_until = hq_query rq ''until'', sq_club = hq_query rq ''club''\<rparr>"

text \<open>A handler's answer: status and body, or what Terminus throws in place of one.\<close>

type_synonym answer = "thrown + nat \<times> jsval option"

definition on_queue ::
    "Route \<Rightarrow> ('q \<Rightarrow> (exn + js_string \<times> js_string) \<times> 'q) \<Rightarrow> ('q, 'r) App \<Rightarrow> (exn + answer) \<times> ('q, 'r) App" where
  "on_queue r receive app =
     (case receive (ap_queue app) of
        (Inl e, q) \<Rightarrow> (Inl e, app\<lparr>ap_queue := q\<rparr>)
      | (Inr a, q) \<Rightarrow> (Inr (Inr (rt_status r, Some (accepted_json a))), app\<lparr>ap_queue := q\<rparr>))"

definition on_read :: "Route \<Rightarrow> (exn + jsval) \<Rightarrow> ('q, 'r) App \<Rightarrow> (exn + answer) \<times> ('q, 'r) App" where
  "on_read r result app =
     (case result of Inl e \<Rightarrow> (Inl e, app) | Inr v \<Rightarrow> (Inr (Inr (rt_status r, Some v)), app))"

definition on_link :: "('q, 'r) Service \<Rightarrow> Moment \<Rightarrow> HttpRequest \<Rightarrow> ('q, 'r) App \<Rightarrow> (exn + answer) \<times> ('q, 'r) App" where
  "on_link sc mo rq app =
     (case link_route (sc_redis sc) (sc_json sc) (mo_now mo) (hq_headers rq ''idempotency-key'') (hq_path rq ! 2)
             (hq_body rq) (ap_db app, ap_redis app) of
        (Inl e, (d, r)) \<Rightarrow> (Inl e, app\<lparr>ap_db := d, ap_redis := r\<rparr>)
      | (Inr (status, row), (d, r)) \<Rightarrow>
          (Inr (Inr (status, Some (identity_json row))), app\<lparr>ap_db := d, ap_redis := r\<rparr>))"

definition on_list :: "('q, 'r) Service \<Rightarrow> Moment \<Rightarrow> HttpRequest \<Rightarrow> ('q, 'r) App \<Rightarrow> (exn + answer) \<times> ('q, 'r) App" where
  "on_list sc mo rq app =
     (case listByCanonicalUser (sc_redis sc) (mo_now mo) (hq_path rq ! 2) ''internal-api'' (ap_db app, ap_redis app) of
        ((rows, rejected), (d, r)) \<Rightarrow>
          (Inr (Inr (200, Some (JArr (map identity_json rows)))), app\<lparr>ap_db := d, ap_redis := r\<rparr>))"

definition on_unlink :: "('q, 'r) Service \<Rightarrow> HttpRequest \<Rightarrow> ('q, 'r) App \<Rightarrow> (exn + answer) \<times> ('q, 'r) App" where
  "on_unlink sc rq app =
     (case unlink_endpoint (sc_redis sc) (hq_path rq ! 2) (hq_path rq ! 4) (hq_path rq ! 5) (ap_db app, ap_redis app) of
        Inl e \<Rightarrow> (Inl e, app)
      | Inr (d, r) \<Rightarrow> (Inr (Inr (204, None)), app\<lparr>ap_db := d, ap_redis := r\<rparr>))"

text \<open>Each route with its method of a controller, in the order of the table.\<close>

definition by_user :: "js_string \<Rightarrow> Route" where
  "by_user what = query_route [''users'', '':user_id'', what]"

definition by_vendor :: "js_string \<Rightarrow> Route" where
  "by_vendor what = query_route [''users'', ''by-vendor'', '':vendor'', '':vendor_user_id'', what]"

definition healthz_route :: Route where "healthz_route = probe_route ''healthz'' Unguarded"
definition readyz_route :: Route where "readyz_route = probe_route ''readyz'' Unguarded"

definition on_ready :: "('q, 'r) Service \<Rightarrow> Moment \<Rightarrow> ('q, 'r) App \<Rightarrow> (exn + answer) \<times> ('q, 'r) App" where
  "on_ready sc mo app =
     (Inr (map_sum id (\<lambda>v. (200, Some v)) (readiness (sc_health sc) (mo_query_ok mo) (mo_pong mo))), app)"

definition handlers ::
    "('q, 'r) Service \<Rightarrow> Moment \<Rightarrow> HttpRequest \<Rightarrow> (Route \<times> (('q, 'r) App \<Rightarrow> (exn + answer) \<times> ('q, 'r) App)) list" where
  "handlers sc mo rq =
     (let env = query_env sc mo; wq = webhook_request mo rq; P = sc_platform sc; B = sc_queue sc; depth = depth_setting sc;
          path = hq_path rq; order = sc_row_order sc; sq = shots_params rq; tq = stats_params rq;
          page = map_sum id (page_json (query_of sq)); stats = map_sum id stats_json
      in
       [(healthz_route, on_read healthz_route (Inr (liveness (mo_now mo)))),
        (readyz_route, on_ready sc mo),
        (metrics_route, on_read metrics_route (Inr (JStr (sc_exposition sc)))),
        (trackpro_route, on_queue trackpro_route (trackpro_receive P B depth wq)),
        (swingmetric_route, on_queue swingmetric_route (swingmetric_receive P B depth wq)),
        (proswing_route, on_queue proswing_route (proswing_receive P B depth wq)),
        (by_user ''shots'', \<lambda>app. on_read (by_user ''shots'') (page (listByUser_endpoint env (path ! 2) sq (ap_db app))) app),
        (by_vendor ''shots'', \<lambda>app. on_read (by_vendor ''shots'')
           (page (listByVendorUser_endpoint env (path ! 3) (path ! 4) sq (ap_db app))) app),
        (by_user ''stats'', \<lambda>app. on_read (by_user ''stats'') (stats (getStats order env (path ! 2) tq (ap_db app))) app),
        (by_vendor ''stats'', \<lambda>app. on_read (by_vendor ''stats'')
           (stats (getStatsByVendorUser order env (path ! 3) (path ! 4) tq (ap_db app))) app),
        (link_identity_route, on_link sc mo rq),
        (list_identities_route, on_list sc mo rq),
        (unlink_identity_route, on_unlink sc rq)])"

lemma handlers_cover_routes: "map fst (handlers sc mo rq) = routes"
  by (simp add: handlers_def Let_def routes_def health_routes_def shots_routes_def stats_routes_def by_user_def by_vendor_def
      healthz_route_def readyz_route_def)

definition handler ::
    "('q, 'r) Service \<Rightarrow> Moment \<Rightarrow> HttpRequest \<Rightarrow> Route \<Rightarrow> ('q, 'r) App \<Rightarrow> (exn + answer) \<times> ('q, 'r) App" where
  "handler sc mo rq r = (case map_of (handlers sc mo rq) r of Some h \<Rightarrow> h | None \<Rightarrow> (\<lambda>app. (Inl (Http 404 None None), app)))"

text \<open>The filter's reply. When it fails itself, the server answers 500.\<close>

definition reply_to :: "Moment \<Rightarrow> HttpRequest \<Rightarrow> thrown \<Rightarrow> HttpResponse" where
  "reply_to mo rq t =
     (case catch_exception (hq_headers rq) (Some (request_id mo rq)) t of
        Inl x \<Rightarrow> \<lparr>hr_status = 500, hr_body = None\<rparr>
      | Inr rp \<Rightarrow> \<lparr>hr_status = rp_status rp, hr_body = Some (rp_body rp)\<rparr>)"

definition respond :: "('q, 'r) Service \<Rightarrow> Moment \<Rightarrow> HttpRequest \<Rightarrow> exn + answer option \<Rightarrow> HttpResponse" where
  "respond sc mo rq res =
     (case res of
        Inl e \<Rightarrow> reply_to mo rq (thrown_of (sc_message sc e) e)
      | Inr None \<Rightarrow> \<lparr>hr_status = 204, hr_body = None\<rparr>
      | Inr (Some (Inl t)) \<Rightarrow> reply_to mo rq t
      | Inr (Some (Inr (status, body))) \<Rightarrow> \<lparr>hr_status = status, hr_body = body\<rparr>)"

definition api :: "('q, 'r) Service \<Rightarrow> Moment \<Rightarrow> HttpRequest \<Rightarrow> ('q, 'r) App \<Rightarrow> HttpResponse \<times> ('q, 'r) App" where
  "api sc mo rq app =
     (case serve (sc_hmac sc) (sc_skips sc) (sc_env sc) (mo_below mo) (hq_verb rq) (hq_path rq) (guard_request mo rq)
             (handler sc mo rq) app of
        (res, app') \<Rightarrow> (respond sc mo rq res, app'))"

section \<open>Lemmas\<close>

lemma routes_distinct: "distinct routes"
  by (simp add: route_defs throttle_def)

lemma handler_at: "(r, h) \<in> set (handlers sc mo rq) \<Longrightarrow> handler sc mo rq r = h"
  using routes_distinct by (simp add: handler_def handlers_cover_routes)

lemma handler_cases:
  assumes "r \<in> set routes"
  obtains h where "(r, h) \<in> set (handlers sc mo rq)" and "handler sc mo rq r = h"
proof -
  have "r \<in> fst ` set (handlers sc mo rq)" using assms handlers_cover_routes [of sc mo rq] by (metis set_map)
  then obtain h where "(r, h) \<in> set (handlers sc mo rq)" by auto
  with that handler_at show thesis by blast
qed

lemma find_route_Some: "find_route verb path = Some r \<Longrightarrow> r \<in> set routes \<and> rt_method r = verb \<and> path_matches (global_prefix r) path"
  by (auto simp: find_route_def dest: find_hit)

lemma no_options_route: "r \<in> set routes \<Longrightarrow> rt_method r \<noteq> OPTIONS"
proof -
  have "list_all (\<lambda>r. rt_method r \<noteq> OPTIONS) routes" by (simp add: route_defs)
  then show "r \<in> set routes \<Longrightarrow> rt_method r \<noteq> OPTIONS" by (simp add: list_all_iff)
qed

text \<open>A request that no throttler and no guard stops reaches its handler.\<close>

lemma api_handler:
  assumes "(r, h) \<in> set (handlers sc mo rq)" and "hq_verb rq = rt_method r" and "path_matches (global_prefix r) (hq_path rq)"
    and "\<not> throttled (sc_skips sc) (sc_env sc) (mo_below mo) r"
    and "route_guard (sc_hmac sc) (sc_env sc) r (guard_request mo rq) = Inr True"
  shows "api sc mo rq app = map_prod (\<lambda>res. respond sc mo rq (map_sum id Some res)) id (h app)"
proof -
  have mem: "r \<in> set routes" using assms(1) handlers_cover_routes [of sc mo rq] by (metis fst_conv image_eqI set_map)
  then have "rt_method r \<noteq> OPTIONS" using no_options_route by blast
  then show ?thesis
    using find_route_unique [OF mem assms(3)] assms(2,4,5) handler_at [OF assms(1)]
    by (cases "h app") (auto simp: api_def serve_def behind_def split: sum.splits prod.splits)
qed

section \<open>What a request may change\<close>

lemma link_handler_frame:
  assumes "link_handler R now cid body (d, r) = (res, (d', r'))"
  shows "isl res \<Longrightarrow> (d', r') = (d, r)" and "shots d' = shots d" and "outbox_events d' = outbox_events d"
    and "res = Inr (st, row) \<Longrightarrow> st = 201"
  using assms link_Inr(3) link_outbox
  by (fastforce simp: link_handler_def link_endpoint_def split: sum.splits)+

lemma link_route_frame:
  assumes "link_route R J now k cid body (d, r) = (res, (d', r'))"
  shows "isl res \<Longrightarrow> (d', r') = (d, r)" and "shots d' = shots d" and "outbox_events d' = outbox_events d"
    and "res = Inr (st, row) \<Longrightarrow> st = 201 \<or> (d', r') = (d, r)"
proof -
  obtain res1 d1 r1 where h: "link_handler R now cid body (d, r) = (res1, (d1, r1))" by (metis prod.exhaust)
  note f = link_handler_frame [OF h]
  have "(isl res \<longrightarrow> (d', r') = (d, r)) \<and> shots d' = shots d \<and> outbox_events d' = outbox_events d
      \<and> (res = Inr (st, row) \<longrightarrow> st = 201 \<or> (d', r') = (d, r))"
    using assms f by (auto simp: link_route_def intercept_def executeAndCache_def h split: sum.splits option.splits if_splits)
  then show "isl res \<Longrightarrow> (d', r') = (d, r)" "shots d' = shots d" "outbox_events d' = outbox_events d"
    "res = Inr (st, row) \<Longrightarrow> st = 201 \<or> (d', r') = (d, r)" by auto
qed

lemma list_audit_only:
  assumes "listByCanonicalUser R now c actor (d, r) = (res, (d', r'))"
  obtains a where "d' = d\<lparr>audit_log := a\<rparr>"
proof -
  have "d' = d\<lparr>audit_log := audit_log d'\<rparr>"
    using assms by (auto simp: listByCanonicalUser_def Let_def detached_audit split: option.splits if_splits)
  with that show thesis .
qed

text \<open>What reading may change: the audit log and the caches.\<close>

definition read_only :: "('q, 'r) App \<Rightarrow> ('q, 'r) App \<Rightarrow> bool" where
  "read_only app app' \<longleftrightarrow> (\<exists>a r. app' = app\<lparr>ap_db := (ap_db app)\<lparr>audit_log := a\<rparr>, ap_redis := r\<rparr>)"

lemma read_only_refl [simp]: "read_only app app"
  unfolding read_only_def by (rule exI [of _ "audit_log (ap_db app)"], rule exI [of _ "ap_redis app"]) simp

definition effect_ok :: "Route \<Rightarrow> ('q, 'r) App \<Rightarrow> (exn + answer) \<times> ('q, 'r) App \<Rightarrow> bool" where
  "effect_ok r app = (\<lambda>(res, app').
     (case res of
        Inr (Inr (st, b)) \<Rightarrow> st \<in> {200, 201, 202, 204} \<or> app' = app
      | _ \<Rightarrow> app' = app)
     \<and> (rt_method r = GET \<longrightarrow> read_only app app')
     \<and> (r \<in> {trackpro_route, swingmetric_route, proswing_route} \<longrightarrow> ap_db app' = ap_db app \<and> ap_redis app' = ap_redis app)
     \<and> (r \<in> {link_identity_route, unlink_identity_route} \<longrightarrow>
          ap_queue app' = ap_queue app \<and> shots (ap_db app') = shots (ap_db app)
          \<and> outbox_events (ap_db app') = outbox_events (ap_db app)))"

lemma effect_unchanged: "snd x = app \<Longrightarrow> effect_ok r app x"
  by (cases x) (auto simp: effect_ok_def split: sum.splits)

lemma effect_read: "effect_ok r app (on_read r' v app)"
  by (rule effect_unchanged) (simp add: on_read_def split: sum.splits)

lemma effect_queue:
  assumes "r \<in> {trackpro_route, swingmetric_route, proswing_route}" and "\<And>e q'. receive (ap_queue app) = (Inl e, q') \<Longrightarrow> q' = ap_queue app"
  shows "effect_ok r app (on_queue r receive app)"
proof -
  have "rt_status r = 202" "rt_method r \<noteq> GET" "r \<notin> {link_identity_route, unlink_identity_route}"
    using assms(1) by (auto simp: route_defs)
  then show ?thesis
    using assms(2) by (auto simp: on_queue_def effect_ok_def split: prod.splits sum.splits)
qed

lemma effect_link: "effect_ok link_identity_route app (on_link sc mo rq app)"
proof -
  obtain res d r where l: "link_route (sc_redis sc) (sc_json sc) (mo_now mo) (hq_headers rq ''idempotency-key'') (hq_path rq ! 2)
      (hq_body rq) (ap_db app, ap_redis app) = (res, (d, r))"
    by (metis prod.exhaust)
  have n: "rt_method link_identity_route \<noteq> GET"
    "link_identity_route \<notin> {trackpro_route, swingmetric_route, proswing_route}"
    by (simp_all add: route_defs)
  have id: "app\<lparr>ap_db := ap_db app, ap_redis := ap_redis app\<rparr> = app" by simp
  show ?thesis
    using link_route_frame [OF l] n id
    by (cases res) (auto simp: on_link_def l effect_ok_def split: prod.splits)
qed

lemma effect_list: "effect_ok list_identities_route app (on_list sc mo rq app)"
proof -
  obtain rows rej d r where l: "listByCanonicalUser (sc_redis sc) (mo_now mo) (hq_path rq ! 2) ''internal-api''
      (ap_db app, ap_redis app) = ((rows, rej), (d, r))"
    by (metis prod.exhaust)
  obtain a where "d = (ap_db app)\<lparr>audit_log := a\<rparr>" by (rule list_audit_only [OF l])
  then have "read_only app (app\<lparr>ap_db := d, ap_redis := r\<rparr>)" by (auto simp: read_only_def)
  moreover have "list_identities_route \<notin> {trackpro_route, swingmetric_route, proswing_route, link_identity_route, unlink_identity_route}"
    by (simp add: route_defs)
  ultimately show ?thesis by (auto simp: on_list_def l effect_ok_def)
qed

lemma effect_unlink: "effect_ok unlink_identity_route app (on_unlink sc rq app)"
proof (cases "unlink_endpoint (sc_redis sc) (hq_path rq ! 2) (hq_path rq ! 4) (hq_path rq ! 5) (ap_db app, ap_redis app)")
  case (Inl e)
  then show ?thesis by (intro effect_unchanged) (simp add: on_unlink_def)
next
  case (Inr p)
  obtain d r where p: "p = (d, r)" by (cases p)
  then obtain v where "unlinkIdentity (sc_redis sc) v (hq_path rq ! 5) (hq_path rq ! 2) ''internal-api'' (ap_db app, ap_redis app)
      = Inr (d, r)"
    using Inr by (auto simp: unlink_endpoint_def split: option.splits)
  from unlink_frame(1,2) [OF this] show ?thesis
    by (simp add: on_unlink_def effect_ok_def Inr p) (simp add: route_defs)
qed

lemma handler_effect:
  assumes "bullmq (sc_queue sc)" and "r \<in> set routes"
  shows "effect_ok r app (handler sc mo rq r app)"
proof -
  have queue: "effect_ok trackpro_route app (on_queue trackpro_route (trackpro_receive P (sc_queue sc) c wq) app)"
    "effect_ok swingmetric_route app (on_queue swingmetric_route (swingmetric_receive P (sc_queue sc) c wq) app)"
    "effect_ok proswing_route app (on_queue proswing_route (proswing_receive P (sc_queue sc) c wq) app)" for P c wq
    by (rule effect_queue; simp add: receive_refused [OF assms(1)])+
  have ready: "effect_ok r' app (on_ready sc mo app)" for r'
    by (rule effect_unchanged) (simp add: on_ready_def)
  have "list_all (\<lambda>(r, h). effect_ok r app (h app)) (handlers sc mo rq)"
    by (simp add: handlers_def Let_def effect_read effect_link effect_list effect_unlink ready queue)
  then show ?thesis using handler_cases [OF assms(2), of sc mo rq] by (metis (mono_tags, lifting) case_prodD list_all_iff)
qed

lemma route_verbs:
  "rt_method trackpro_route = POST" "rt_method swingmetric_route = POST" "rt_method proswing_route = POST"
  "rt_method link_identity_route = POST" "rt_method unlink_identity_route = DELETE" "rt_method list_identities_route = GET"
  "rt_method (query_route p) = GET" "rt_method (probe_route n g) = GET" "rt_method metrics_route = GET"
  by (simp_all add: route_defs)

lemma writing_routes:
  assumes "r \<in> set routes" and "rt_method r \<in> {POST, DELETE}"
  obtains (webhook) "r \<in> {trackpro_route, swingmetric_route, proswing_route}" and "rt_method r = POST"
    | (link) "r = link_identity_route" and "rt_method r = POST"
    | (unlink) "r = unlink_identity_route" and "rt_method r = DELETE"
proof -
  have "list_all (\<lambda>r. rt_method r \<in> {POST, DELETE} \<longrightarrow>
      r \<in> {trackpro_route, swingmetric_route, proswing_route} \<and> rt_method r = POST
      \<or> r = link_identity_route \<and> rt_method r = POST \<or> r = unlink_identity_route \<and> rt_method r = DELETE) routes"
    by (simp add: routes_def health_routes_def shots_routes_def stats_routes_def route_verbs)
  then show thesis using assms webhook link unlink unfolding list_all_iff by blast
qed

lemma webhook_paths:
  assumes "r \<in> {trackpro_route, swingmetric_route, proswing_route}" and "path_matches (global_prefix r) path"
  shows "\<exists>v. path = [''v1'', ''webhooks'', vendor_string v]"
proof -
  have "global_prefix r \<in> {[''v1'', ''webhooks'', vendor_string v] | v. True}"
    using assms(1) by (auto simp: route_defs global_prefix_def vendor_string_def intro: exI [of _ Trackpro]
        exI [of _ Swingmetric] exI [of _ Proswing])
  then obtain v where "global_prefix r = [''v1'', ''webhooks'', vendor_string v]" by blast
  then have "path = [''v1'', ''webhooks'', vendor_string v]"
    using assms(2) by (cases v) (auto simp: path_matches_def vendor_string_def list_all2_Cons1)
  then show ?thesis by blast
qed

lemma identity_paths:
  "path_matches (global_prefix link_identity_route) path \<Longrightarrow> \<exists>c. path = [''v1'', ''users'', c, ''identities'']"
  "path_matches (global_prefix unlink_identity_route) path \<Longrightarrow> \<exists>c v u. path = [''v1'', ''users'', c, ''identities'', v, u]"
  by (auto simp: route_defs global_prefix_def path_matches_def list_all2_Cons1)

section \<open>The effects of a request\<close>


text \<open>The filter's reply to an exception.\<close>

lemma reply_problem:
  "reply_to mo rq (thrown_of m e) =
     \<lparr>hr_status = http_status e,
      hr_body = Some (problem_body (http_status e) (http_code e) (http_title m e) (request_id mo rq))\<rparr>"
proof -
  have "reported_id (hq_headers rq) (Some (request_id mo rq)) = request_id mo rq"
    by (simp add: reported_id_def request_id_def genReqId_def split: option.splits)
  then show ?thesis by (simp add: reply_to_def catch_problem)
qed

text \<open>A development process without throttling, and a request to it.\<close>

definition sample_service :: "((js_string \<times> ShotJob) list, map_store) Service" where
  "sample_service =
     \<lparr>sc_env = sample_env_typed\<lparr>NODE_ENV := Development, WEBHOOK_AUTH_MODE := AuthNone, THROTTLE_ENABLED := False\<rparr>,
      sc_platform = sample_platform\<lparr>datetime_ok := \<lambda>s. True\<rparr>, sc_queue = list_queue, sc_redis = map_redis,
      sc_json = \<lparr>stringify = \<lambda>x. [], parse_entry = \<lambda>s. None\<rparr>, sc_hmac = (@), sc_skips = \<lambda>m c n. False,
      sc_codec = sample_codec, sc_row_order = sample_order,
      sc_health = \<lambda>is. if list_all indicator_up is then Inr JNull else Inl ThrownOther,
      sc_exposition = [], sc_message = \<lambda>e. ''refused''\<rparr>"

definition sample_moment :: "int \<Rightarrow> Moment" where
  "sample_moment now =
     \<lparr>mo_now = now, mo_uuid = ''u-1'', mo_ulid = \<lambda>i. ''01J'', mo_below = \<lambda>t. True, mo_query_ok = True, mo_pong = Some ''PONG''\<rparr>"

lemma sample_service_simps:
  "sc_env sample_service = sample_env_typed\<lparr>NODE_ENV := Development, WEBHOOK_AUTH_MODE := AuthNone, THROTTLE_ENABLED := False\<rparr>"
  "sc_queue sample_service = list_queue" "sc_redis sample_service = map_redis" "sc_row_order sample_service = sample_order"
  "sc_platform sample_service = sample_platform\<lparr>datetime_ok := \<lambda>s. True\<rparr>" "sc_message sample_service e = ''refused''"
  by (simp_all add: sample_service_def)

definition sample_delete :: HttpRequest where
  "sample_delete =
     \<lparr>hq_verb = DELETE, hq_path = [''v1'', ''users'', ''c1'', ''identities'', ''acme'', ''u1''], hq_query = \<lambda>k. None,
      hq_headers = (\<lambda>h. None)(''authorization'' \<mapsto> ''Bearer fedcba9876543210fedcba9876543210''),
      hq_body = JUndefined, hq_raw_body = None\<rparr>"


end
