(* ===== verification/Load_Test.thy ===== *)
theory Load_Test
  imports Webhooks Redaction
begin

text \<open>
  The payload builders of \<open>k6-load-test.js\<close>: what the load test sends to the webhooks. The values of
  \<open>Math.random()\<close> are a sequence of numbers in the unit interval, drawn in the order in which the builder
  evaluates its properties.
\<close>

section \<open>Helpers\<close>

text \<open>\<open>parseFloat\<close>, on strings without an exponent (\<open>toFixed\<close> prints none below \<open>10^21\<close>).\<close>

definition parseFloat :: "js_string \<Rightarrow> number option" where
  "parseFloat s =
     (let (sg, rest) = parse_sign (dropWhile is_space s);
          int_part = takeWhile is_digit rest;
          frac = (case dropWhile is_digit rest of
                    [] \<Rightarrow> [] | c # cs \<Rightarrow> if c = CHR ''.'' then takeWhile is_digit cs else [])
      in if int_part @ frac = [] then None
         else Some (fl (of_int (sg * int (undec (int_part @ frac))) / 10 ^ length frac)))"

definition rand :: "number \<Rightarrow> int \<Rightarrow> int \<Rightarrow> number" where
  "rand u lo hi = fl (fl (u * fl (of_int (hi - lo))) + of_int lo)"

definition randInt :: "number \<Rightarrow> int \<Rightarrow> int \<Rightarrow> int" where
  "randInt u lo hi = \<lfloor>rand u lo (hi + 1)\<rfloor>"

fun show_hex :: "nat \<Rightarrow> js_string" where
  "show_hex n = (if n < 16 then [hex_char n] else show_hex (n div 16) @ [hex_char n])"

declare show_hex.simps [simp del]

definition padStart :: "nat \<Rightarrow> char \<Rightarrow> js_string \<Rightarrow> js_string" where
  "padStart w c s = replicate (w - length s) c @ s"

definition randomHex8 :: "number \<Rightarrow> js_string" where
  "randomHex8 u = padStart 8 CHR ''0'' (show_hex (nat \<lfloor>fl (u * 4294967295)\<rfloor>))"

definition todayStr :: "int \<Rightarrow> js_string" where
  "todayStr now = slice 0 10 (iso_format now)"

text \<open>\<open>parseFloat(rand(lo, hi).toFixed(f))\<close>; it is never NaN (\<open>parseFloat_toFixed\<close> below).\<close>

definition fixed :: "number \<Rightarrow> int \<Rightarrow> int \<Rightarrow> nat \<Rightarrow> number" where
  "fixed u lo hi f = the (parseFloat (toFixed (rand u lo hi) f))"

section \<open>Builders\<close>

text \<open>A TrackPro shot. The seeds of \<open>setup\<close> differ in session, device, club and time.\<close>

definition trackpro_shot ::
    "(nat \<Rightarrow> number) \<Rightarrow> int \<Rightarrow> js_string \<Rightarrow> js_string \<Rightarrow> js_string \<Rightarrow> js_string \<Rightarrow> int \<Rightarrow> TrackproPayload" where
  "trackpro_shot u now user session device club captured =
     \<lparr>tp_shot_uid = ''tp-'' @ todayStr now @ ''-'' @ randomHex8 (u 0), tp_user_external_id = user,
      tp_session_id = Some session, tp_device_id = Some device, tp_captured_at = iso_format captured, tp_club = club,
      tp_ball_speed_mps = fixed (u 1) 45 80 2, tp_club_head_speed_mps = Some (fixed (u 2) 30 55 2),
      tp_launch_angle_deg = fixed (u 3) 8 25 2, tp_spin_rpm = Some (randInt (u 4) 3000 7500),
      tp_carry_distance_m = fixed (u 5) 100 300 1, tp_total_distance_m = Some (fixed (u 6) 110 320 1),
      tp_side_deviation_m = fixed (u 7) (- 15) 15 2\<rparr>"

definition trackproPayload :: "(nat \<Rightarrow> number) \<Rightarrow> int \<Rightarrow> js_string \<Rightarrow> jsval" where
  "trackproPayload u now userExternalId =
     trackpro_json (trackpro_shot u now (if userExternalId = [] then ''load-test-user'' else userExternalId)
       ''sess-load-test'' ''tp-device-LOAD'' ''7i'' now)"

definition seed_clubs :: "js_string list" where
  "seed_clubs = [''driver'', ''7i'', ''5i'', ''PW'']"

definition trackpro_seed :: "(nat \<Rightarrow> number) \<Rightarrow> int \<Rightarrow> nat \<Rightarrow> jsval" where
  "trackpro_seed u now i =
     trackpro_json (trackpro_shot u now ''load-test-user'' ''sess-seed'' ''tp-device-SEED''
       (seed_clubs ! (i mod length seed_clubs)) (now - int i * 60000))"

definition swingmetric_batch_of :: "js_string \<Rightarrow> js_string \<Rightarrow> js_string \<Rightarrow> SwingmetricShot \<Rightarrow> SwingmetricPayload" where
  "swingmetric_batch_of session player device shot =
     \<lparr>sm_session_id = session, sm_player = \<lparr>sm_id = player, sm_email = None\<rparr>, sm_device = device, sm_shots = [shot]\<rparr>"

definition swingmetricPayload :: "(nat \<Rightarrow> number) \<Rightarrow> int \<Rightarrow> nat \<Rightarrow> js_string \<Rightarrow> jsval" where
  "swingmetricPayload u now vu playerId =
     payload_json v1_names (swingmetric_batch_of (''sm-sess-load-'' @ show_nat vu)
       (if playerId = [] then ''sm-load-test-user'' else playerId) ''SWING_PRO_LOAD''
       \<lparr>sm_ts_ms = now - randInt (u 0) 0 5000, sm_club = ''7i'', sm_ball_speed_mph = fixed (u 1) 100 178 1,
        sm_swing_speed_mph = Some (fixed (u 2) 65 122 1), sm_launch_deg = fixed (u 3) 8 25 1,
        sm_spin_rpm = Some (randInt (u 4) 3000 7500), sm_carry_yd = of_int (randInt (u 5) 110 330),
        sm_total_yd = Some (of_int (randInt (u 6) 120 350)), sm_offline_yd = fixed (u 7) (- 16) 16 1\<rparr>)"

definition swingmetric_seed :: "(nat \<Rightarrow> number) \<Rightarrow> int \<Rightarrow> nat \<Rightarrow> jsval" where
  "swingmetric_seed u now i =
     payload_json v1_names (swingmetric_batch_of (''sm-sess-seed-'' @ show_nat i) ''sm-load-test-user'' ''SWING_PRO_SEED''
       \<lparr>sm_ts_ms = now - int i * 30000, sm_club = ''Driver'', sm_ball_speed_mph = fixed (u 0) 140 178 1,
        sm_swing_speed_mph = Some (fixed (u 1) 90 122 1), sm_launch_deg = fixed (u 2) 8 14 1,
        sm_spin_rpm = Some (randInt (u 3) 2000 3500), sm_carry_yd = of_int (randInt (u 4) 230 300),
        sm_total_yd = Some (of_int (randInt (u 5) 250 330)), sm_offline_yd = fixed (u 6) (- 10) 10 1\<rparr>)"

definition measured :: "number \<Rightarrow> js_string \<Rightarrow> Measurement" where
  "measured x u = \<lparr>m_value = x, m_unit = u\<rparr>"

definition proswing_shot ::
    "(nat \<Rightarrow> number) \<Rightarrow> int \<Rightarrow> js_string \<Rightarrow> js_string \<Rightarrow> int \<Rightarrow> ProswingCanonicalPayload" where
  "proswing_shot u now user club occurred =
     \<lparr>ps_user_token = user,
      ps_shot =
        \<lparr>ps_id = ''ps-'' @ todayStr now @ ''-'' @ randomHex8 (u 0), ps_occurred_at = iso_format occurred,
         ps_club_code = club, ps_ball_speed = measured (fixed (u 1) 100 178 1) ''mph'',
         ps_club_speed = Some (measured (fixed (u 2) 65 122 1) ''mph''),
         ps_launch = measured (fixed (u 3) 8 25 1) ''deg'',
         ps_carry = measured (of_int (randInt (u 4) 110 330)) ''yd'',
         ps_total = Some (measured (of_int (randInt (u 5) 120 350)) ''yd''),
         ps_deviation = measured (fixed (u 6) (- 16) 16 1) ''yd'', ps_spin_rpm = None\<rparr>\<rparr>"

definition proswingPayload :: "(nat \<Rightarrow> number) \<Rightarrow> int \<Rightarrow> js_string \<Rightarrow> jsval" where
  "proswingPayload u now userToken =
     proswing_json (proswing_shot u now (if userToken = [] then ''ps-load-test-user'' else userToken) ''7i'' now)"

definition proswing_seed :: "(nat \<Rightarrow> number) \<Rightarrow> int \<Rightarrow> nat \<Rightarrow> jsval" where
  "proswing_seed u now i =
     proswing_json (proswing_shot u now ''ps-load-test-user'' (seed_clubs ! (i mod length seed_clubs))
       (now - int i * 45000))"

section \<open>The helpers' ranges\<close>

definition draws :: "(nat \<Rightarrow> number) \<Rightarrow> bool" where
  "draws u \<longleftrightarrow> (\<forall>i. 0 \<le> u i \<and> u i < 1)"

lemma rand_bounds:
  assumes "0 \<le> u" and "u < 1" and "lo \<le> hi" and "\<bar>lo\<bar> \<le> 2 ^ 40" and "\<bar>hi\<bar> \<le> 2 ^ 40"
  shows "of_int lo \<le> rand u lo hi" and "rand u lo hi \<le> of_int hi"
proof -
  let ?w = "of_int (hi - lo) :: rat"
  have e: "fl (of_int n) = of_int n" if "\<bar>n\<bar> \<le> 2 ^ 41" for n
  proof -
    have "(2::int) ^ 41 \<le> 2 ^ 53" by simp
    then show ?thesis using that by (intro fl_int_small) linarith
  qed
  have w: "fl ?w = ?w" "fl (of_int lo) = of_int lo" "fl (of_int hi) = of_int hi"
    using assms(3-5) by (intro e; simp)+
  have "0 \<le> u * ?w" "u * ?w \<le> 1 * ?w" using assms(1-3) by (simp, intro mult_right_mono) simp_all
  then have f: "0 \<le> fl (u * ?w)" "fl (u * ?w) \<le> ?w"
    using fl_nonneg fl_mono [of "u * ?w" ?w] w(1) by simp_all
  show "of_int lo \<le> rand u lo hi"
    using fl_mono [of "of_int lo" "fl (u * ?w) + of_int lo"] f(1) w(1,2) by (simp add: rand_def)
  show "rand u lo hi \<le> of_int hi"
    using fl_mono [of "fl (u * ?w) + of_int lo" "of_int hi"] f(2) w(1,3) by (simp add: rand_def)
qed

lemma randInt_bounds:
  assumes "0 \<le> u" and "u < 1" and "lo \<le> hi" and "\<bar>lo\<bar> \<le> 2 ^ 39" and "\<bar>hi\<bar> \<le> 2 ^ 39"
  shows "lo \<le> randInt u lo hi" and "randInt u lo hi \<le> hi + 1"
proof -
  have "\<bar>lo\<bar> \<le> 2 ^ 40" "\<bar>hi + 1\<bar> \<le> 2 ^ 40" "lo \<le> hi + 1" using assms(3-5) by (simp_all add: abs_le_iff)
  note r = rand_bounds [OF assms(1,2) this(3,1,2)]
  show "lo \<le> randInt u lo hi" using r(1) by (simp add: randInt_def le_floor_iff)
  show "randInt u lo hi \<le> hi + 1" using floor_mono [OF r(2)] unfolding randInt_def by (simp only: floor_of_int)
qed

text \<open>A number printed with \<open>f\<close> decimals reads back as the nearest one of that form.\<close>

lemma parseFloat_toFixed:
  assumes "0 < f"
  shows "parseFloat (toFixed x f) =
           Some (fl (of_int ((if x < 0 then - 1 else 1) * int (nat \<lfloor>\<bar>x\<bar> * 10 ^ f + 1 / 2\<rfloor>)) / 10 ^ f))"
proof -
  define n where "n = nat \<lfloor>\<bar>x\<bar> * 10 ^ f + 1 / 2\<rfloor>"
  let ?i = "show_nat (n div 10 ^ f)" and ?d = "pad_dec f (n mod 10 ^ f)"
  have digits: "takeWhile is_digit (?i @ ''.'' @ ?d) = ?i" "dropWhile is_digit (?i @ ''.'' @ ?d) = ''.'' @ ?d"
    "takeWhile is_digit ?d = ?d"
    using show_nat_digits [of _ "n div 10 ^ f"] pad_dec_digits [of _ f "n mod 10 ^ f"]
    by (simp_all add: takeWhile_append2 dropWhile_append2 takeWhile_eq_all_conv)
  have frac: "(case ''.'' @ ?d of [] \<Rightarrow> [] | c # cs \<Rightarrow> if c = CHR ''.'' then takeWhile is_digit cs else []) = ?d"
    using digits(3) by simp
  have ne: "?i @ ?d \<noteq> []" by simp
  have undec: "undec (?i @ ?d) = n" by (simp add: undec_append div_mult_mod_eq)
  obtain c cs where c: "?i = c # cs" "is_digit c"
    using show_nat_digits [of _ "n div 10 ^ f"] by (cases ?i) auto
  then have s: "\<not> is_space c" "c \<noteq> CHR ''-''" "c \<noteq> CHR ''+''"
    using digit_not_space by (auto simp: is_digit_def less_eq_char_nat)
  have sign: "parse_sign (dropWhile is_space (toFixed x f)) = (if x < 0 then - 1 else 1, ?i @ ''.'' @ ?d)"
    using assms s c(1) by (auto simp: toFixed_def fixed_digits_def n_def is_space_def)
  show ?thesis
    unfolding parseFloat_def sign Let_def n_def [symmetric] prod.case digits(1,2) frac undec length_pad_dec
    using ne by simp
qed

lemma fixed_bounds:
  assumes "0 < f" and "0 \<le> u" and "u < 1" and "lo \<le> hi" and "\<bar>lo\<bar> \<le> 2 ^ 40" and "\<bar>hi\<bar> \<le> 2 ^ 40"
    and "0 \<le> lo \<or> lo = - hi"
  shows "of_int lo \<le> fixed u lo hi f" and "fixed u lo hi f \<le> of_int hi"
proof -
  define x where "x = rand u lo hi"
  note r = rand_bounds [OF assms(2-6), folded x_def]
  define n where "n = \<lfloor>\<bar>x\<bar> * 10 ^ f + 1 / 2\<rfloor>"
  have n0: "0 \<le> n" by (simp add: n_def)
  have v: "fixed u lo hi f = fl (of_int ((if x < 0 then - 1 else 1) * n) / 10 ^ f)"
    using parseFloat_toFixed [OF assms(1), of x] n0 by (simp add: fixed_def x_def [symmetric] n_def)
  have up: "n \<le> k * 10 ^ f" if "\<bar>x\<bar> \<le> of_int k" for k
  proof -
    have "\<bar>x\<bar> * 10 ^ f + 1 / 2 \<le> of_int (k * 10 ^ f) + 1 / 2" using that by simp
    then have "of_int n \<le> (of_int (k * 10 ^ f) + 1 / 2 :: rat)"
      using of_int_floor_le [of "\<bar>x\<bar> * 10 ^ f + 1 / 2"] unfolding n_def by (rule order_trans [rotated])
    then have "of_int n < (of_int (k * 10 ^ f + 1) :: rat)" by simp
    then show ?thesis by (simp only: of_int_less_iff zless_add1_eq) linarith
  qed
  have down: "k * 10 ^ f \<le> n" if "of_int k \<le> \<bar>x\<bar>" for k
  proof -
    have "of_int k * 10 ^ f \<le> \<bar>x\<bar> * 10 ^ f" using that by (rule mult_right_mono) simp
    then have "of_int (k * 10 ^ f) \<le> \<bar>x\<bar> * 10 ^ f + 1 / 2" unfolding of_int_mult of_int_power of_int_numeral by linarith
    then show ?thesis unfolding n_def by (simp only: le_floor_iff)
  qed
  have e: "fl (of_int k) = of_int k" if "\<bar>k\<bar> \<le> 2 ^ 40" for k
  proof -
    have "(2::int) ^ 40 \<le> 2 ^ 53" by simp
    then show ?thesis using that by (intro fl_int_small) linarith
  qed
  have q: "of_int k \<le> (of_int m / 10 ^ f :: rat) \<longleftrightarrow> k * 10 ^ f \<le> m"
    "(of_int m / 10 ^ f :: rat) \<le> of_int k \<longleftrightarrow> m \<le> k * 10 ^ f" for k m :: int
    by (simp_all add: field_simps flip: of_int_le_iff [where 'a = rat])
  have "lo * 10 ^ f \<le> (if x < 0 then - 1 else 1) * n \<and> (if x < 0 then - 1 else 1) * n \<le> hi * 10 ^ f"
  proof (cases "x < 0")
    case True
    then have "lo = - hi" "\<bar>x\<bar> \<le> of_int hi" using r assms(7) by auto
    then show ?thesis using True up [of hi] n0 assms(4) by auto
  next
    case False
    then have "\<bar>x\<bar> \<le> of_int hi" "of_int lo \<le> \<bar>x\<bar>" using r by auto
    then show ?thesis using False up [of hi] down [of lo] by auto
  qed
  then have "of_int lo \<le> (of_int ((if x < 0 then - 1 else 1) * n) / 10 ^ f :: rat)"
    "(of_int ((if x < 0 then - 1 else 1) * n) / 10 ^ f :: rat) \<le> of_int hi"
    by (simp_all only: q)
  from fl_mono [OF this(1)] fl_mono [OF this(2)] show "of_int lo \<le> fixed u lo hi f" "fixed u lo hi f \<le> of_int hi"
    using e [OF assms(5)] e [OF assms(6)] by (simp_all only: v)
qed

section \<open>The payloads satisfy the schemas\<close>

lemma match_classes_append:
  "match_classes ps s \<Longrightarrow> match_classes qs t \<Longrightarrow> match_classes (ps @ qs) (s @ t)"
  by (simp add: match_classes_def)

lemma match_classes_replicate: "match_classes (replicate w p) s \<longleftrightarrow> length s = w \<and> (\<forall>c \<in> set s. p c)"
  by (auto simp: match_classes_def list_all_iff in_set_zip all_set_conv_all_nth)

lemma match_classes_one: "match_classes [p] [c] \<longleftrightarrow> p c"
  by (simp add: match_classes_def)

lemma match_date:
  assumes "0 \<le> YearFromDay d" and "YearFromDay d \<le> 9999"
  shows "match_classes (replicate 4 is_digit @ [(=) CHR ''-''] @ replicate 2 is_digit @ [(=) CHR ''-''] @ replicate 2 is_digit)
           (iso_date d)"
proof -
  obtain y m k where c: "civil d = (y, m, k)" by (cases "civil d")
  have "y = YearFromDay d" by (rule civil_bounds(4) [OF c])
  then have "iso_date d = pad_dec 4 (nat y) @ ''-'' @ pad_dec 2 (m + 1) @ ''-'' @ pad_dec 2 (k + 1)"
    using assms c by (simp add: iso_date_def show_year_def)
  then show ?thesis
    using pad_dec_digits
    by (auto intro!: match_classes_append simp: match_classes_replicate match_classes_one simp del: append_Cons append.simps)
qed

lemma todayStr_date: "four_digit_year now \<Longrightarrow> todayStr now = iso_date (now div msPerDay)"
  using four_digit_YearFromDay [of now]
  by (simp add: todayStr_def slice_def iso_format_def iso_minute_split length_iso_date)

lemma hex_char_hex: "is_hex_lower (hex_char n)"
proof -
  have "\<forall>k < 16. is_hex_lower (''0123456789abcdef'' ! k)" by code_simp
  then show ?thesis by (simp add: hex_char_def)
qed

lemma show_hex_hex: "c \<in> set (show_hex n) \<Longrightarrow> is_hex_lower c"
proof (induction n rule: show_hex.induct)
  case (1 n)
  then show ?case using hex_char_hex by (subst (asm) (2) show_hex.simps) (auto split: if_splits)
qed

lemma show_hex_length: "n < 16 ^ Suc k \<Longrightarrow> length (show_hex n) \<le> Suc k"
proof (induction k arbitrary: n)
  case 0
  then show ?case by (subst show_hex.simps) simp
next
  case (Suc k)
  then have "length (show_hex (n div 16)) \<le> Suc k" by (intro Suc.IH) (simp add: less_mult_imp_div_less mult.commute)
  then show ?case by (subst show_hex.simps) simp
qed

lemma randomHex8_format:
  assumes "0 \<le> u" and "u < 1"
  shows "match_classes (replicate 8 is_hex_lower) (randomHex8 u)"
proof -
  define n where "n = nat \<lfloor>fl (u * 4294967295)\<rfloor>"
  have e: "fl 4294967295 = 4294967295" using fl_int_small [of 4294967295] by simp
  have "u * 4294967295 \<le> 4294967295" using assms by simp
  from fl_mono [OF this] have "\<lfloor>fl (u * 4294967295)\<rfloor> \<le> 4294967295" unfolding e by (simp add: floor_le_iff)
  then have "n \<le> nat 4294967295" unfolding n_def by (rule nat_mono)
  then have "n < 16 ^ Suc 7" by simp
  then have "length (show_hex n) \<le> 8" using show_hex_length [of n 7] by simp
  moreover have "is_hex_lower CHR ''0''" by (simp add: is_hex_lower_def is_digit_def less_eq_char_nat)
  ultimately show ?thesis
    using show_hex_hex [of _ n]
    by (auto simp: match_classes_replicate randomHex8_def n_def [symmetric] padStart_def)
qed

lemma shot_uid_built:
  assumes "four_digit_year now" and "0 \<le> u" and "u < 1"
  shows "shot_uid_format (''tp-'' @ todayStr now @ ''-'' @ randomHex8 u)"
proof -
  have tp: "match_classes [(=) CHR ''t'', (=) CHR ''p'', (=) CHR ''-''] ''tp-''" by (simp add: match_classes_def)
  have dash: "match_classes [(=) CHR ''-''] ''-''" by (simp add: match_classes_def)
  from match_classes_append [OF tp match_classes_append [OF match_date [OF four_digit_YearFromDay [OF assms(1)]]
        match_classes_append [OF dash randomHex8_format [OF assms(2,3)]]]]
  show ?thesis by (simp add: shot_uid_format_def todayStr_date [OF assms(1)])
qed

text \<open>What the load test assumes of zod's date-time check: it accepts \<open>toISOString\<close>.\<close>

definition iso_accepted :: "Platform \<Rightarrow> bool" where
  "iso_accepted P \<longleftrightarrow> (\<forall>t. four_digit_year t \<longrightarrow> datetime_ok P (iso_format t))"

lemma trackpro_shot_ok:
  assumes "draws u" and "iso_accepted P" and "four_digit_year now" and "four_digit_year t"
    and "length user \<in> {1..255}" and "length session \<in> {1..255}" and "length device \<in> {1..255}" and "length club \<in> {1..64}"
  shows "trackpro_ok P (trackpro_shot u now user session device club t)"
proof -
  have d: "0 \<le> u i" "u i < 1" for i using assms(1) by (simp_all add: draws_def)
  note f = fixed_bounds [OF _ d]
  note r = randInt_bounds [OF d, of 3000 7500 4]
  show ?thesis
    using shot_uid_built [OF assms(3) d [of 0]] assms(2,4-8) r
      f [of 2 45 80 1] f [of 2 30 55 2] f [of 2 8 25 3] f [of 1 100 300 5] f [of 1 110 320 6] f [of 2 "- 15" 15 7]
    by (simp add: trackpro_ok_def trackpro_shot_def iso_accepted_def)
qed

lemma swingmetric_built_ok:
  assumes "shot_ok shot" and "length session \<in> {1..255}" and "length player \<in> {1..255}" and "length device \<in> {1..255}"
  shows "payload_ok P (swingmetric_batch_of session player device shot)"
  using assms by (simp add: payload_ok_def swingmetric_batch_of_def)

lemma proswing_shot_ok:
  assumes "draws u" and "iso_accepted P" and "four_digit_year now" and "four_digit_year t"
    and "length user \<in> {8..255}" and "length club \<in> {1..64}"
  shows "canonical_ok P (proswing_shot u now user club t)" and "v1_range (proswing_shot u now user club t)"
proof -
  have d: "0 \<le> u i" "u i < 1" for i using assms(1) by (simp_all add: draws_def)
  note f = fixed_bounds [OF _ d, of 1]
  have len: "length (randomHex8 x) = 8" if "0 \<le> x" "x < 1" for x
    using randomHex8_format [OF that] by (simp add: match_classes_replicate)
  have "length (todayStr now) = 10"
    using four_digit_YearFromDay [OF assms(3)] by (simp add: todayStr_date [OF assms(3)] length_iso_date)
  then show "canonical_ok P (proswing_shot u now user club t)"
    using assms(2,4-6) len [OF d [of 0]] f [of 100 178 1] f [of 65 122 2] f [of 8 25 3] f [of "- 16" 16 6]
      randInt_bounds [OF d, of 110 330 4] randInt_bounds [OF d, of 120 350 5]
    by (simp add: canonical_ok_def canonical_shot_ok_def proswing_shot_def measured_def iso_accepted_def
        ball_speed_ok_def speed_ok_def distance_ok_def deviation_ok_def speed_units_def distance_units_def)
  show "v1_range (proswing_shot u now user club t)"
    using assms(5) f [of 65 122 2] f [of "- 16" 16 6]
    by (simp add: v1_range_def proswing_shot_def measured_def speed_ok_def distance_ok_def speed_units_def distance_units_def)
qed

section \<open>The webhooks accept them\<close>

lemma no_skew:
  assumes "\<bar>t\<bar> \<le> 8640000000000000" and "\<bar>now\<bar> \<le> 8640000000000000" and "now - 86400000 \<le> t" and "t \<le> now + 300000"
  shows "\<not> hasExcessiveClockSkew P (iso_format t) (iso_format now)"
  using assms by (simp add: hasExcessiveClockSkew_def hasExcessiveClockSkew_within_def Let_def)

lemma single_accepted:
  assumes "bullmq B" and "getWaitingCount B q < max_depth c" and "\<not> hasExcessiveClockSkew P (captured_at_utc s) received"
  shows "receive_single P B c corr received (Inr [s]) q
           = (Inr (''accepted'', corr), fst (add_shot B s corr received q))"
  using assms(2,3) by (auto simp: receive_single_def enqueue_def depth_check_def split: prod.splits)

text \<open>The load test's clock and the server's differ by at most a minute of latency, and the last seed is
  twenty minutes old.\<close>

definition on_time :: "int \<Rightarrow> int \<Rightarrow> bool" where
  "on_time now received \<longleftrightarrow>
     1200000 \<le> now \<and> now + 60000 < 253402300800000 \<and> now \<le> received \<and> received \<le> now + 60000"

lemma trackpro_accepted:
  assumes "bullmq B" and "getWaitingCount B q < max_depth c" and "trackpro_ok P p"
    and "tp_captured_at p = iso_format t" and "on_time now (rq_now rq)" and "now - 1200000 \<le> t" and "t \<le> now"
    and "rq_body rq = trackpro_json p"
  shows "fst (trackpro_receive P B c rq q) = Inr (''accepted'', correlation_id (rq_correlation rq) (rq_uuid rq))"
proof -
  have t: "\<bar>t\<bar> \<le> 8640000000000000" using assms(5-7) by (simp add: on_time_def)
  then obtain s where s: "parseTrackpro P (rq_ulid rq) p (iso_format (rq_now rq)) = Inr [s]" "captured_at_utc s = iso_format t"
    using assms(4) by (simp add: parseTrackpro_simps)
  have "\<not> hasExcessiveClockSkew P (captured_at_utc s) (iso_format (rq_now rq))"
    unfolding s(2) using assms(5-7) t by (intro no_skew) (simp_all add: on_time_def)
  from single_accepted [OF assms(1,2) this] show ?thesis
    using schema_of_json [OF assms(3)] s(1) assms(8) by (simp add: trackpro_receive_def ZodValidationPipe_def Let_def)
qed

lemma proswing_accepted:
  assumes "bullmq B" and "getWaitingCount B q < max_depth c" and "canonical_ok P p" and "v1_range p"
    and "ps_occurred_at (ps_shot p) = iso_format t" and "on_time now (rq_now rq)" and "now - 1200000 \<le> t" and "t \<le> now"
    and "rq_body rq = proswing_json p"
  shows "fst (proswing_receive P B c rq q) = Inr (''accepted'', correlation_id (rq_correlation rq) (rq_uuid rq))"
proof -
  have t: "\<bar>t\<bar> \<le> 8640000000000000" using assms(6-8) by (simp add: on_time_def)
  then have "date_parse (legacy_date P) (ps_occurred_at (ps_shot p)) = Some t" using assms(5) by simp
  then obtain s where s: "parseProswing P (rq_ulid rq) p (iso_format (rq_now rq)) = Inr [s]" "captured_at_utc s = iso_format t"
    using parseProswing_total [OF assms(3)] by blast
  have "\<not> hasExcessiveClockSkew P (captured_at_utc s) (iso_format (rq_now rq))"
    unfolding s(2) using assms(6-8) t by (intro no_skew) (simp_all add: on_time_def)
  from single_accepted [OF assms(1,2) this] show ?thesis
    using parse_raw_json [OF assms(3,4)] s(1) assms(9) by (simp add: proswing_receive_def proswing_pipe_def Let_def)
qed

text \<open>A batch of one shot: the answer, and the queue it leaves.\<close>

lemma swingmetric_accepted:
  assumes "bullmq B" and "getWaitingCount B q < max_depth c" and "shot_ok shot"
    and "p = swingmetric_batch_of session player device shot" and "length session \<in> {1..255}" and "length player \<in> {1..255}"
    and "length device \<in> {1..255}" and "on_time now (rq_now rq)" and "now - 1200000 \<le> sm_ts_ms shot" and "sm_ts_ms shot \<le> now"
    and "rq_body rq = payload_json v1_names p"
  obtains s where "swingmetric_receive P B c rq q
      = (Inr (''accepted'', correlation_id (rq_correlation rq) (rq_uuid rq)),
         fst (add_shot B s (correlation_id (rq_correlation rq) (rq_uuid rq)) (iso_format (rq_now rq)) q))"
    and "idempotency_key s = ''sm|'' @ join ''|'' [player, device, show_int (sm_ts_ms shot div 1000)]"
proof -
  let ?received = "iso_format (rq_now rq)"
  have t: "\<bar>sm_ts_ms shot\<bar> \<le> 8640000000000000" using assms(8-10) by (simp add: on_time_def)
  then obtain s where single: "parseSingleShot P (rq_ulid rq 0) shot p ?received = Inr s"
    using parseSingleShot_cases [of P "rq_ulid rq 0" shot p ?received] by (cases "parseSingleShot P (rq_ulid rq 0) shot p ?received") auto
  note s = parseSingleShot_fields [OF single assms(3)]
  have "\<not> hasExcessiveClockSkew P (captured_at_utc s) ?received"
    unfolding s(2) using assms(8-10) t by (intro no_skew) (simp_all add: on_time_def)
  moreover have "SwingmetricPayloadSchema P (rq_body rq) = Some p"
    using payload_schema_json [OF swingmetric_built_ok [OF assms(3,5-7)], of v1_names P] by (simp add: assms(4,11))
  moreover have "parseSwingmetric P (rq_ulid rq) p ?received = Inr [s]"
    using single by (simp add: parseSwingmetric_def assms(4) swingmetric_batch_of_def)
  ultimately have "swingmetric_receive P B c rq q
      = (Inr (''accepted'', correlation_id (rq_correlation rq) (rq_uuid rq)),
         fst (add_shot B s (correlation_id (rq_correlation rq) (rq_uuid rq)) ?received q))"
    using assms(2)
    by (simp add: swingmetric_receive_def ZodValidationPipe_def checkBatchCapacity_def enqueue_all_def depth_check_def Let_def)
  then show ?thesis using that [of s] s(10) by (simp add: assms(4) swingmetric_batch_of_def)
qed

lemma swingmetric_load_shot:
  assumes "draws u" and "on_time now received"
  shows "shot_ok \<lparr>sm_ts_ms = now - randInt (u 0) 0 5000, sm_club = ''7i'', sm_ball_speed_mph = fixed (u 1) 100 178 1,
        sm_swing_speed_mph = Some (fixed (u 2) 65 122 1), sm_launch_deg = fixed (u 3) 8 25 1,
        sm_spin_rpm = Some (randInt (u 4) 3000 7500), sm_carry_yd = of_int (randInt (u 5) 110 330),
        sm_total_yd = Some (of_int (randInt (u 6) 120 350)), sm_offline_yd = fixed (u 7) (- 16) 16 1\<rparr>"
    and "now - 1200000 \<le> now - randInt (u 0) 0 5000" and "now - randInt (u 0) 0 5000 \<le> now"
proof -
  have d: "0 \<le> u i" "u i < 1" for i using assms(1) by (simp_all add: draws_def)
  note f = fixed_bounds [OF _ d, of 1] and r = randInt_bounds [OF d]
  have ts: "0 \<le> randInt (u 0) 0 5000" "randInt (u 0) 0 5000 \<le> 5001" using r [of 0 5000 0] by simp_all
  then show "now - 1200000 \<le> now - randInt (u 0) 0 5000" "now - randInt (u 0) 0 5000 \<le> now" by simp_all
  show "shot_ok \<lparr>sm_ts_ms = now - randInt (u 0) 0 5000, sm_club = ''7i'', sm_ball_speed_mph = fixed (u 1) 100 178 1,
        sm_swing_speed_mph = Some (fixed (u 2) 65 122 1), sm_launch_deg = fixed (u 3) 8 25 1,
        sm_spin_rpm = Some (randInt (u 4) 3000 7500), sm_carry_yd = of_int (randInt (u 5) 110 330),
        sm_total_yd = Some (of_int (randInt (u 6) 120 350)), sm_offline_yd = fixed (u 7) (- 16) 16 1\<rparr>"
    using assms(2) ts f [of 100 178 1] f [of 65 122 2] f [of 8 25 3] f [of "- 16" 16 7]
      r [of 3000 7500 4] r [of 110 330 5] r [of 120 350 6]
    by (simp add: shot_ok_def on_time_def MAX_SAFE_INTEGER_def)
qed

lemma swingmetric_seed_shot:
  assumes "draws u" and "on_time now received" and "i < 10"
  shows "shot_ok \<lparr>sm_ts_ms = now - int i * 30000, sm_club = ''Driver'', sm_ball_speed_mph = fixed (u 0) 140 178 1,
        sm_swing_speed_mph = Some (fixed (u 1) 90 122 1), sm_launch_deg = fixed (u 2) 8 14 1,
        sm_spin_rpm = Some (randInt (u 3) 2000 3500), sm_carry_yd = of_int (randInt (u 4) 230 300),
        sm_total_yd = Some (of_int (randInt (u 5) 250 330)), sm_offline_yd = fixed (u 6) (- 10) 10 1\<rparr>"
proof -
  have d: "0 \<le> u i" "u i < 1" for i using assms(1) by (simp_all add: draws_def)
  note f = fixed_bounds [OF _ d, of 1] and r = randInt_bounds [OF d]
  have "int i * 30000 \<le> 300000" using assms(3) by simp
  then show ?thesis
    using assms(2) f [of 140 178 0] f [of 90 122 1] f [of 8 14 2] f [of "- 10" 10 6]
      r [of 2000 3500 3] r [of 230 300 4] r [of 250 330 5]
    by (simp add: shot_ok_def on_time_def MAX_SAFE_INTEGER_def)
qed

lemma seed_club: "length (seed_clubs ! (i mod length seed_clubs)) \<in> {1..64}"
proof -
  have "\<forall>k < 4. length (seed_clubs ! k) \<in> {1..64}" by code_simp
  then show ?thesis by (simp add: seed_clubs_def)
qed

lemma load_year: "on_time now received \<Longrightarrow> now - 1200000 \<le> t \<Longrightarrow> t \<le> now \<Longrightarrow> four_digit_year t"
  by (simp add: four_digit_year_def on_time_def)

lemma trackpro_load:
  assumes "bullmq B" and "getWaitingCount B q < max_depth c" and "draws u" and "iso_accepted P" and "on_time now (rq_now rq)"
    and "rq_body rq = trackpro_json (trackpro_shot u now user session device club t)"
    and "now - 1200000 \<le> t" and "t \<le> now"
    and "length user \<in> {1..255}" and "length session \<in> {1..255}" and "length device \<in> {1..255}" and "length club \<in> {1..64}"
  shows "fst (trackpro_receive P B c rq q) = Inr (''accepted'', correlation_id (rq_correlation rq) (rq_uuid rq))"
proof -
  have y: "four_digit_year now" "four_digit_year t" using load_year [OF assms(5)] assms(7,8) by simp_all
  have "tp_captured_at (trackpro_shot u now user session device club t) = iso_format t" by (simp add: trackpro_shot_def)
  from trackpro_accepted [OF assms(1,2) trackpro_shot_ok [OF assms(3,4) y assms(9-12)] this assms(5,7,8,6)]
  show ?thesis .
qed

lemma proswing_load:
  assumes "bullmq B" and "getWaitingCount B q < max_depth c" and "draws u" and "iso_accepted P" and "on_time now (rq_now rq)"
    and "rq_body rq = proswing_json (proswing_shot u now user club t)" and "now - 1200000 \<le> t" and "t \<le> now"
    and "length user \<in> {8..255}" and "length club \<in> {1..64}"
  shows "fst (proswing_receive P B c rq q) = Inr (''accepted'', correlation_id (rq_correlation rq) (rq_uuid rq))"
proof -
  have y: "four_digit_year now" "four_digit_year t" using load_year [OF assms(5)] assms(7,8) by simp_all
  have "ps_occurred_at (ps_shot (proswing_shot u now user club t)) = iso_format t" by (simp add: proswing_shot_def)
  from proswing_accepted [OF assms(1,2) proswing_shot_ok [OF assms(3,4) y assms(9,10)] this assms(5,7,8,6)]
  show ?thesis .
qed

lemma swingmetric_load:
  assumes "bullmq B" and "getWaitingCount B q < max_depth c" and "shot_ok shot" and "on_time now (rq_now rq)"
    and "rq_body rq = payload_json v1_names (swingmetric_batch_of session player device shot)"
    and "now - 1200000 \<le> sm_ts_ms shot" and "sm_ts_ms shot \<le> now"
    and "length session \<in> {1..255}" and "length player \<in> {1..255}" and "length device \<in> {1..255}"
  shows "fst (swingmetric_receive P B c rq q) = Inr (''accepted'', correlation_id (rq_correlation rq) (rq_uuid rq))"
  by (rule swingmetric_accepted [where P = P, OF assms(1-3) refl assms(8-10,4,6,7,5)]) simp

lemma digit_length: "i < 10 \<Longrightarrow> length (show_nat i) = 1"
  by (subst show_nat.simps) simp

text \<open>The load test exercises the accepting path: whatever \<open>Math.random()\<close> draws, every payload its builders
  and the seeds of \<open>setup\<close> make is answered 202, unless the queue is full. (Every number is drawn, rounded
  to binary64, printed with one or two decimals and read back; the ids are as the schema wants them.)\<close>

theorem load_test_accepted:
  assumes "bullmq B" and "getWaitingCount B q < max_depth c" and "draws u" and "iso_accepted P" and "on_time now (rq_now rq)"
  shows "(length user \<le> 255 \<and> rq_body rq = trackproPayload u now user \<or> (\<exists>i < 20. rq_body rq = trackpro_seed u now i) \<longrightarrow>
            fst (trackpro_receive P B c rq q) = Inr (''accepted'', correlation_id (rq_correlation rq) (rq_uuid rq)))
       \<and> (length user \<le> 255 \<and> length (show_nat vu) \<le> 200 \<and> rq_body rq = swingmetricPayload u now vu user
            \<or> (\<exists>i < 10. rq_body rq = swingmetric_seed u now i) \<longrightarrow>
            fst (swingmetric_receive P B c rq q) = Inr (''accepted'', correlation_id (rq_correlation rq) (rq_uuid rq)))
       \<and> ((user = [] \<or> length user \<in> {8..255}) \<and> rq_body rq = proswingPayload u now user
            \<or> (\<exists>i < 10. rq_body rq = proswing_seed u now i) \<longrightarrow>
            fst (proswing_receive P B c rq q) = Inr (''accepted'', correlation_id (rq_correlation rq) (rq_uuid rq)))"
proof (intro conjI impI)
  assume "length user \<le> 255 \<and> rq_body rq = trackproPayload u now user \<or> (\<exists>i < 20. rq_body rq = trackpro_seed u now i)"
  then show "fst (trackpro_receive P B c rq q) = Inr (''accepted'', correlation_id (rq_correlation rq) (rq_uuid rq))"
  proof (elim disjE exE conjE)
    assume "length user \<le> 255" and b: "rq_body rq = trackproPayload u now user"
    then show ?thesis by (intro trackpro_load [OF assms b [unfolded trackproPayload_def]]) (auto simp: Suc_le_eq)
  next
    fix i :: nat assume "i < 20" and b: "rq_body rq = trackpro_seed u now i"
    then show ?thesis
      using seed_club [of i] by (intro trackpro_load [OF assms b [unfolded trackpro_seed_def]]) simp_all
  qed
next
  assume "length user \<le> 255 \<and> length (show_nat vu) \<le> 200 \<and> rq_body rq = swingmetricPayload u now vu user
            \<or> (\<exists>i < 10. rq_body rq = swingmetric_seed u now i)"
  then show "fst (swingmetric_receive P B c rq q) = Inr (''accepted'', correlation_id (rq_correlation rq) (rq_uuid rq))"
  proof (elim disjE exE conjE)
    assume "length user \<le> 255" "length (show_nat vu) \<le> 200" and b: "rq_body rq = swingmetricPayload u now vu user"
    then show ?thesis
      using swingmetric_load_shot(2,3) [OF assms(3,5)]
      by (intro swingmetric_load [OF assms(1,2) swingmetric_load_shot(1) [OF assms(3,5)] assms(5)
            b [unfolded swingmetricPayload_def]]) (auto simp: Suc_le_eq)
  next
    fix i :: nat assume "i < 10" and b: "rq_body rq = swingmetric_seed u now i"
    then show ?thesis
      by (intro swingmetric_load [OF assms(1,2) swingmetric_seed_shot [OF assms(3,5)] assms(5)
            b [unfolded swingmetric_seed_def]]) (auto simp: digit_length)
  qed
next
  assume "(user = [] \<or> length user \<in> {8..255}) \<and> rq_body rq = proswingPayload u now user
            \<or> (\<exists>i < 10. rq_body rq = proswing_seed u now i)"
  then consider "user = [] \<or> length user \<in> {8..255}" "rq_body rq = proswingPayload u now user"
    | i where "i < 10" "rq_body rq = proswing_seed u now i" by blast
  then show "fst (proswing_receive P B c rq q) = Inr (''accepted'', correlation_id (rq_correlation rq) (rq_uuid rq))"
  proof cases
    case 1
    then show ?thesis by (intro proswing_load [OF assms 1(2) [unfolded proswingPayload_def]]) auto
  next
    case (2 i)
    then show ?thesis
      using seed_club [of i] by (intro proswing_load [OF assms 2(2) [unfolded proswing_seed_def]]) simp_all
  qed
qed

text \<open>The load test's SwingMetric shots share one player and one device, and the key is the second: of all the
  virtual users' shots in a second only one is stored. A shot of the same second is answered 202 as well,
  but leaves the queue as it was.\<close>

lemma swingmetric_load_collapses:
  assumes "bullmq B" and "draws u" and "draws u'" and "on_time now (rq_now rq)" and "on_time now' (rq_now rq')"
    and "length user \<le> 255" and "length (show_nat vu) \<le> 200" and "length (show_nat vu') \<le> 200"
    and "rq_body rq = swingmetricPayload u now vu user" and "rq_body rq' = swingmetricPayload u' now' vu' user"
    and "(now - randInt (u 0) 0 5000) div 1000 = (now' - randInt (u' 0) 0 5000) div 1000"
    and "getWaitingCount B q < max_depth c" and "swingmetric_receive P B c rq q = (a, q1)" and "getWaitingCount B q1 < max_depth c"
  shows "swingmetric_receive P B c rq' q1 = (Inr (''accepted'', correlation_id (rq_correlation rq') (rq_uuid rq')), q1)"
proof -
  define player where "player = (if user = [] then ''sm-load-test-user'' else user)"
  have len: "length player \<in> {1..255}" "length ''SWING_PRO_LOAD'' \<in> {1..255}"
    "length (''sm-sess-load-'' @ show_nat vu) \<in> {1..255}" "length (''sm-sess-load-'' @ show_nat vu') \<in> {1..255}"
    using assms(6-8) by (auto simp: player_def Suc_le_eq)
  note one = swingmetric_load_shot [OF assms(2,4)] and two = swingmetric_load_shot [OF assms(3,5)]
  let ?key = "''sm|'' @ join ''|'' [player, ''SWING_PRO_LOAD'', show_int ((now - randInt (u 0) 0 5000) div 1000)]"
  obtain s where s: "swingmetric_receive P B c rq q
      = (Inr (''accepted'', correlation_id (rq_correlation rq) (rq_uuid rq)),
         fst (add_shot B s (correlation_id (rq_correlation rq) (rq_uuid rq)) (iso_format (rq_now rq)) q))"
    "idempotency_key s = ?key"
    by (rule swingmetric_accepted [OF assms(1,12) one(1) refl len(3,1,2) assms(4) _ _
          assms(9) [unfolded swingmetricPayload_def, folded player_def]]) (use one(2,3) in auto)
  obtain s' where s': "swingmetric_receive P B c rq' q1
      = (Inr (''accepted'', correlation_id (rq_correlation rq') (rq_uuid rq')),
         fst (add_shot B s' (correlation_id (rq_correlation rq') (rq_uuid rq')) (iso_format (rq_now rq')) q1))"
    "idempotency_key s' = ?key"
    by (rule swingmetric_accepted [OF assms(1,14) two(1) refl len(4,1,2) assms(5) _ _
          assms(10) [unfolded swingmetricPayload_def, folded player_def]]) (use two(2,3) assms(11) in auto)
  have key: "idempotency_key s' = idempotency_key s" unfolding s(2) s'(2) by (rule refl)
  have q1: "q1 = fst (add_shot B s (correlation_id (rq_correlation rq) (rq_uuid rq)) (iso_format (rq_now rq)) q)"
    using s(1) assms(13) by simp
  have "getJob B (idempotency_key s') q1 \<noteq> None" unfolding key q1 by (rule add_shot_spec(2) [OF assms(1)])
  then show ?thesis using s'(1) add_shot_spec(5) [OF assms(1)] by simp
qed

definition sample_draws :: "nat \<Rightarrow> number" where
  "sample_draws i = 0"

theorem load_test_accepted_witness:
  "fst (trackpro_receive (sample_platform\<lparr>datetime_ok := \<lambda>s. True\<rparr>) list_queue None
      \<lparr>rq_body = trackproPayload sample_draws 1705307400000 [], rq_correlation = Some ''c-1'', rq_uuid = ''u-1'',
       rq_now = 1705307400250, rq_ulid = (\<lambda>i. ''01J'')\<rparr> []) = Inr (''accepted'', ''c-1'')"
proof -
  let ?P = "sample_platform\<lparr>datetime_ok := \<lambda>s. True\<rparr>"
  let ?rq = "\<lparr>rq_body = trackproPayload sample_draws 1705307400000 [], rq_correlation = Some ''c-1'', rq_uuid = ''u-1'',
       rq_now = 1705307400250, rq_ulid = (\<lambda>i. ''01J'')\<rparr>"
  have h: "getWaitingCount list_queue [] < max_depth None" "draws sample_draws" "iso_accepted ?P"
    "on_time 1705307400000 (rq_now ?rq)"
    by (simp_all add: list_queue_def max_depth_def draws_def sample_draws_def iso_accepted_def on_time_def)
  show ?thesis
    using load_test_accepted [OF list_queue_ok h, of "[]" 0] by (simp add: correlation_id_def)
qed

end
