(* ===== verification/Load_Journey.thy ===== *)
theory Load_Journey
  imports Api Load_Test
begin

text \<open>
  The course of the load test, \<open>k6-load-test.js\<close>: its scenarios and thresholds, the requests of \<open>setup\<close>,
  of an iteration and of \<open>teardown\<close>, and the checks of the responses, run against the service of
  \<open>Api\<close>. Requests never depend on responses, so each part is a list; the pauses between them are
  the clocks of the requests. A check that throws is caught and counts as failed.
\<close>

section \<open>Scenarios\<close>

text \<open>Durations in seconds, rates per second.\<close>

datatype executor =
    ConstantVus nat nat
  | RampingArrivalRate nat "(nat \<times> nat) list"
  | ConstantArrivalRate nat nat
  | RampingVus nat "(nat \<times> nat) list"

definition scenarios :: "(js_string \<times> executor) list" where
  "scenarios =
     [(''smoke'', ConstantVus 1 30),
      (''nft'', RampingArrivalRate 16 [(60, 16), (60, 32), (60, 48), (60, 64), (60, 16)]),
      (''peak'', ConstantArrivalRate 48 60),
      (''load'', RampingVus 0 [(60, 50), (180, 50), (60, 0)]),
      (''stress'', RampingVus 0 [(120, 100), (180, 200), (120, 100), (120, 0)])]"

text \<open>The 95th percentile a request of a name may take, in milliseconds, and the share of failed
  requests that a run may have, in percent.\<close>

definition latency_budget :: "js_string \<Rightarrow> js_string \<Rightarrow> nat option" where
  "latency_budget scenario name =
     (let relaxed = (scenario = ''peak'' \<or> scenario = ''stress'')
      in if name \<in> {''ingest_trackpro'', ''ingest_swingmetric'', ''ingest_proswing''} then Some (if relaxed then 500 else 300)
         else if name \<in> {''query_stats_canonical'', ''query_stats_vendor''} then Some (if relaxed then 1200 else 800)
         else if name = ''identity_list'' then Some (if relaxed then 500 else 200)
         else if name = ''identity_link'' then Some (if relaxed then 700 else 200)
         else None)"

definition error_gate :: "js_string \<Rightarrow> nat" where
  "error_gate scenario = (if scenario = ''stress'' then 10 else 1)"

section \<open>Requests\<close>

definition CANONICAL_USER_ID :: js_string where
  "CANONICAL_USER_ID = ''01JVLOADTEST000000000000A1''"

definition IDENTITY_LINK_POOL_SIZE :: nat where
  "IDENTITY_LINK_POOL_SIZE = 10"

definition IDENTITY_LINK_POOL :: "js_string list" where
  "IDENTITY_LINK_POOL = map (\<lambda>i. ''load-test-pool-'' @ show_nat i) [0..<IDENTITY_LINK_POOL_SIZE]"

text \<open>\<open>JSON_HEADERS\<close>, and \<open>QUERY_HEADERS\<close> with the key when there is one.\<close>

definition JSON_HEADERS :: headers where
  "JSON_HEADERS = (\<lambda>h. None)(''content-type'' \<mapsto> ''application/json'')"

definition QUERY_HEADERS :: "js_string \<Rightarrow> headers" where
  "QUERY_HEADERS key =
     (if key = [] then JSON_HEADERS else JSON_HEADERS(''authorization'' \<mapsto> ''Bearer '' @ key))"

definition DELETE_HEADERS :: "js_string \<Rightarrow> headers" where
  "DELETE_HEADERS key = (if key = [] then (\<lambda>h. None) else (\<lambda>h. None)(''authorization'' \<mapsto> ''Bearer '' @ key))"

definition request ::
    "http_method \<Rightarrow> js_string list \<Rightarrow> (js_string \<times> js_string) list \<Rightarrow> headers \<Rightarrow> jsval \<Rightarrow> HttpRequest" where
  "request verb path query hs body =
     \<lparr>hq_verb = verb, hq_path = path, hq_query = map_of query, hq_headers = hs, hq_body = body, hq_raw_body = None\<rparr>"

definition ingest :: "Vendor \<Rightarrow> jsval \<Rightarrow> HttpRequest" where
  "ingest v body = request POST [''v1'', ''webhooks'', vendor_string v] [] JSON_HEADERS body"

definition link_request :: "js_string \<Rightarrow> Vendor \<times> js_string \<Rightarrow> HttpRequest" where
  "link_request key = (\<lambda>(v, u).
     request POST [''v1'', ''users'', CANONICAL_USER_ID, ''identities''] [] (QUERY_HEADERS key)
       (JObj [(''vendor'', JStr (vendor_string v)), (''vendor_user_id'', JStr u)]))"

definition unlink_request :: "js_string \<Rightarrow> Vendor \<times> js_string \<Rightarrow> HttpRequest" where
  "unlink_request key = (\<lambda>(v, u).
     request DELETE [''v1'', ''users'', CANONICAL_USER_ID, ''identities'', vendor_string v, u] [] (DELETE_HEADERS key) JUndefined)"

definition query_request :: "js_string \<Rightarrow> js_string list \<Rightarrow> (js_string \<times> js_string) list \<Rightarrow> HttpRequest" where
  "query_request key path query = request GET (''v1'' # ''users'' # path) query (QUERY_HEADERS key) JUndefined"

section \<open>Set-up and teardown\<close>

definition vendors :: "(Vendor \<times> js_string) list" where
  "vendors = [(Trackpro, ''load-test-user''), (Swingmetric, ''sm-load-test-user''), (Proswing, ''ps-load-test-user'')]"

definition pool_users :: "(Vendor \<times> js_string) list" where
  "pool_users = map (\<lambda>u. (Trackpro, u)) IDENTITY_LINK_POOL"

text \<open>\<open>setup\<close>, with the clock and the draws of each seed, and the status it expects; anything else is
  a warning.\<close>

definition seeds :: "(nat \<Rightarrow> int) \<Rightarrow> (nat \<Rightarrow> nat \<Rightarrow> number) \<Rightarrow> HttpRequest list" where
  "seeds now u =
     map (\<lambda>i. ingest Trackpro (trackpro_seed (u i) (now i) i)) [0..<20]
     @ map (\<lambda>i. ingest Swingmetric (swingmetric_seed (u (20 + i)) (now (20 + i)) i)) [0..<10]
     @ map (\<lambda>i. ingest Proswing (proswing_seed (u (30 + i)) (now (30 + i)) i)) [0..<10]"

definition setup_script :: "js_string \<Rightarrow> (nat \<Rightarrow> int) \<Rightarrow> (nat \<Rightarrow> nat \<Rightarrow> number) \<Rightarrow> (HttpRequest \<times> nat) list" where
  "setup_script key now u =
     map (\<lambda>rq. (rq, 202)) (seeds now u) @ map (\<lambda>i. (link_request key i, 201)) (vendors @ pool_users)"

definition teardown_script :: "js_string \<Rightarrow> (HttpRequest \<times> nat) list" where
  "teardown_script key = map (\<lambda>i. (unlink_request key i, 204)) (vendors @ pool_users)"

text \<open>A script against a service, each request at its moment: the warnings and the state.\<close>

fun run_script ::
    "('q, 'r) Service \<Rightarrow> (nat \<Rightarrow> Moment) \<Rightarrow> (HttpRequest \<times> nat) list \<Rightarrow> ('q, 'r) App \<Rightarrow> (HttpRequest \<times> nat) list \<times> ('q, 'r) App" where
  "run_script sc mo [] app = ([], app)"
| "run_script sc mo ((rq, expected) # rest) app =
     (let (resp, app1) = api sc (mo 0) rq app;
          (warnings, app2) = run_script sc (\<lambda>i. mo (Suc i)) rest app1
      in ((if hr_status resp \<noteq> expected then [(rq, hr_status resp)] else []) @ warnings, app2))"

section \<open>Checks\<close>

text \<open>\<open>v.k\<close>, which throws on null and undefined, and \<open>v?.k\<close>.\<close>

definition js_prop :: "jsval \<Rightarrow> js_string \<Rightarrow> jsval option" where
  "js_prop v k =
     (case v of
        JUndefined \<Rightarrow> None
      | JNull \<Rightarrow> None
      | JObj kvs \<Rightarrow> Some (get kvs k)
      | JArr xs \<Rightarrow> Some (if k = ''length'' then JNum (of_nat (length xs)) else JUndefined)
      | JStr s \<Rightarrow> Some (if k = ''length'' then JNum (of_nat (length s)) else JUndefined)
      | _ \<Rightarrow> Some JUndefined)"

definition js_prop_opt :: "jsval \<Rightarrow> js_string \<Rightarrow> jsval option" where
  "js_prop_opt v k = (if v = JUndefined \<or> v = JNull then Some JUndefined else js_prop v k)"

text \<open>\<open>data[0]\<close>.\<close>

definition first :: "jsval \<Rightarrow> jsval" where
  "first v =
     (case v of
        JArr (x # xs) \<Rightarrow> x
      | JStr (c # cs) \<Rightarrow> JStr [c]
      | JObj kvs \<Rightarrow> get kvs ''0''
      | _ \<Rightarrow> JUndefined)"

definition is_array :: "jsval \<Rightarrow> bool" where
  "is_array v = (case v of JArr xs \<Rightarrow> True | _ \<Rightarrow> False)"

definition is_boolean :: "jsval \<Rightarrow> bool" where
  "is_boolean v = (case v of JBool b \<Rightarrow> True | _ \<Rightarrow> False)"

text \<open>\<open>v >= n\<close>, for a body whose length is a number or missing.\<close>

definition at_least :: "number \<Rightarrow> jsval \<Rightarrow> bool" where
  "at_least n v = (case v of JNum x \<Rightarrow> n \<le> x | _ \<Rightarrow> False)"

type_synonym check = "js_string \<times> (HttpResponse \<Rightarrow> bool)"

definition status_check :: "js_string \<Rightarrow> nat \<Rightarrow> check" where
  "status_check name n = (name, \<lambda>r. hr_status r = n)"

text \<open>\<open>try { return f(JSON.parse(r.body)) } catch { return false }\<close>.\<close>

definition body_check :: "js_string \<Rightarrow> (jsval \<Rightarrow> bool option) \<Rightarrow> check" where
  "body_check name f = (name, \<lambda>r. Option.bind (hr_body r) f = Some True)"

definition field_is :: "js_string \<Rightarrow> jsval \<Rightarrow> jsval \<Rightarrow> bool option" where
  "field_is k v b = map_option (\<lambda>x. x = v) (js_prop b k)"

definition field_array :: "js_string \<Rightarrow> jsval \<Rightarrow> bool option" where
  "field_array k b = map_option is_array (js_prop b k)"

definition has_more_boolean :: "jsval \<Rightarrow> bool option" where
  "has_more_boolean b = do { p \<leftarrow> js_prop b ''paging''; h \<leftarrow> js_prop_opt p ''has_more''; Some (is_boolean h) }"

definition has_meta :: "jsval \<Rightarrow> bool option" where
  "has_meta b = map_option (\<lambda>m. m \<noteq> JUndefined \<and> m \<noteq> JNull) (js_prop b ''meta'')"

definition first_shot_canonical :: "jsval \<Rightarrow> bool option" where
  "first_shot_canonical b =
     do { data \<leftarrow> js_prop b ''data''; n \<leftarrow> js_prop data ''length'';
          if n = JNum 0 then Some True
          else do { c \<leftarrow> js_prop (first data) ''canonical_user_id''; Some (c = JStr CANONICAL_USER_ID) } }"

definition has_window :: "jsval \<Rightarrow> bool option" where
  "has_window b =
     do { w \<leftarrow> js_prop b ''window''; since \<leftarrow> js_prop_opt w ''since''; until_utc \<leftarrow> js_prop_opt w ''until'';
          Some (nullish since JNull \<noteq> JNull \<and> nullish until_utc JNull \<noteq> JNull) }"

text \<open>\<open>map\<close> is a function of arrays only.\<close>

definition all_vendors :: "jsval \<Rightarrow> bool option" where
  "all_vendors b =
     (case b of
        JArr xs \<Rightarrow>
          do { vs \<leftarrow> those (map (\<lambda>x. js_prop x ''vendor'') xs);
               Some (JStr ''trackpro'' \<in> set vs \<and> JStr ''swingmetric'' \<in> set vs \<and> JStr ''proswing'' \<in> set vs) }
      | _ \<Rightarrow> None)"

definition ingest_checks :: "js_string \<Rightarrow> check list" where
  "ingest_checks vendor_name =
     [status_check (vendor_name @ '' ingest: status 202'') 202,
      body_check (vendor_name @ '' ingest: status=accepted'') (field_is ''status'' (JStr ''accepted''))]"

definition identity_list_checks :: "check list" where
  "identity_list_checks =
     [status_check ''Identity list: status 200'' 200,
      body_check ''Identity list: returns array'' (\<lambda>b. Some (is_array b)),
      body_check ''Identity list: has 3 vendors or more'' (\<lambda>b. map_option (at_least 3) (js_prop b ''length'')),
      body_check ''Identity list: all vendors present'' all_vendors]"

definition identity_link_checks :: "check list" where
  "identity_link_checks =
     [status_check ''Identity link: status 201'' 201,
      body_check ''Identity link: canonical_user_id matches'' (field_is ''canonical_user_id'' (JStr CANONICAL_USER_ID)),
      body_check ''Identity link: vendor is trackpro'' (field_is ''vendor'' (JStr ''trackpro''))]"

definition canonical_shots_checks :: "check list" where
  "canonical_shots_checks =
     [status_check ''Canonical shots: status 200'' 200,
      body_check ''Canonical shots: has data array'' (field_array ''data''),
      body_check ''Canonical shots: has paging.has_more'' has_more_boolean,
      body_check ''Canonical shots: has meta'' has_meta,
      body_check ''Canonical shots: shots have canonical_user_id'' first_shot_canonical]"

definition vendor_shots_checks :: "check list" where
  "vendor_shots_checks =
     [status_check ''Vendor shots: status 200'' 200,
      body_check ''Vendor shots: has data array'' (field_array ''data''),
      body_check ''Vendor shots: has paging'' has_more_boolean]"

definition canonical_stats_checks :: "check list" where
  "canonical_stats_checks =
     [status_check ''Canonical stats: status 200'' 200,
      body_check ''Canonical stats: has by_club array'' (field_array ''by_club''),
      body_check ''Canonical stats: has window'' has_window]"

definition vendor_stats_checks :: "check list" where
  "vendor_stats_checks =
     [status_check ''Vendor stats: status 200'' 200,
      body_check ''Vendor stats: has by_club array'' (field_array ''by_club'')]"

definition healthz_checks :: "check list" where
  "healthz_checks =
     [status_check ''Healthz: status 200'' 200, body_check ''Healthz: status=ok'' (field_is ''status'' (JStr ''ok''))]"

section \<open>An iteration\<close>

datatype rate = Ingest_success_rate | Identity_op_success

record Step =
  sp_rate :: "rate option"
  sp_name :: js_string
  sp_request :: HttpRequest
  sp_checks :: "check list"

definition step :: "rate option \<Rightarrow> js_string \<Rightarrow> HttpRequest \<Rightarrow> check list \<Rightarrow> Step" where
  "step r name rq cs = \<lparr>sp_rate = r, sp_name = name, sp_request = rq, sp_checks = cs\<rparr>"

definition pool_user :: "nat \<Rightarrow> js_string" where
  "pool_user vu = IDENTITY_LINK_POOL ! ((vu - 1) mod IDENTITY_LINK_POOL_SIZE)"

text \<open>\<open>default\<close>, for virtual user \<open>vu\<close> (counted from one), with the clock and the draws of each payload.\<close>

definition iteration :: "js_string \<Rightarrow> (nat \<Rightarrow> int) \<Rightarrow> (nat \<Rightarrow> nat \<Rightarrow> number) \<Rightarrow> nat \<Rightarrow> Step list" where
  "iteration key now u vu =
     [step (Some Ingest_success_rate) ''ingest_trackpro'' (ingest Trackpro (trackproPayload (u 0) (now 0) ''load-test-user''))
        (ingest_checks ''TrackPro''),
      step (Some Ingest_success_rate) ''ingest_swingmetric''
        (ingest Swingmetric (swingmetricPayload (u 1) (now 1) vu ''sm-load-test-user'')) (ingest_checks ''SwingMetric''),
      step (Some Ingest_success_rate) ''ingest_proswing'' (ingest Proswing (proswingPayload (u 2) (now 2) ''ps-load-test-user''))
        (ingest_checks ''ProSwing''),
      step (Some Identity_op_success) ''identity_list'' (query_request key [CANONICAL_USER_ID, ''identities''] [])
        identity_list_checks,
      step (Some Identity_op_success) ''identity_link'' (link_request key (Trackpro, pool_user vu)) identity_link_checks,
      step None ''query_shots_canonical'' (query_request key [CANONICAL_USER_ID, ''shots''] [(''limit'', ''10'')])
        canonical_shots_checks,
      step None ''query_shots_vendor''
        (query_request key [''by-vendor'', ''trackpro'', ''load-test-user'', ''shots''] [(''limit'', ''10'')]) vendor_shots_checks,
      step None ''query_stats_canonical'' (query_request key [CANONICAL_USER_ID, ''stats''] []) canonical_stats_checks,
      step None ''query_stats_vendor''
        (query_request key [''by-vendor'', ''trackpro'', ''load-test-user'', ''stats''] [(''club'', ''7I'')]) vendor_stats_checks,
      step None ''healthz'' (request GET [''healthz''] [] (\<lambda>h. None) JUndefined) healthz_checks]"

definition passes :: "check list \<Rightarrow> HttpResponse \<Rightarrow> bool" where
  "passes cs r \<longleftrightarrow> list_all (\<lambda>(name, ok). ok r) cs"

section \<open>The service under load\<close>

text \<open>As the load test wants it: no throttling, no webhook credentials, and the internal key it is given.\<close>

definition load_service :: "('q, 'r) Service \<Rightarrow> js_string \<Rightarrow> bool" where
  "load_service sc key \<longleftrightarrow>
     bullmq (sc_queue sc) \<and> redis_ok (sc_redis sc) \<and> iso_accepted (sc_platform sc)
     \<and> \<not> THROTTLE_ENABLED (sc_env sc) \<and> WEBHOOK_AUTH_MODE (sc_env sc) = AuthNone
     \<and> INTERNAL_API_KEY (sc_env sc) = Some key \<and> key \<noteq> []"

definition has_room :: "('q, 'r) Service \<Rightarrow> ('q, 'r) App \<Rightarrow> bool" where
  "has_room sc app \<longleftrightarrow> getWaitingCount (sc_queue sc) (ap_queue app) < max_depth (depth_setting sc)"

lemma served:
  assumes "load_service sc key" and "(r, h) \<in> set (handlers sc mo rq)" and "hq_verb rq = rt_method r"
    and "path_matches (global_prefix r) (hq_path rq)"
    and "rt_protection r = InternalKey \<Longrightarrow> hq_headers rq ''authorization'' = Some (''Bearer '' @ key)"
  shows "api sc mo rq app = map_prod (\<lambda>res. respond sc mo rq (map_sum id Some res)) id (h app)"
proof (rule api_handler [OF assms(2-4)])
  show "\<not> throttled (sc_skips sc) (sc_env sc) (mo_below mo) r"
    using assms(1) by (simp add: load_service_def throttled_def)
  show "route_guard (sc_hmac sc) (sc_env sc) r (guard_request mo rq) = Inr True"
    using assms(1,5) by (cases "rt_protection r")
      (auto simp: load_service_def route_guard_def WebhookAuthGuard_def InternalApiGuard_def guard_request_def
        bearer_Some [THEN iffD2])
qed

text \<open>The requests find their routes.\<close>

lemma request_simps [simp]:
  "hq_verb (request m p q hs b) = m" "hq_path (request m p q hs b) = p" "hq_headers (request m p q hs b) = hs"
  "hq_body (request m p q hs b) = b" "hq_query (request m p q hs b) = map_of q"
  by (simp_all add: request_def)

lemma authorization: "key \<noteq> [] \<Longrightarrow> QUERY_HEADERS key ''authorization'' = Some (''Bearer '' @ key)"
  "key \<noteq> [] \<Longrightarrow> DELETE_HEADERS key ''authorization'' = Some (''Bearer '' @ key)"
  by (simp_all add: QUERY_HEADERS_def DELETE_HEADERS_def)

lemma no_idempotency_key: "QUERY_HEADERS key ''idempotency-key'' = None"
  by (simp add: QUERY_HEADERS_def JSON_HEADERS_def)

lemma canonical_segment: "CANONICAL_USER_ID \<noteq> []" "length CANONICAL_USER_ID = 26"
  by (simp_all add: CANONICAL_USER_ID_def)

text \<open>How each kind of request is served.\<close>

definition served_by :: "('q, 'r) Service \<Rightarrow> Moment \<Rightarrow> HttpRequest \<Rightarrow> (('q, 'r) App \<Rightarrow> (exn + answer) \<times> ('q, 'r) App) \<Rightarrow> bool" where
  "served_by sc mo rq h \<longleftrightarrow> (\<forall>app. api sc mo rq app = map_prod (\<lambda>res. respond sc mo rq (map_sum id Some res)) id (h app))"

lemma served_byI:
  assumes "load_service sc key" and "(r, h) \<in> set (handlers sc mo rq)" and "hq_verb rq = rt_method r"
    and "path_matches (global_prefix r) (hq_path rq)"
    and "rt_protection r = InternalKey \<Longrightarrow> hq_headers rq ''authorization'' = Some (''Bearer '' @ key)"
  shows "served_by sc mo rq h"
  using served [OF assms] by (simp add: served_by_def)

lemma load_key: "load_service sc key \<Longrightarrow> key \<noteq> []"
  by (simp add: load_service_def)

lemmas route_simps = route_defs by_user_def by_vendor_def healthz_route_def global_prefix_def path_matches_def
  canonical_segment authorization

lemma served_trackpro:
  assumes "load_service sc key"
  shows "served_by sc mo (ingest Trackpro b) (on_queue trackpro_route (trackpro_receive (sc_platform sc) (sc_queue sc)
           (depth_setting sc) (webhook_request mo (ingest Trackpro b))))"
  by (rule served_byI [OF assms, where r = trackpro_route])
    (simp add: handlers_def Let_def, simp_all add: ingest_def route_simps vendor_string_def load_key [OF assms])

lemma served_swingmetric:
  assumes "load_service sc key"
  shows "served_by sc mo (ingest Swingmetric b) (on_queue swingmetric_route (swingmetric_receive (sc_platform sc) (sc_queue sc)
           (depth_setting sc) (webhook_request mo (ingest Swingmetric b))))"
  by (rule served_byI [OF assms, where r = swingmetric_route])
    (simp add: handlers_def Let_def, simp_all add: ingest_def route_simps vendor_string_def load_key [OF assms])

lemma served_proswing:
  assumes "load_service sc key"
  shows "served_by sc mo (ingest Proswing b) (on_queue proswing_route (proswing_receive (sc_platform sc) (sc_queue sc)
           (depth_setting sc) (webhook_request mo (ingest Proswing b))))"
  by (rule served_byI [OF assms, where r = proswing_route])
    (simp add: handlers_def Let_def, simp_all add: ingest_def route_simps vendor_string_def load_key [OF assms])

lemma served_link:
  assumes "load_service sc key"
  shows "served_by sc mo (link_request key (v, u)) (on_link sc mo (link_request key (v, u)))"
  by (rule served_byI [OF assms, where r = link_identity_route])
    (simp add: handlers_def Let_def, simp_all add: link_request_def route_simps load_key [OF assms])

lemma served_list:
  assumes "load_service sc key"
  shows "served_by sc mo (query_request key [CANONICAL_USER_ID, ''identities''] [])
           (on_list sc mo (query_request key [CANONICAL_USER_ID, ''identities''] []))"
  by (rule served_byI [OF assms, where r = list_identities_route])
    (simp add: handlers_def Let_def, simp_all add: query_request_def route_simps load_key [OF assms])

lemma served_unlink:
  assumes "load_service sc key" and "u \<noteq> []"
  shows "served_by sc mo (unlink_request key (v, u)) (on_unlink sc (unlink_request key (v, u)))"
  by (rule served_byI [OF assms(1), where r = unlink_identity_route])
    (simp add: handlers_def Let_def, simp_all add: unlink_request_def route_simps vendor_string_def assms(2) load_key [OF assms(1)] split: Vendor.split)

lemma served_shots:
  assumes "load_service sc key"
  shows "served_by sc mo (query_request key [CANONICAL_USER_ID, ''shots''] q)
           (\<lambda>app. on_read (by_user ''shots'') (map_sum id (page_json (query_of (shots_params (query_request key [CANONICAL_USER_ID, ''shots''] q))))
              (listByUser_endpoint (query_env sc mo) CANONICAL_USER_ID (shots_params (query_request key [CANONICAL_USER_ID, ''shots''] q)) (ap_db app))) app)"
  by (rule served_byI [OF assms, where r = "by_user ''shots''"])
    (simp add: handlers_def Let_def query_request_def, simp_all add: query_request_def route_simps load_key [OF assms])

lemma served_vendor_shots:
  assumes "load_service sc key"
  shows "served_by sc mo (query_request key [''by-vendor'', ''trackpro'', ''load-test-user'', ''shots''] q)
           (\<lambda>app. on_read (by_vendor ''shots'') (map_sum id (page_json (query_of (shots_params (query_request key [''by-vendor'', ''trackpro'', ''load-test-user'', ''shots''] q))))
              (listByVendorUser_endpoint (query_env sc mo) ''trackpro'' ''load-test-user'' (shots_params (query_request key [''by-vendor'', ''trackpro'', ''load-test-user'', ''shots''] q)) (ap_db app))) app)"
  by (rule served_byI [OF assms, where r = "by_vendor ''shots''"])
    (simp add: handlers_def Let_def query_request_def, simp_all add: query_request_def route_simps load_key [OF assms])

lemma served_stats:
  assumes "load_service sc key"
  shows "served_by sc mo (query_request key [CANONICAL_USER_ID, ''stats''] q)
           (\<lambda>app. on_read (by_user ''stats'') (map_sum id stats_json
              (getStats (sc_row_order sc) (query_env sc mo) CANONICAL_USER_ID (stats_params (query_request key [CANONICAL_USER_ID, ''stats''] q)) (ap_db app))) app)"
  by (rule served_byI [OF assms, where r = "by_user ''stats''"])
    (simp add: handlers_def Let_def query_request_def, simp_all add: query_request_def route_simps load_key [OF assms])

lemma served_vendor_stats:
  assumes "load_service sc key"
  shows "served_by sc mo (query_request key [''by-vendor'', ''trackpro'', ''load-test-user'', ''stats''] q)
           (\<lambda>app. on_read (by_vendor ''stats'') (map_sum id stats_json
              (getStatsByVendorUser (sc_row_order sc) (query_env sc mo) ''trackpro'' ''load-test-user'' (stats_params (query_request key [''by-vendor'', ''trackpro'', ''load-test-user'', ''stats''] q)) (ap_db app))) app)"
  by (rule served_byI [OF assms, where r = "by_vendor ''stats''"])
    (simp add: handlers_def Let_def query_request_def, simp_all add: query_request_def route_simps load_key [OF assms])

lemma served_healthz:
  assumes "load_service sc key"
  shows "served_by sc mo (request GET [''healthz''] [] hs JUndefined) (on_read healthz_route (Inr (liveness (mo_now mo))))"
  by (rule served_byI [OF assms, where r = healthz_route])
    (simp add: handlers_def Let_def, simp_all add: route_simps load_key [OF assms])

section \<open>Single steps\<close>

lemmas check_simps = passes_def status_check_def body_check_def field_is_def field_array_def js_prop_def js_prop_opt_def
  is_array_def is_boolean_def

lemma ingest_step:
  assumes "served_by sc mo rq (on_queue r receive)" and "rt_status r = 202"
  shows "fst (receive (ap_queue app)) = Inr (''accepted'', c) \<Longrightarrow> passes (ingest_checks name) (fst (api sc mo rq app))"
    and "ap_db (snd (api sc mo rq app)) = ap_db app" and "ap_redis (snd (api sc mo rq app)) = ap_redis app"
  using assms
  by (auto simp: served_by_def on_queue_def respond_def ingest_checks_def accepted_json_def check_simps split: prod.splits sum.splits)

lemma read_step:
  assumes "served_by sc mo rq (\<lambda>app. on_read r (v app) app)"
  shows "v app = Inr j \<Longrightarrow> fst (api sc mo rq app) = \<lparr>hr_status = rt_status r, hr_body = Some j\<rparr>"
    and "snd (api sc mo rq app) = app"
  using assms by (auto simp: served_by_def on_read_def respond_def split: sum.splits)

lemma healthz_step:
  assumes "load_service sc key"
  shows "passes healthz_checks (fst (api sc mo (request GET [''healthz''] [] hs JUndefined) app))"
    and "snd (api sc mo (request GET [''healthz''] [] hs JUndefined) app) = app"
proof -
  note r = read_step [where v = "\<lambda>app. Inr (liveness (mo_now mo))", OF served_healthz [OF assms]]
  show "passes healthz_checks (fst (api sc mo (request GET [''healthz''] [] hs JUndefined) app))"
    unfolding r(1) [OF refl] by (simp add: healthz_checks_def check_simps liveness_def healthz_route_def route_defs)
  show "snd (api sc mo (request GET [''healthz''] [] hs JUndefined) app) = app" by (rule r(2))
qed

text \<open>A query without a window, a cursor or a club outside the enumeration succeeds.\<close>

lemma plain_query:
  assumes "truthy (q_since q) = None" and "truthy (q_until q) = None" and "truthy (q_cursor q) = None" and "truthy (q_club q) = None"
    and "0 \<le> effective_limit q"
  obtains page where "executeQuery env f q d = Inr page"
    and "\<forall>c \<in> set (pg_data page). pred_option (\<lambda>u. canonical_user_id c = Some u) (truthy (f_canonical_user_id f))"
proof -
  have "\<exists>page. executeQuery env f q d = Inr page \<and>
      (\<forall>c \<in> set (pg_data page). pred_option (\<lambda>u. canonical_user_id c = Some u) (truthy (f_canonical_user_id f)))"
    using assms
    by (auto simp: executeQuery_def Let_def window_date_def club_param_def cursor_key_def ordered_set matches_def slice_to_def
        ShotCore.truncate_def dest!: in_set_takeD)
  with that show thesis by blast
qed

lemma parse_ten: "parseInt ''10'' = Some 10"
  by code_simp

lemma limit_ten:
  assumes "hq_query rq = map_of [(''limit'', ''10'')]"
  shows "q_since (query_of (shots_params rq)) = None" and "q_until (query_of (shots_params rq)) = None"
    and "q_cursor (query_of (shots_params rq)) = None" and "q_club (query_of (shots_params rq)) = None"
    and "effective_limit (query_of (shots_params rq)) = 10"
  using assms by (simp_all add: shots_params_def query_of_def effective_limit_def parse_ten MAX_LIMIT_def)

lemma truthy_None [simp]: "truthy None = None"
  by (simp add: truthy_def)

lemma shots_step:
  assumes "load_service sc key"
  defines "rq \<equiv> query_request key [CANONICAL_USER_ID, ''shots''] [(''limit'', ''10'')]"
  shows "passes canonical_shots_checks (fst (api sc mo rq app))" and "snd (api sc mo rq app) = app"
proof -
  note r = read_step [OF served_shots [OF assms(1), where mo = mo and q = "[(''limit'', ''10'')]"], folded rq_def]
  have "hq_query rq = map_of [(''limit'', ''10'')]" by (simp add: rq_def query_request_def)
  note l = limit_ten [OF this]
  obtain page where p: "executeQuery (query_env sc mo) \<lparr>f_canonical_user_id = Some CANONICAL_USER_ID, f_vendor = None, f_vendor_user_id = None\<rparr>
      (query_of (shots_params rq)) (ap_db app) = Inr page" and c: "\<forall>c \<in> set (pg_data page). canonical_user_id c = Some CANONICAL_USER_ID"
    by (rule plain_query [of "query_of (shots_params rq)" "query_env sc mo"
          "\<lparr>f_canonical_user_id = Some CANONICAL_USER_ID, f_vendor = None, f_vendor_user_id = None\<rparr>" "ap_db app"])
      (auto simp: l truthy_def canonical_segment(1) split: list.splits)
  have "fst (api sc mo rq app) = \<lparr>hr_status = rt_status (by_user ''shots''), hr_body = Some (page_json (query_of (shots_params rq)) page)\<rparr>"
    by (rule r(1)) (simp add: listByUser_endpoint_def listByCanonicalUser_shots_def p)
  then show "passes canonical_shots_checks (fst (api sc mo rq app))"
    using c by (cases "pg_data page")
      (simp_all add: canonical_shots_checks_def check_simps page_json_def by_user_def query_route_def has_more_boolean_def
        has_meta_def first_shot_canonical_def first_def shot_json_def opt_json_def)
  show "snd (api sc mo rq app) = app" by (rule r(2))
qed

lemma vendor_shots_step:
  assumes "load_service sc key"
  defines "rq \<equiv> query_request key [''by-vendor'', ''trackpro'', ''load-test-user'', ''shots''] [(''limit'', ''10'')]"
  shows "passes vendor_shots_checks (fst (api sc mo rq app))" and "snd (api sc mo rq app) = app"
proof -
  note r = read_step [OF served_vendor_shots [OF assms(1), where mo = mo and q = "[(''limit'', ''10'')]"], folded rq_def]
  have "hq_query rq = map_of [(''limit'', ''10'')]" by (simp add: rq_def query_request_def)
  note l = limit_ten [OF this]
  obtain page where p: "executeQuery (query_env sc mo)
      \<lparr>f_canonical_user_id = None, f_vendor = Some Trackpro, f_vendor_user_id = Some ''load-test-user''\<rparr>
      (query_of (shots_params rq)) (ap_db app) = Inr page"
    by (rule plain_query [of "query_of (shots_params rq)"]) (simp_all add: l)
  have "fst (api sc mo rq app) = \<lparr>hr_status = rt_status (by_vendor ''shots''), hr_body = Some (page_json (query_of (shots_params rq)) page)\<rparr>"
    by (rule r(1)) (simp add: listByVendorUser_endpoint_def listByVendorUser_def p VALID_VENDORS_def vendor_string_def)
  then show "passes vendor_shots_checks (fst (api sc mo rq app))"
    by (simp add: vendor_shots_checks_def check_simps page_json_def by_vendor_def query_route_def has_more_boolean_def)
  show "snd (api sc mo rq app) = app" by (rule r(2))
qed

text \<open>A statistics query without a window: the default window is not empty.\<close>

lemma plain_stats:
  assumes "sq_since q = None" and "sq_until q = None" and "pred_option (\<lambda>c. c \<in> set VALID_CLUB_CODES) (sq_club q)"
    and "four_digit_year (qe_now env)" and "four_digit_year (qe_now env - 2592000000)"
  shows "executeStatsQuery order env f label q d
     = Inr (stats_of order f label q (iso_format (qe_now env - 2592000000)) (iso_format (qe_now env)) d)"
proof -
  have "iso_format (qe_now env - 2592000000) < iso_format (qe_now env)"
    using assms(4,5) by (intro iso_format_less) simp_all
  moreover have "[] \<notin> set VALID_CLUB_CODES" by (simp add: VALID_CLUB_CODES_def)
  ultimately show ?thesis
    using assms(1-3) by (cases "sq_club q"; cases "the (sq_club q)")
      (auto simp: executeStatsQuery_def window_date_def default_since_def DEFAULT_WINDOW_DAYS_def truthy_def not_le)
qed

lemma stats_step:
  assumes "load_service sc key" and "four_digit_year (mo_now mo)" and "four_digit_year (mo_now mo - 2592000000)"
  shows "passes canonical_stats_checks (fst (api sc mo (query_request key [CANONICAL_USER_ID, ''stats''] []) app))"
    and "snd (api sc mo (query_request key [CANONICAL_USER_ID, ''stats''] []) app) = app"
    and "passes vendor_stats_checks (fst (api sc mo
           (query_request key [''by-vendor'', ''trackpro'', ''load-test-user'', ''stats''] [(''club'', ''7I'')]) app))"
    and "snd (api sc mo (query_request key [''by-vendor'', ''trackpro'', ''load-test-user'', ''stats''] [(''club'', ''7I'')]) app) = app"
proof -
  let ?c = "query_request key [CANONICAL_USER_ID, ''stats''] []"
    and ?v = "query_request key [''by-vendor'', ''trackpro'', ''load-test-user'', ''stats''] [(''club'', ''7I'')]"
  note rc = read_step [OF served_stats [OF assms(1), where mo = mo and q = "[]"]] and rv = read_step [OF served_vendor_stats [OF assms(1), where mo = mo and q = "[(''club'', ''7I'')]"]]
  have now: "qe_now (query_env sc mo) = mo_now mo" by (simp add: query_env_def)
  have p: "pred_option (\<lambda>c. c \<in> set VALID_CLUB_CODES) (sq_club (stats_params ?c))" "sq_since (stats_params ?c) = None"
    "sq_until (stats_params ?c) = None"
    "pred_option (\<lambda>c. c \<in> set VALID_CLUB_CODES) (sq_club (stats_params ?v))" "sq_since (stats_params ?v) = None"
    "sq_until (stats_params ?v) = None"
    by (simp_all add: stats_params_def query_request_def VALID_CLUB_CODES_def)
  note e = plain_stats [where env = "query_env sc mo", unfolded now, OF _ _ _ assms(2,3)]
  have "\<exists>res. fst (api sc mo ?c app) = \<lparr>hr_status = 200, hr_body = Some (stats_json res)\<rparr>"
    using rc(1) [of app] e [OF p(2,3,1)] by (simp add: getStats_def by_user_def query_route_def) blast
  then show "passes canonical_stats_checks (fst (api sc mo ?c app))"
    by (auto simp: canonical_stats_checks_def check_simps stats_json_def has_window_def nullish_def)
  have "\<exists>res. fst (api sc mo ?v app) = \<lparr>hr_status = 200, hr_body = Some (stats_json res)\<rparr>"
    using rv(1) [of app] e [OF p(5,6,4)]
    by (simp add: getStatsByVendorUser_def by_vendor_def query_route_def VALID_VENDORS_def vendor_string_def) blast
  then show "passes vendor_stats_checks (fst (api sc mo ?v app))"
    by (auto simp: vendor_stats_checks_def check_simps stats_json_def)
  show "snd (api sc mo ?c app) = app" "snd (api sc mo ?v app) = app" by (rule rc(2), rule rv(2))
qed

section \<open>Identities under load\<close>

abbreviation load_users :: "(Vendor \<times> js_string) list" where
  "load_users \<equiv> vendors @ pool_users"

lemma load_users_wf:
  "list_all (\<lambda>(v, u). u \<noteq> [] \<and> length u \<le> 255) load_users" "distinct load_users" "{Trackpro, Swingmetric, Proswing} \<subseteq> fst ` set load_users"
  by code_simp+

lemma pool_user_linked: "(Trackpro, pool_user vu) \<in> set load_users"
proof -
  have "length IDENTITY_LINK_POOL = IDENTITY_LINK_POOL_SIZE" by (simp add: IDENTITY_LINK_POOL_def)
  moreover have "(vu - 1) mod IDENTITY_LINK_POOL_SIZE < IDENTITY_LINK_POOL_SIZE" by (simp add: IDENTITY_LINK_POOL_SIZE_def)
  ultimately have "pool_user vu \<in> set IDENTITY_LINK_POOL" by (simp add: pool_user_def)
  then show ?thesis by (simp add: pool_users_def)
qed

text \<open>Every vendor is in a list of identities, and so are at least three.\<close>

definition covers :: "UserIdentity list \<Rightarrow> bool" where
  "covers rows \<longleftrightarrow> list_all (\<lambda>v. list_ex (\<lambda>q. ui_vendor q = v) rows) [Trackpro, Swingmetric, Proswing]"

lemma covers_iff: "covers rows \<longleftrightarrow> (\<forall>v. v \<in> ui_vendor ` set rows)"
proof
  assume "covers rows"
  then have "v \<in> ui_vendor ` set rows" for v
    by (cases v) (simp_all add: covers_def list_ex_iff image_iff, metis+)
  then show "\<forall>v. v \<in> ui_vendor ` set rows" by blast
next
  assume "\<forall>v. v \<in> ui_vendor ` set rows"
  then have "list_ex (\<lambda>q. ui_vendor q = v) rows" for v by (metis (mono_tags, lifting) imageE list_ex_iff)
  then show "covers rows" by (simp add: covers_def)
qed

lemma covers_length: "covers rows \<Longrightarrow> 3 \<le> length rows"
proof -
  assume "covers rows"
  then have "{Trackpro, Swingmetric, Proswing} \<subseteq> set (map ui_vendor rows)"
    by (simp add: covers_iff)
  then have "card {Trackpro, Swingmetric, Proswing} \<le> card (set (map ui_vendor rows))" by (intro card_mono) simp_all
  also have "\<dots> \<le> length rows" using card_length [of "map ui_vendor rows"] by simp
  finally show ?thesis by simp
qed

definition linked :: "Db \<Rightarrow> bool" where
  "linked d \<longleftrightarrow> list_all (\<lambda>(v, u). lookup_identity v u d = Some CANONICAL_USER_ID) load_users"

lemma linked_covers:
  assumes "linked d"
  shows "covers (sort_key f (filter (\<lambda>q. ui_canonical_user_id q = CANONICAL_USER_ID) (user_identities d)))"
proof -
  have "\<exists>q \<in> set (user_identities d). ui_canonical_user_id q = CANONICAL_USER_ID \<and> ui_vendor q = v" for v
  proof -
    have "v \<in> fst ` set load_users" using load_users_wf(3) by (cases v) blast+
    then obtain u where "(v, u) \<in> set load_users" by (auto simp del: set_append)
    then have "lookup_identity v u d = Some CANONICAL_USER_ID" using assms by (auto simp: linked_def list_all_iff)
    then obtain q where "find (\<lambda>q. identity_key q = (v, u)) (user_identities d) = Some q"
      "ui_canonical_user_id q = CANONICAL_USER_ID" by (auto simp: lookup_identity_def)
    then show ?thesis by (auto simp: identity_key_def dest!: find_SomeD intro!: bexI)
  qed
  then show ?thesis by (simp add: covers_iff image_iff) metis
qed

text \<open>What the set-up leaves and every step keeps: the links, and no cached list without them.\<close>

definition journey_ready :: "('q, 'r) Service \<Rightarrow> int \<Rightarrow> ('q, 'r) App \<Rightarrow> bool" where
  "journey_ready sc t app \<longleftrightarrow>
     db_inv (ap_db app) \<and> linked (ap_db app)
     \<and> (\<forall>t' w. t \<le> t' \<and> r_get (sc_redis sc) t' (identityListCacheKey CANONICAL_USER_ID) (ap_redis app) = Some w \<longrightarrow>
          (\<exists>rows. w = Rows rows \<and> covers rows))"

lemma journey_later: "journey_ready sc t app \<Longrightarrow> t \<le> t' \<Longrightarrow> journey_ready sc t' app"
  unfolding journey_ready_def by (meson order_trans)

lemma list_checks_pass:
  assumes "covers rows"
  shows "passes identity_list_checks \<lparr>hr_status = 200, hr_body = Some (JArr (map identity_json rows))\<rparr>"
proof -
  have "those (map (\<lambda>x. js_prop x ''vendor'') (map identity_json rows))
      = Some (map (\<lambda>q. JStr (vendor_string (ui_vendor q))) rows)"
    by (simp add: those_Some js_prop_def identity_json_def)
  moreover have "JStr (vendor_string v) \<in> set (map (\<lambda>q. JStr (vendor_string (ui_vendor q))) rows)" for v
    using assms by (auto simp: covers_iff image_iff)
  from this [of Trackpro] this [of Swingmetric] this [of Proswing]
  have "JStr ''trackpro'' \<in> set (map (\<lambda>q. JStr (vendor_string (ui_vendor q))) rows)"
    "JStr ''swingmetric'' \<in> set (map (\<lambda>q. JStr (vendor_string (ui_vendor q))) rows)"
    "JStr ''proswing'' \<in> set (map (\<lambda>q. JStr (vendor_string (ui_vendor q))) rows)"
    by (simp_all add: vendor_string_def)
  ultimately have "all_vendors (JArr (map identity_json rows)) = Some True"
    by (simp only: all_vendors_def jsval.case Option.bind.bind_lunit simp_thms)
  then show ?thesis
    using covers_length [OF assms] by (simp add: identity_list_checks_def check_simps at_least_def)
qed

lemma list_step:
  assumes "load_service sc key" and "journey_ready sc t app" and "t \<le> mo_now mo"
  defines "rq \<equiv> query_request key [CANONICAL_USER_ID, ''identities''] []"
  shows "passes identity_list_checks (fst (api sc mo rq app))" and "journey_ready sc (mo_now mo) (snd (api sc mo rq app))"
proof -
  have R: "redis_ok (sc_redis sc)" using assms(1) by (simp add: load_service_def)
  have c: "hq_path rq ! 2 = CANONICAL_USER_ID" by (simp add: rq_def query_request_def)
  obtain rows rej d r where l: "listByCanonicalUser (sc_redis sc) (mo_now mo) CANONICAL_USER_ID ''internal-api'' (ap_db app, ap_redis app)
      = ((rows, rej), (d, r))" by (metis prod.exhaust)
  have api: "api sc mo rq app = (\<lparr>hr_status = 200, hr_body = Some (JArr (map identity_json rows))\<rparr>, app\<lparr>ap_db := d, ap_redis := r\<rparr>)"
    using served_list [OF assms(1), of mo] by (simp add: served_by_def on_list_def c l respond_def flip: rq_def)
  have d: "user_identities d = user_identities (ap_db app)" by (rule list_audit_only [OF l]) simp
  have lk: "linked d" using assms(2) by (simp add: journey_ready_def linked_def lookup_identity_def d)
  have cov: "covers rows \<and> (\<forall>t' w. mo_now mo \<le> t' \<and> r_get (sc_redis sc) t' (identityListCacheKey CANONICAL_USER_ID) r = Some w \<longrightarrow>
          (\<exists>rows. w = Rows rows \<and> covers rows))"
  proof (cases "r_get (sc_redis sc) (mo_now mo) (identityListCacheKey CANONICAL_USER_ID) (ap_redis app)")
    case None
    then have "rows = sort_key ui_created_at (filter (\<lambda>q. ui_canonical_user_id q = CANONICAL_USER_ID) (user_identities (ap_db app)))"
      "r = r_set (sc_redis sc) (mo_now mo) (identityListCacheKey CANONICAL_USER_ID) (Rows rows) identity_list_cache_ttl_s (ap_redis app)"
      using l by (auto simp: list_rows Let_def split: prod.splits)
    moreover have "linked (ap_db app)" using assms(2) by (simp add: journey_ready_def)
    ultimately show ?thesis using linked_covers redis_set_same [OF R] by metis
  next
    case (Some w)
    then obtain rows' where w: "w = Rows rows'" "covers rows'" using assms(2,3) by (auto simp: journey_ready_def)
    then have "rows = rows'" "r = ap_redis app"
      using l Some list_cached [of "sc_redis sc" "mo_now mo" CANONICAL_USER_ID "ap_redis app" rows']
      by (auto simp: listByCanonicalUser_def Let_def split: prod.splits)
    then show ?thesis using w journey_later [OF assms(2,3)] by (simp add: journey_ready_def)
  qed
  show "passes identity_list_checks (fst (api sc mo rq app))" using list_checks_pass cov by (simp add: api)
  show "journey_ready sc (mo_now mo) (snd (api sc mo rq app))"
    using cov lk list_frame(3) [OF l] assms(2) by (simp add: api journey_ready_def)
qed

text \<open>A link within the columns' lengths succeeds, and its row says so.\<close>

lemma link_succeeds:
  assumes "length u \<le> 255" and "length c \<le> 26"
  obtains row d' where "linkIdentity R now v u c ''internal-api'' (d, r)
      = Inr (row, (d', r_del R [identityCacheKey (vendor_string v) u, identityListCacheKey c] r))"
    and "ui_vendor row = v" and "ui_canonical_user_id row = c"
proof (cases "linkIdentity R now v u c ''internal-api'' (d, r)")
  case (Inl e)
  then show ?thesis using link_Inl(2) [OF Inl] assms by simp
next
  case (Inr p)
  obtain row d' r' where p: "p = (row, (d', r'))" by (metis prod.exhaust)
  note l = Inr [unfolded p]
  obtain d1 where "upsert_identity now v u c d = Inr (row, d1)"
    using l by (auto simp: linkIdentity_def split: sum.splits)
  then have "ui_vendor row = v \<and> ui_canonical_user_id row = c"
    by (auto simp: upsert_identity_def Let_def identity_key_def split: if_splits option.splits dest!: find_SomeD)
  then show ?thesis using that [of row d'] l link_Inr(4) [OF l] by simp
qed

lemma link_step:
  fixes mo :: Moment
  assumes "load_service sc key" and "(v, u) \<in> set load_users" and "db_inv (ap_db app)"
  defines "rq \<equiv> link_request key (v, u)" and "app' \<equiv> snd (api sc mo (link_request key (v, u)) app)"
  shows "hr_status (fst (api sc mo rq app)) = 201" and "v = Trackpro \<Longrightarrow> passes identity_link_checks (fst (api sc mo rq app))"
    and "lookup_identity w x (ap_db app') = (if (w, x) = (v, u) then Some CANONICAL_USER_ID else lookup_identity w x (ap_db app))"
    and "r_get (sc_redis sc) t (identityListCacheKey CANONICAL_USER_ID) (ap_redis app') = None"
    and "db_inv (ap_db app')" and "ap_queue app' = ap_queue app"
proof -
  have u: "length u \<le> 255" "u \<noteq> []" using load_users_wf(1) assms(2) by (auto simp: list_all_iff)
  have R: "redis_ok (sc_redis sc)" using assms(1) by (simp add: load_service_def)
  have rq: "hq_path rq ! 2 = CANONICAL_USER_ID" "hq_headers rq ''idempotency-key'' = None"
    "hq_body rq = JObj [(''vendor'', JStr (vendor_string v)), (''vendor_user_id'', JStr u)]"
    by (simp_all add: rq_def link_request_def no_idempotency_key)
  have "LinkBodySchema (hq_body rq) = Some (v, u)"
    using u by (cases v) (auto simp: rq LinkBodySchema_def z_enum_def z_string_def vendor_string_def VALID_VENDORS_def Suc_le_eq)
  moreover obtain row d' where l: "linkIdentity (sc_redis sc) (mo_now mo) v u CANONICAL_USER_ID ''internal-api'' (ap_db app, ap_redis app)
      = Inr (row, (d', r_del (sc_redis sc) [identityCacheKey (vendor_string v) u, identityListCacheKey CANONICAL_USER_ID] (ap_redis app)))"
    and row: "ui_vendor row = v" "ui_canonical_user_id row = CANONICAL_USER_ID"
    by (rule link_succeeds [OF u(1), of CANONICAL_USER_ID "sc_redis sc" "mo_now mo" v "ap_db app" "ap_redis app"]) (simp add: canonical_segment)
  ultimately have api: "api sc mo rq app = (\<lparr>hr_status = 201, hr_body = Some (identity_json row)\<rparr>,
      app\<lparr>ap_db := d', ap_redis := r_del (sc_redis sc) [identityCacheKey (vendor_string v) u, identityListCacheKey CANONICAL_USER_ID] (ap_redis app)\<rparr>)"
    using served_link [OF assms(1), of mo v u, folded rq_def]
    by (simp add: served_by_def on_link_def link_route_def intercept_def header_key_simps rq(1,2) link_handler_def link_endpoint_def
        ZodValidationPipe_def respond_def)
  show "hr_status (fst (api sc mo rq app)) = 201" by (simp add: api)
  show "passes identity_link_checks (fst (api sc mo rq app))" if "v = Trackpro"
    using that row by (simp add: api identity_link_checks_def check_simps identity_json_def vendor_string_def)
  note app' = api [unfolded rq_def]
  show "lookup_identity w x (ap_db app') = (if (w, x) = (v, u) then Some CANONICAL_USER_ID else lookup_identity w x (ap_db app))"
    using link_Inr(1) [OF l] by (simp add: app'_def app')
  show "r_get (sc_redis sc) t (identityListCacheKey CANONICAL_USER_ID) (ap_redis app') = None"
    by (simp add: app'_def app' redis_del [OF R])
  show "db_inv (ap_db app')" using link_Inr(5) [OF l assms(3)] by (simp add: app'_def app')
  show "ap_queue app' = ap_queue app" by (simp add: app'_def app')
qed

lemma unlink_step:
  fixes mo :: Moment
  assumes "load_service sc key" and "(v, u) \<in> set load_users" and "db_inv (ap_db app)"
    and "lookup_identity v u (ap_db app) = Some CANONICAL_USER_ID"
  defines "app' \<equiv> snd (api sc mo (unlink_request key (v, u)) app)"
  shows "hr_status (fst (api sc mo (unlink_request key (v, u)) app)) = 204"
    and "lookup_identity w x (ap_db app') = (if (w, x) = (v, u) then None else lookup_identity w x (ap_db app))"
    and "db_inv (ap_db app')"
proof -
  let ?rq = "unlink_request key (v, u)" and ?R = "sc_redis sc"
  have u: "u \<noteq> []" "length u \<le> 255" using load_users_wf(1) assms(2) by (auto simp: list_all_iff)
  have D: "distinct (map identity_key (user_identities (ap_db app)))" using assms(3) by (simp add: db_inv_def)
  have "list_ex (\<lambda>q. identity_key q = (v, u) \<and> ui_canonical_user_id q = CANONICAL_USER_ID) (user_identities (ap_db app))"
    using mapped_iff [OF D] assms(4) by simp
  then obtain d' r' where l: "unlinkIdentity ?R v u CANONICAL_USER_ID ''internal-api'' (ap_db app, ap_redis app) = Inr (d', r')"
    using u(2) canonical_segment(2)
    by (auto simp: unlinkIdentity_def Let_def audit_record_def audit_check_def identity_audit_def varchar_def vendor_string_def
        split: if_splits Vendor.splits)
  have "hq_path ?rq ! 2 = CANONICAL_USER_ID" "hq_path ?rq ! 4 = vendor_string v" "hq_path ?rq ! 5 = u"
    by (simp_all add: unlink_request_def)
  then have api: "api sc mo ?rq app = (\<lparr>hr_status = 204, hr_body = None\<rparr>, app\<lparr>ap_db := d', ap_redis := r'\<rparr>)"
    using served_unlink [OF assms(1) u(1), of mo v]
    by (simp add: served_by_def on_unlink_def unlink_endpoint_def l respond_def)
  show "hr_status (fst (api sc mo ?rq app)) = 204" by (simp add: api)
  show "lookup_identity w x (ap_db app') = (if (w, x) = (v, u) then None else lookup_identity w x (ap_db app))"
    using unlink_Inr(2) [OF D l] by (simp add: app'_def api)
  show "db_inv (ap_db app')" using unlink_frame(3) [OF l assms(3)] by (simp add: app'_def api)
qed

text \<open>The links and unlinks of a whole script.\<close>

lemma run_links:
  assumes "load_service sc key" and "set us \<subseteq> set load_users" and "db_inv (ap_db app)"
    and "run_script sc mo (map (\<lambda>i. (link_request key i, 201)) us) app = (warnings, app')"
  shows "warnings = []" and "db_inv (ap_db app')"
    and "\<forall>w x. lookup_identity w x (ap_db app')
           = (if (w, x) \<in> set us then Some CANONICAL_USER_ID else lookup_identity w x (ap_db app))"
    and "us \<noteq> [] \<Longrightarrow> r_get (sc_redis sc) t (identityListCacheKey CANONICAL_USER_ID) (ap_redis app') = None"
proof -
  have "warnings = [] \<and> db_inv (ap_db app')
      \<and> (\<forall>w x. lookup_identity w x (ap_db app')
           = (if (w, x) \<in> set us then Some CANONICAL_USER_ID else lookup_identity w x (ap_db app)))
      \<and> (us \<noteq> [] \<longrightarrow> r_get (sc_redis sc) t (identityListCacheKey CANONICAL_USER_ID) (ap_redis app') = None)"
    using assms(2-4)
  proof (induction us arbitrary: mo app warnings)
    case (Cons i us)
    obtain v u where i: "i = (v, u)" by (cases i)
    obtain resp app1 where a: "api sc (mo 0) (link_request key (v, u)) app = (resp, app1)" by (metis prod.exhaust)
    obtain ws where r: "run_script sc (\<lambda>i. mo (Suc i)) (map (\<lambda>i. (link_request key i, 201)) us) app1 = (ws, app')"
      and w: "warnings = (if hr_status resp \<noteq> 201 then [(link_request key (v, u), hr_status resp)] else []) @ ws"
      using Cons.prems(3) by (auto simp: i a split: prod.splits)
    note l = link_step [OF assms(1), of v u app, where mo = "mo 0"]
    have m: "(v, u) \<in> set load_users" using Cons.prems(1) by (simp add: i)
    have "hr_status resp = 201" "db_inv (ap_db app1)"
      "\<And>t. r_get (sc_redis sc) t (identityListCacheKey CANONICAL_USER_ID) (ap_redis app1) = None"
      "\<And>w x. lookup_identity w x (ap_db app1) = (if (w, x) = (v, u) then Some CANONICAL_USER_ID else lookup_identity w x (ap_db app))"
      using l [OF m Cons.prems(2)] by (simp_all add: a)
    then show ?case
      using Cons.IH [OF _ _ r] Cons.prems(1) r by (cases us) (auto simp: w i)
  qed simp
  then show "warnings = []" "db_inv (ap_db app')"
    "\<forall>w x. lookup_identity w x (ap_db app')
           = (if (w, x) \<in> set us then Some CANONICAL_USER_ID else lookup_identity w x (ap_db app))"
    "us \<noteq> [] \<Longrightarrow> r_get (sc_redis sc) t (identityListCacheKey CANONICAL_USER_ID) (ap_redis app') = None" by auto
qed

lemma run_unlinks:
  assumes "load_service sc key" and "set us \<subseteq> set load_users" and "distinct us" and "db_inv (ap_db app)"
    and "\<forall>(v, u) \<in> set us. lookup_identity v u (ap_db app) = Some CANONICAL_USER_ID"
    and "run_script sc mo (map (\<lambda>i. (unlink_request key i, 204)) us) app = (warnings, app')"
  shows "warnings = []"
    and "\<forall>w x. lookup_identity w x (ap_db app') = (if (w, x) \<in> set us then None else lookup_identity w x (ap_db app))"
proof -
  have "warnings = []
      \<and> (\<forall>w x. lookup_identity w x (ap_db app') = (if (w, x) \<in> set us then None else lookup_identity w x (ap_db app)))"
    using assms(2-6)
  proof (induction us arbitrary: mo app warnings)
    case (Cons i us)
    obtain v u where i: "i = (v, u)" by (cases i)
    obtain resp app1 where a: "api sc (mo 0) (unlink_request key (v, u)) app = (resp, app1)" by (metis prod.exhaust)
    obtain ws where r: "run_script sc (\<lambda>i. mo (Suc i)) (map (\<lambda>i. (unlink_request key i, 204)) us) app1 = (ws, app')"
      and w: "warnings = (if hr_status resp \<noteq> 204 then [(unlink_request key (v, u), hr_status resp)] else []) @ ws"
      using Cons.prems(5) by (auto simp: i a split: prod.splits)
    have m: "(v, u) \<in> set load_users" "lookup_identity v u (ap_db app) = Some CANONICAL_USER_ID"
      using Cons.prems(1,4) by (simp_all add: i)
    note l = unlink_step [OF assms(1) m(1) Cons.prems(3) m(2), where mo = "mo 0", unfolded a fst_conv snd_conv]
    have "\<forall>(w, x) \<in> set us. lookup_identity w x (ap_db app1) = Some CANONICAL_USER_ID"
      using Cons.prems(2,4) l(2) by (auto simp: i)
    with Cons.IH [OF _ _ l(3) _ r] Cons.prems(1,2) l(1,2) show ?case by (auto simp: w i)
  qed simp
  then show "warnings = []"
    "\<forall>w x. lookup_identity w x (ap_db app') = (if (w, x) \<in> set us then None else lookup_identity w x (ap_db app))" by auto
qed

section \<open>The run\<close>

lemma ingest_frame:
  assumes "load_service sc key"
  shows "ap_db (snd (api sc mo (ingest v b) app)) = ap_db app" and "ap_redis (snd (api sc mo (ingest v b) app)) = ap_redis app"
  using ingest_step(2,3) [OF served_trackpro [OF assms], of mo b app] ingest_step(2,3) [OF served_swingmetric [OF assms], of mo b app]
    ingest_step(2,3) [OF served_proswing [OF assms], of mo b app]
  by (cases v; simp add: trackpro_route_def swingmetric_route_def proswing_route_def)+

lemma run_script_append:
  "run_script sc mo (xs @ ys) app =
     (let (w1, app1) = run_script sc mo xs app; (w2, app2) = run_script sc (\<lambda>i. mo (length xs + i)) ys app1 in (w1 @ w2, app2))"
proof (induction xs arbitrary: mo app)
  case (Cons x xs)
  obtain rq expected where x: "x = (rq, expected)" by (cases x)
  show ?case by (simp add: x Cons.IH Let_def split: prod.split)
qed simp

lemma run_seeds:
  assumes "load_service sc key" and "\<forall>rq \<in> set rqs. \<exists>v b. rq = ingest v b"
    and "run_script sc mo (map (\<lambda>rq. (rq, 202)) rqs) app = (warnings, app')"
  shows "ap_db app' = ap_db app" and "ap_redis app' = ap_redis app" and "fst ` set warnings \<subseteq> set rqs"
proof -
  have "ap_db app' = ap_db app \<and> ap_redis app' = ap_redis app \<and> fst ` set warnings \<subseteq> set rqs"
    using assms(2,3)
  proof (induction rqs arbitrary: mo app warnings)
    case (Cons rq rqs)
    obtain v b where rq: "rq = ingest v b" using Cons.prems(1) by auto
    obtain resp app1 where a: "api sc (mo 0) rq app = (resp, app1)" by (metis prod.exhaust)
    obtain ws where r: "run_script sc (\<lambda>i. mo (Suc i)) (map (\<lambda>rq. (rq, 202)) rqs) app1 = (ws, app')"
      and w: "warnings = (if hr_status resp \<noteq> 202 then [(rq, hr_status resp)] else []) @ ws"
      using Cons.prems(2) by (auto simp: a split: prod.splits)
    have "ap_db app1 = ap_db app" "ap_redis app1 = ap_redis app"
      using ingest_frame [OF assms(1), of "mo 0" v b app] by (simp_all add: a flip: rq)
    with Cons.IH [OF _ r] Cons.prems(1) show ?case by (auto simp: w)
  qed simp
  then show "ap_db app' = ap_db app" "ap_redis app' = ap_redis app" "fst ` set warnings \<subseteq> set rqs" by auto
qed

lemma setup_ready:
  assumes "load_service sc key" and "db_inv (ap_db app)"
    and "run_script sc mo (setup_script key now u) app = (warnings, app')"
  shows "journey_ready sc t app'" and "fst ` set warnings \<subseteq> set (seeds now u)"
proof -
  obtain w1 app1 where s: "run_script sc mo (map (\<lambda>rq. (rq, 202)) (seeds now u)) app = (w1, app1)" by (metis prod.exhaust)
  obtain w2 app2 where l: "run_script sc (\<lambda>i. mo (length (seeds now u) + i)) (map (\<lambda>i. (link_request key i, 201)) load_users) app1
      = (w2, app2)" by (metis prod.exhaust)
  have r: "warnings = w1 @ w2" "app' = app2"
    using assms(3) unfolding setup_script_def run_script_append s prod.case Let_def length_map l by auto
  have "\<forall>rq \<in> set (seeds now u). \<exists>v b. rq = ingest v b" by (auto simp: seeds_def)
  note f = run_seeds [OF assms(1) this s]
  have inv: "db_inv (ap_db app1)" using assms(2) f(1) by simp
  note i = run_links [OF assms(1) subset_refl inv l]
  have "load_users \<noteq> []" by (simp add: vendors_def)
  then show "journey_ready sc t app'" using i by (auto simp: journey_ready_def linked_def list_all_iff r(2))
  show "fst ` set warnings \<subseteq> set (seeds now u)" using f(3) i(1) by (simp add: r(1))
qed

text \<open>One step of an iteration: it keeps the links, and its checks pass.\<close>

lemma iteration_step:
  assumes "load_service sc key" and "journey_ready sc t app" and "t \<le> mo_now mo" and "st \<in> set (iteration key now u vu)"
  shows "journey_ready sc (mo_now mo) (snd (api sc mo (sp_request st) app))"
proof -
  note later = journey_later [OF assms(2,3)]
  have inv: "db_inv (ap_db app)" using assms(2) by (simp add: journey_ready_def)
  have ingest: "journey_ready sc (mo_now mo) (snd (api sc mo (ingest v b) app))" for v b
    using later ingest_frame [OF assms(1), of mo v b app] by (simp add: journey_ready_def)
  have link: "journey_ready sc (mo_now mo) (snd (api sc mo (link_request key (Trackpro, pool_user vu)) app))"
    using later link_step(3-5) [OF assms(1) pool_user_linked inv, where mo = mo]
    by (auto simp: journey_ready_def linked_def list_all_iff simp del: set_append)
  show ?thesis
    using assms(4) later ingest link list_step(2) [OF assms(1-3)] healthz_step(2) [OF assms(1)] shots_step(2) [OF assms(1)]
      vendor_shots_step(2) [OF assms(1)] read_step(2) [OF served_stats [OF assms(1)]] read_step(2) [OF served_vendor_stats [OF assms(1)]]
    by (auto simp: iteration_def step_def)
qed

lemma ingest_passes:
  assumes "load_service sc key" and "has_room sc app" and "draws u" and "on_time now (mo_now mo)" and "length (show_nat vu) \<le> 200"
  shows "passes (ingest_checks n) (fst (api sc mo (ingest Trackpro (trackproPayload u now ''load-test-user'')) app))"
    and "passes (ingest_checks n) (fst (api sc mo (ingest Swingmetric (swingmetricPayload u now vu ''sm-load-test-user'')) app))"
    and "passes (ingest_checks n) (fst (api sc mo (ingest Proswing (proswingPayload u now ''ps-load-test-user'')) app))"
proof -
  have h: "bullmq (sc_queue sc)" "iso_accepted (sc_platform sc)" using assms(1) by (simp_all add: load_service_def)
  note room = assms(2) [unfolded has_room_def]
  have rq: "rq_body (webhook_request mo (ingest v b)) = b" "rq_now (webhook_request mo (ingest v b)) = mo_now mo" for v b
    by (simp_all add: webhook_request_def ingest_def)
  have t: "on_time now (rq_now (webhook_request mo (ingest v b)))" for v b using assms(4) by (simp add: rq)
  note a = load_test_accepted [OF h(1) room assms(3) h(2) t, unfolded rq]
  show "passes (ingest_checks n) (fst (api sc mo (ingest Trackpro (trackproPayload u now ''load-test-user'')) app))"
    by (rule ingest_step(1) [OF served_trackpro [OF assms(1)]], simp add: trackpro_route_def, rule a [THEN conjunct1, THEN mp, OF disjI1, OF conjI [OF _ refl]], simp)
  show "passes (ingest_checks n) (fst (api sc mo (ingest Swingmetric (swingmetricPayload u now vu ''sm-load-test-user'')) app))"
    by (rule ingest_step(1) [OF served_swingmetric [OF assms(1)]], simp add: swingmetric_route_def, rule a [THEN conjunct2, THEN conjunct1, THEN mp, OF disjI1, OF conjI [OF _ conjI [OF assms(5) refl]]], simp)
  show "passes (ingest_checks n) (fst (api sc mo (ingest Proswing (proswingPayload u now ''ps-load-test-user'')) app))"
    by (rule ingest_step(1) [OF served_proswing [OF assms(1)]], simp add: proswing_route_def, rule a [THEN conjunct2, THEN conjunct2, THEN mp, OF disjI1, OF conjI [OF _ refl]], simp)
qed

lemma iteration_passes:
  assumes "load_service sc key" and "journey_ready sc t app" and "t \<le> mo_now mo" and "0 \<le> mo_now mo" and "mo_now mo < 253402300800000"
    and "length (show_nat vu) \<le> 200" and "st \<in> set (iteration key now u vu)"
    and "sp_rate st = Some Ingest_success_rate \<longrightarrow> has_room sc app \<and> (\<forall>i < 3. draws (u i) \<and> on_time (now i) (mo_now mo))"
  shows "passes (sp_checks st) (fst (api sc mo (sp_request st) app))"
proof -
  have y: "four_digit_year (mo_now mo)" "four_digit_year (mo_now mo - 2592000000)"
    using assms(4,5) by (simp_all add: four_digit_year_def)
  have inv: "db_inv (ap_db app)" using assms(2) by (simp add: journey_ready_def)
  note ingest = ingest_passes [OF assms(1) _ _ _ assms(6), where mo = mo and app = app]
  have r: "has_room sc app \<and> draws (u 0) \<and> on_time (now 0) (mo_now mo) \<and> draws (u 1) \<and> on_time (now 1) (mo_now mo)
      \<and> draws (u 2) \<and> on_time (now 2) (mo_now mo)" if "sp_rate st = Some Ingest_success_rate"
    using assms(8) that by simp
  show ?thesis
    using assms(7) r ingest list_step(1) [OF assms(1-3)] link_step(2) [OF assms(1) pool_user_linked inv, where mo = mo]
      shots_step(1) [OF assms(1)] vendor_shots_step(1) [OF assms(1)] stats_step(1,3) [OF assms(1) y] healthz_step(1) [OF assms(1)]
    by (auto simp: iteration_def step_def)
qed

text \<open>Any number of virtual users, in any interleaving of their steps, with the workers and anyone else at work
  between them, as long as those keep the table's invariant, leave the identities alone and write no list of
  the canonical user into the cache.\<close>

inductive under_load :: "('q, 'r) Service \<Rightarrow> js_string \<Rightarrow> int \<Rightarrow> ('q, 'r) App \<Rightarrow> bool" for sc key where
  set_up: "db_inv (ap_db app) \<Longrightarrow> under_load sc key t (snd (run_script sc mos (setup_script key now u) app))"
| iterate: "under_load sc key t app \<Longrightarrow> t \<le> mo_now mo \<Longrightarrow> st \<in> set (iteration key now u vu) \<Longrightarrow>
     under_load sc key (mo_now mo) (snd (api sc mo (sp_request st) app))"
| others: "under_load sc key t app \<Longrightarrow> db_inv (ap_db app') \<Longrightarrow> user_identities (ap_db app') = user_identities (ap_db app) \<Longrightarrow>
     (\<forall>t'. r_get (sc_redis sc) t' (identityListCacheKey CANONICAL_USER_ID) (ap_redis app')
         = r_get (sc_redis sc) t' (identityListCacheKey CANONICAL_USER_ID) (ap_redis app)) \<Longrightarrow>
     under_load sc key t app'"

lemma under_load_ready:
  assumes "load_service sc key" and "under_load sc key t app"
  shows "journey_ready sc t app"
  using assms(2)
proof (induction rule: under_load.induct)
  case (set_up app t mos now u)
  show ?case by (rule setup_ready(1) [OF assms(1) set_up prod.collapse [symmetric]])
next
  case (iterate t app mo st now u vu)
  show ?case by (rule iteration_step [OF assms(1) iterate.IH iterate.hyps(2,3)])
next
  case (others t app app')
  then show ?case by (simp add: journey_ready_def linked_def lookup_identity_def)
qed

section \<open>Rates\<close>

text \<open>The highest number of iterations per second of an executor that fixes it.\<close>

definition top_rate :: "executor \<Rightarrow> nat option" where
  "top_rate ex =
     (case ex of
        ConstantArrivalRate r secs \<Rightarrow> Some r
      | RampingArrivalRate start stages \<Rightarrow> Some (foldl max start (map snd stages))
      | _ \<Rightarrow> None)"

text \<open>An iteration posts three shots, so the peak scenario posts 144 shots per second (the usage note says 96),
  and the NFR scenario never fewer than 48. The canonical user id has the length of a ULID
  but letters that the alphabet of ULIDs leaves out.\<close>

lemma scenario_rates:
  "length (filter (\<lambda>st. sp_rate st = Some Ingest_success_rate) (iteration key now u vu)) = 3"
  "Option.bind (map_of scenarios ''peak'') top_rate = Some 48" "Option.bind (map_of scenarios ''nft'') top_rate = Some 64"
  by (simp_all add: iteration_def step_def scenarios_def top_rate_def)

lemma canonical_id_alphabet:
  "length CANONICAL_USER_ID = 26" "filter (\<lambda>c. c \<notin> set ''0123456789ABCDEFGHJKMNPQRSTVWXYZ'') CANONICAL_USER_ID = ''LO''"
  by (simp_all add: CANONICAL_USER_ID_def)

section \<open>The load test measures the service\<close>

text \<open>C9: The load test against the service it is written for, with throttling off, no webhook credentials and
  the internal key: after \<open>setup\<close>, however the steps of any number of virtual users interleave with
  each other and with the workers, every check of every step passes, unless the queue is full when a
  shot is posted. So a failed check means a missed deadline or a full queue, never a false alarm. The
  set-up warns about nothing but refused seeds; \<open>teardown\<close>, at any time, removes all
  thirteen identities without a warning.\<close>

theorem load_test_run:
  assumes "load_service sc key" and "under_load sc key t app" and "t \<le> mo_now mo"
    and "0 \<le> mo_now mo" and "mo_now mo < 253402300800000" and "length (show_nat vu) \<le> 200"
    and "st \<in> set (iteration key now u vu)"
    and "sp_rate st = Some Ingest_success_rate \<longrightarrow> has_room sc app \<and> (\<forall>i < 3. draws (u i) \<and> on_time (now i) (mo_now mo))"
    and "run_script sc mos (teardown_script key) app = (warnings, app')"
    and "db_inv (ap_db app0)" and "run_script sc mos0 (setup_script key now0 u0) app0 = (warnings0, app1)"
  shows "passes (sp_checks st) (fst (api sc mo (sp_request st) app))
       \<and> warnings = [] \<and> (\<forall>(v, x) \<in> set (vendors @ pool_users). lookup_identity v x (ap_db app') = None)
       \<and> fst ` set warnings0 \<subseteq> set (seeds now0 u0)"
proof -
  note ready = under_load_ready [OF assms(1,2)]
  have l: "db_inv (ap_db app)" "\<forall>(v, x) \<in> set load_users. lookup_identity v x (ap_db app) = Some CANONICAL_USER_ID"
    using ready by (simp_all add: journey_ready_def linked_def list_all_iff)
  note down = run_unlinks [OF assms(1) subset_refl load_users_wf(2) l assms(9) [unfolded teardown_script_def]]
  show ?thesis
    using iteration_passes [OF assms(1) ready assms(3-8)] down setup_ready(2) [OF assms(1,10,11)] by auto
qed

lemma sample_load_service: "load_service sample_service ''fedcba9876543210fedcba9876543210''"
  by (simp add: load_service_def sample_service_simps list_queue_ok map_redis_ok iso_accepted_def sample_env_typed_def)

text \<open>The first listing after the set-up of an empty database.\<close>

theorem load_test_run_witness:
  "let key = ''fedcba9876543210fedcba9876543210'';
       app = snd (run_script sample_service (\<lambda>i. sample_moment (1705307400000 + int i)) (setup_script key (\<lambda>i. 1705307400000) (\<lambda>i. sample_draws))
               \<lparr>ap_db = empty_db, ap_redis = \<lambda>k. None, ap_queue = []\<rparr>)
   in passes identity_list_checks (fst (api sample_service (sample_moment 1705307460000)
        (query_request key [CANONICAL_USER_ID, ''identities''] []) app))"
proof -
  let ?key = "''fedcba9876543210fedcba9876543210''" and ?empty = "\<lparr>ap_db = empty_db, ap_redis = \<lambda>k. None, ap_queue = []\<rparr>"
  let ?script = "setup_script ?key (\<lambda>i. 1705307400000) (\<lambda>i. sample_draws)"
    and ?mos = "\<lambda>i. sample_moment (1705307400000 + int i)"
  let ?app = "snd (run_script sample_service ?mos ?script ?empty)"
  let ?st = "step (Some Identity_op_success) ''identity_list'' (query_request ?key [CANONICAL_USER_ID, ''identities''] []) identity_list_checks"
  have inv: "db_inv (ap_db ?empty)" using empty_db_inv(1) by simp
  have u: "under_load sample_service ?key 1705307460000 ?app" by (rule under_load.set_up [OF inv])
  have m: "?st \<in> set (iteration ?key (\<lambda>i. 1705307460000) (\<lambda>i. sample_draws) 1)" by (simp add: iteration_def)
  have "passes (sp_checks ?st) (fst (api sample_service (sample_moment 1705307460000) (sp_request ?st) ?app))"
    by (rule load_test_run [OF sample_load_service u _ _ _ _ m _ prod.collapse [symmetric] inv prod.collapse [symmetric], THEN conjunct1])
      (simp_all add: sample_moment_def step_def show_nat.simps)
  then show ?thesis by (simp add: step_def)
qed

end
