(* ===== verification/App_Modules.thy ===== *)
theory App_Modules
  imports Prelude
begin

text \<open>
  The modules of the two processes, as \<open>app.module.ts\<close>, \<open>worker.module.ts\<close> and the \<open>*.module.ts\<close> files
  declare them: the tree of imports below each root, with the classes of each module, what their constructors
  inject and what the module exports. What runs in a process follows from its tree: the consumers of the queue, the
  intervals that \<open>onModuleInit\<close> starts, the controllers. The container of NestJS, which creates the instances, and
  the modules of libraries are parameters, with their documentation as \<open>nest_doc\<close> and \<open>libraries_doc\<close>.
\<close>

section \<open>Classes and modules\<close>

text \<open>A class or symbol that can be injected: those of the sources, and those of libraries by name.\<close>

datatype token =
    REDIS | KYSELY
  | ConfigService_class | QueueOfShots | Options js_string
  | AuditLogService_class | IdentityService_class | ShotRepository_class | ShotIngestionQueue_class
  | ShotIngestionProcessor_class | OutboxPublisherService_class | ShotsService_class | StatsService_class
  | GlobalExceptionFilter_class | RequestIdInterceptor_class | IdempotencyInterceptor_class
  | WebhookAuthGuard_class | InternalApiGuard_class | ThrottlerGuard_class
  | TrackproController_class | SwingmetricController_class | ProswingController_class | ShotsController_class
  | StatsController_class | IdentityController_class | HealthController_class | MetricsController_class
  | LibraryClass js_string

text \<open>A class with the tokens its constructor injects; \<open>@Processor\<close> makes it a consumer with a
  concurrency, and \<open>onModuleInit\<close> may start an interval that \<open>onModuleDestroy\<close> clears.\<close>

record NestClass =
  nc_token :: token
  nc_inject :: "token list"
  nc_processor :: "nat option"
  nc_interval :: "nat option"

definition nest_class :: "token \<Rightarrow> token list \<Rightarrow> NestClass" where
  "nest_class t ds = \<lparr>nc_token = t, nc_inject = ds, nc_processor = None, nc_interval = None\<rparr>"

text \<open>A module exports tokens, or a module it imports with all that one exports.\<close>

datatype exportable = ExportToken token | ExportModule js_string

datatype NestModule =
  NestModule (md_name: js_string) (md_global: bool) (md_imports: "NestModule list") (md_providers: "NestClass list")
    (md_enhancers: "NestClass list") (md_controllers: "NestClass list") (md_exports: "exportable list")

section \<open>Resolution\<close>

fun all_modules :: "NestModule \<Rightarrow> NestModule list" where
  "all_modules (NestModule n g ms ps hs cs es) = NestModule n g ms ps hs cs es # concat (map all_modules ms)"

fun exported :: "NestModule \<Rightarrow> token list" where
  "exported (NestModule n g ms ps hs cs es) =
     concat (map (\<lambda>e. case e of ExportToken t \<Rightarrow> [t] | ExportModule m \<Rightarrow> []) es)
     @ concat (map (\<lambda>m. if ExportModule (md_name m) \<in> set es then exported m else []) ms)"

definition classes :: "NestModule \<Rightarrow> NestClass list" where
  "classes m = md_providers m @ md_enhancers m @ md_controllers m"

text \<open>What the classes of a module can inject: the core's tokens, the module's own providers, the
  exports of its imports, and those of global modules anywhere below the root.\<close>

definition globals :: "NestModule \<Rightarrow> token list" where
  "globals app = concat (map exported (filter md_global (all_modules app)))"

definition visible :: "token list \<Rightarrow> NestModule \<Rightarrow> NestModule \<Rightarrow> token list" where
  "visible core app m =
     core @ map nc_token (md_providers m) @ concat (map exported (md_imports m)) @ globals app"

definition unresolved :: "token list \<Rightarrow> NestModule \<Rightarrow> (js_string \<times> token \<times> token) list" where
  "unresolved core app =
     concat (map (\<lambda>m. concat (map (\<lambda>c.
         map (\<lambda>d. (md_name m, nc_token c, d)) (filter (\<lambda>d. d \<notin> set (visible core app m)) (nc_inject c)))
       (classes m))) (all_modules app))"

text \<open>The classes to create, each with its module; a module that is imported twice occurs twice here
  and is created once.\<close>

definition instances :: "NestModule \<Rightarrow> (js_string \<times> NestClass) list" where
  "instances app = concat (map (\<lambda>m. map (Pair (md_name m)) (classes m)) (all_modules app))"

section \<open>Libraries\<close>

record Libraries =
  lb_core :: "token list"
  lb_exports :: "js_string \<Rightarrow> token list"
  lb_global :: "js_string \<Rightarrow> bool"
  lb_throttler_guard :: "token list"

text \<open>A dynamic module of a library: \<open>inject\<close> of its factory, and whether the call makes it global.\<close>

definition library_module :: "Libraries \<Rightarrow> js_string \<Rightarrow> bool \<Rightarrow> token list \<Rightarrow> NestModule" where
  "library_module lb name global inject =
     NestModule name (global \<or> lb_global lb name) [] [nest_class (Options name) inject] [] []
       (map ExportToken (lb_exports lb name))"

definition libraries_doc :: "Libraries \<Rightarrow> bool" where
  "libraries_doc lb \<longleftrightarrow>
     LibraryClass ''Reflector'' \<in> set (lb_core lb)
     \<and> ConfigService_class \<in> set (lb_exports lb ''ConfigModule'')
     \<and> QueueOfShots \<in> set (lb_exports lb ''BullModule.registerQueue'')
     \<and> LibraryClass ''EventEmitter2'' \<in> set (lb_exports lb ''EventEmitterModule'') \<and> lb_global lb ''EventEmitterModule''
     \<and> LibraryClass ''HealthCheckService'' \<in> set (lb_exports lb ''TerminusModule'')
     \<and> set (lb_throttler_guard lb) \<subseteq> set (lb_core lb) \<union> set (lb_exports lb ''ThrottlerModule'')"

text \<open>The container creates the instances of a root, or reports a dependency it cannot resolve.\<close>

type_synonym container = "NestModule \<Rightarrow> (js_string \<times> token \<times> token) + (js_string \<times> NestClass) list"

definition nest_doc :: "Libraries \<Rightarrow> container \<Rightarrow> bool" where
  "nest_doc lb create \<longleftrightarrow>
     (\<forall>app. case create app of
        Inl missing \<Rightarrow> missing \<in> set (unresolved (lb_core lb) app)
      | Inr is \<Rightarrow> unresolved (lb_core lb) app = [] \<and> set is = set (instances app))"

section \<open>The modules of the service\<close>

definition guard_class :: NestClass where
  "guard_class = nest_class InternalApiGuard_class [ConfigService_class]"

definition webhook_guard_class :: NestClass where
  "webhook_guard_class = nest_class WebhookAuthGuard_class [ConfigService_class, LibraryClass ''Reflector'']"

definition ConfigModule :: "Libraries \<Rightarrow> NestModule" where
  "ConfigModule lb = library_module lb ''ConfigModule'' True []"

definition RedisModule :: NestModule where
  "RedisModule =
     NestModule ''RedisModule'' True [] [nest_class REDIS [ConfigService_class]] [] [] [ExportToken REDIS]"

definition KyselyModule :: NestModule where
  "KyselyModule =
     NestModule ''KyselyModule'' True [] [nest_class KYSELY [ConfigService_class]] [] [] [ExportToken KYSELY]"

definition LoggerModule :: "Libraries \<Rightarrow> NestModule" where
  "LoggerModule lb =
     NestModule ''LoggerModule'' True [library_module lb ''PinoLoggerModule'' False [ConfigService_class]] [] [] []
       [ExportModule ''PinoLoggerModule'']"

definition HealthModule :: "Libraries \<Rightarrow> NestModule" where
  "HealthModule lb =
     NestModule ''HealthModule'' False [library_module lb ''TerminusModule'' False [], RedisModule] [] []
       [nest_class HealthController_class [LibraryClass ''HealthCheckService'', KYSELY, REDIS]] []"

definition MetricsModule :: NestModule where
  "MetricsModule =
     NestModule ''MetricsModule'' False [] [] [guard_class] [nest_class MetricsController_class []] []"

definition ShotsModule :: NestModule where
  "ShotsModule =
     NestModule ''ShotsModule'' False [] [nest_class ShotsService_class [KYSELY]] [guard_class]
       [nest_class ShotsController_class [ShotsService_class]] []"

definition StatsModule :: NestModule where
  "StatsModule =
     NestModule ''StatsModule'' False [] [nest_class StatsService_class [KYSELY]] [guard_class]
       [nest_class StatsController_class [StatsService_class]] []"

definition IdentityModule :: NestModule where
  "IdentityModule =
     NestModule ''IdentityModule'' False []
       [nest_class IdentityService_class [KYSELY, REDIS, AuditLogService_class], nest_class AuditLogService_class [KYSELY]]
       [guard_class, nest_class IdempotencyInterceptor_class [REDIS]]
       [nest_class IdentityController_class [IdentityService_class]]
       [ExportToken IdentityService_class]"

text \<open>\<open>@Processor(SHOT_INGESTION_QUEUE, { concurrency: 16 })\<close>; the depth of the queue is polled every ten
  seconds.\<close>

definition processor_class :: NestClass where
  "processor_class =
     (nest_class ShotIngestionProcessor_class [ShotRepository_class, IdentityService_class])\<lparr>nc_processor := Some 16\<rparr>"

definition queue_class :: NestClass where
  "queue_class =
     (nest_class ShotIngestionQueue_class [QueueOfShots, ConfigService_class])\<lparr>nc_interval := Some 10000\<rparr>"

definition IngestionModule :: "Libraries \<Rightarrow> NestModule" where
  "IngestionModule lb =
     NestModule ''IngestionModule'' False [library_module lb ''BullModule.registerQueue'' False [], IdentityModule]
       [nest_class ShotRepository_class [KYSELY], queue_class, processor_class] [] []
       [ExportToken ShotIngestionQueue_class, ExportToken ShotRepository_class]"

definition WebhooksModule :: "Libraries \<Rightarrow> NestModule" where
  "WebhooksModule lb =
     NestModule ''WebhooksModule'' False [IngestionModule lb] [] [webhook_guard_class]
       [nest_class TrackproController_class [ShotIngestionQueue_class],
        nest_class SwingmetricController_class [ShotIngestionQueue_class],
        nest_class ProswingController_class [ShotIngestionQueue_class]] []"

definition outbox_class :: NestClass where
  "outbox_class =
     (nest_class OutboxPublisherService_class [KYSELY, LibraryClass ''EventEmitter2''])\<lparr>nc_interval := Some 5000\<rparr>"

definition AppModule :: "Libraries \<Rightarrow> NestModule" where
  "AppModule lb =
     NestModule ''AppModule'' False
       [ConfigModule lb, library_module lb ''BullModule'' False [ConfigService_class], LoggerModule lb, RedisModule, KyselyModule,
        library_module lb ''EventEmitterModule'' False [],
        library_module lb ''ThrottlerModule'' False [REDIS, ConfigService_class],
        HealthModule lb, MetricsModule, WebhooksModule lb, ShotsModule, StatsModule, IdentityModule]
       [nest_class GlobalExceptionFilter_class [], nest_class RequestIdInterceptor_class [], webhook_guard_class, guard_class,
        nest_class ThrottlerGuard_class (lb_throttler_guard lb)] [] [] []"

definition WorkerModule :: "Libraries \<Rightarrow> NestModule" where
  "WorkerModule lb =
     NestModule ''WorkerModule'' False
       [ConfigModule lb, library_module lb ''BullModule'' False [ConfigService_class], LoggerModule lb, RedisModule, KyselyModule,
        library_module lb ''EventEmitterModule'' False [], IngestionModule lb]
       [outbox_class] [] [] []"

section \<open>What runs in a process\<close>

text \<open>\<open>@nestjs/bullmq\<close> starts a consumer for every created class with \<open>@Processor\<close>.\<close>

type_synonym process = "(js_string \<times> NestClass) list"

definition consumers :: "process \<Rightarrow> (token \<times> nat) list" where
  "consumers is = concat (map (\<lambda>(m, c). case nc_processor c of Some n \<Rightarrow> [(nc_token c, n)] | None \<Rightarrow> []) is)"

text \<open>The intervals between \<open>onModuleInit\<close> and \<open>onModuleDestroy\<close>.\<close>

definition intervals :: "process \<Rightarrow> (token \<times> nat) list" where
  "intervals is = concat (map (\<lambda>(m, c). case nc_interval c of Some n \<Rightarrow> [(nc_token c, n)] | None \<Rightarrow> []) is)"

text \<open>How many jobs the process works on at a time.\<close>

definition job_slots :: "process \<Rightarrow> nat" where
  "job_slots is = sum_list (map snd (remdups (consumers is)))"

text \<open>The modules that hold an instance of a class.\<close>

definition created :: "token \<Rightarrow> process \<Rightarrow> js_string set" where
  "created t is = set (map fst (filter (\<lambda>(m, c). nc_token c = t) is))"

lemmas module_defs = ConfigModule_def RedisModule_def KyselyModule_def LoggerModule_def HealthModule_def MetricsModule_def
  ShotsModule_def StatsModule_def IdentityModule_def IngestionModule_def WebhooksModule_def AppModule_def WorkerModule_def
  library_module_def

lemmas class_defs = nest_class_def guard_class_def webhook_guard_class_def processor_class_def queue_class_def outbox_class_def

text \<open>A module whose classes all find what they inject.\<close>

definition resolves :: "token list \<Rightarrow> token list \<Rightarrow> NestModule \<Rightarrow> bool" where
  "resolves core glob m \<longleftrightarrow>
     (\<forall>c \<in> set (classes m). set (nc_inject c) \<subseteq>
        set core \<union> nc_token ` set (md_providers m) \<union> (\<Union>i \<in> set (md_imports m). set (exported i)) \<union> set glob)"

lemma unresolved_Nil: "unresolved core app = [] \<longleftrightarrow> list_all (resolves core (globals app)) (all_modules app)"
proof -
  have v: "set (visible core app m) = set core \<union> nc_token ` set (md_providers m)
      \<union> (\<Union>i \<in> set (md_imports m). set (exported i)) \<union> set (globals app)" for m
    by (auto simp: visible_def)
  have "unresolved core app = [] \<longleftrightarrow>
      (\<forall>m \<in> set (all_modules app). \<forall>c \<in> set (classes m). set (nc_inject c) \<subseteq> set (visible core app m))"
    by (auto simp: unresolved_def filter_empty_conv)
  then show ?thesis unfolding resolves_def list_all_iff v .
qed

lemma all_modules_self: "m \<in> set (all_modules m)"
  by (cases m) simp

lemma all_modules_import: "m \<in> set (md_imports app) \<Longrightarrow> m \<in> set (all_modules app)"
  by (cases app) (auto intro: all_modules_self)

lemma globals_import:
  assumes "m \<in> set (md_imports app)" and "md_global m" and "t \<in> set (exported m)"
  shows "t \<in> set (globals app)"
  using assms all_modules_import [OF assms(1)] by (auto simp: globals_def)

lemma exported_library [simp]: "exported (library_module lb n g ds) = lb_exports lb n"
  by (simp add: library_module_def comp_def)

lemma library_resolves: "set ds \<subseteq> set glob \<Longrightarrow> resolves core glob (library_module lb n g ds)"
  by (auto simp: resolves_def library_module_def classes_def nest_class_def)

text \<open>What both processes make global.\<close>

definition base_globals :: "token list \<Rightarrow> bool" where
  "base_globals glob \<longleftrightarrow> ConfigService_class \<in> set glob \<and> REDIS \<in> set glob \<and> KYSELY \<in> set glob"

lemma modules_resolve_base:
  assumes "base_globals glob" and "libraries_doc lb"
  shows "resolves (lb_core lb) glob (ConfigModule lb)" "resolves (lb_core lb) glob RedisModule"
    "resolves (lb_core lb) glob KyselyModule" "resolves (lb_core lb) glob (LoggerModule lb)"
    "resolves (lb_core lb) glob (HealthModule lb)" "resolves (lb_core lb) glob MetricsModule"
    "resolves (lb_core lb) glob ShotsModule" "resolves (lb_core lb) glob StatsModule"
    "resolves (lb_core lb) glob IdentityModule" "resolves (lb_core lb) glob (IngestionModule lb)"
    "resolves (lb_core lb) glob (WebhooksModule lb)"
  using assms
  by (simp_all add: ConfigModule_def library_resolves)
     (simp_all add: module_defs class_defs classes_def resolves_def base_globals_def libraries_doc_def comp_def)

lemma all_modules_unfold:
  "all_modules (library_module lb n g ds) = [library_module lb n g ds]" "all_modules (ConfigModule lb) = [ConfigModule lb]"
  "all_modules RedisModule = [RedisModule]" "all_modules KyselyModule = [KyselyModule]"
  "all_modules (LoggerModule lb) = [LoggerModule lb, library_module lb ''PinoLoggerModule'' False [ConfigService_class]]"
  "all_modules (HealthModule lb) = [HealthModule lb, library_module lb ''TerminusModule'' False [], RedisModule]"
  "all_modules MetricsModule = [MetricsModule]" "all_modules ShotsModule = [ShotsModule]"
  "all_modules StatsModule = [StatsModule]" "all_modules IdentityModule = [IdentityModule]"
  "all_modules (IngestionModule lb) =
     [IngestionModule lb, library_module lb ''BullModule.registerQueue'' False [], IdentityModule]"
  "all_modules (WebhooksModule lb) = WebhooksModule lb # all_modules (IngestionModule lb)"
  by (simp_all add: module_defs)

lemma imports_unfold:
  "md_imports (AppModule lb) =
     [ConfigModule lb, library_module lb ''BullModule'' False [ConfigService_class], LoggerModule lb, RedisModule, KyselyModule,
      library_module lb ''EventEmitterModule'' False [],
      library_module lb ''ThrottlerModule'' False [REDIS, ConfigService_class],
      HealthModule lb, MetricsModule, WebhooksModule lb, ShotsModule, StatsModule, IdentityModule]"
  "md_imports (WorkerModule lb) =
     [ConfigModule lb, library_module lb ''BullModule'' False [ConfigService_class], LoggerModule lb, RedisModule, KyselyModule,
      library_module lb ''EventEmitterModule'' False [], IngestionModule lb]"
  by (simp_all add: AppModule_def WorkerModule_def)

lemma all_modules_step: "all_modules m = m # concat (map all_modules (md_imports m))"
  by (cases m) simp

lemma base_of_imports:
  assumes "libraries_doc lb" and "{ConfigModule lb, RedisModule, KyselyModule} \<subseteq> set (md_imports app)"
  shows "base_globals (globals app)"
proof -
  have "md_global (ConfigModule lb)" "ConfigService_class \<in> set (exported (ConfigModule lb))"
    using assms(1) by (simp_all add: ConfigModule_def library_module_def libraries_doc_def comp_def)
  moreover have "md_global RedisModule" "REDIS \<in> set (exported RedisModule)" "md_global KyselyModule"
    "KYSELY \<in> set (exported KyselyModule)"
    by (simp_all add: RedisModule_def KyselyModule_def)
  ultimately show ?thesis using assms(2) unfolding base_globals_def by (auto intro: globals_import)
qed

lemma processes_resolve:
  assumes "libraries_doc lb"
  shows "unresolved (lb_core lb) (AppModule lb) = []" and "unresolved (lb_core lb) (WorkerModule lb) = []"
proof -
  have b: "base_globals (globals (AppModule lb))" "base_globals (globals (WorkerModule lb))"
    by (rule base_of_imports [OF assms]; simp add: imports_unfold)+
  note base = b [unfolded base_globals_def]
  have "set (lb_throttler_guard lb) \<subseteq> set (lb_core lb) \<union> set (lb_exports lb ''ThrottlerModule'')"
    using assms by (simp add: libraries_doc_def)
  then have app: "resolves (lb_core lb) (globals (AppModule lb)) (AppModule lb)"
    using assms base by (auto simp: resolves_def classes_def imports_unfold AppModule_def class_defs libraries_doc_def)
  have "LibraryClass ''EventEmitter2'' \<in> set (globals (WorkerModule lb))"
    by (rule globals_import [where m = "library_module lb ''EventEmitterModule'' False []"])
      (use assms in \<open>simp_all add: imports_unfold libraries_doc_def library_module_def comp_def\<close>)
  then have worker: "resolves (lb_core lb) (globals (WorkerModule lb)) (WorkerModule lb)"
    using base by (simp add: resolves_def classes_def WorkerModule_def class_defs)
  show "unresolved (lb_core lb) (AppModule lb) = []"
    unfolding unresolved_Nil all_modules_step [of "AppModule lb"] imports_unfold
    using app modules_resolve_base [OF b(1) assms] base by (simp add: all_modules_unfold library_resolves)
  show "unresolved (lb_core lb) (WorkerModule lb) = []"
    unfolding unresolved_Nil all_modules_step [of "WorkerModule lb"] imports_unfold
    using worker modules_resolve_base [OF b(2) assms] base by (simp add: all_modules_unfold library_resolves)
qed

lemma same_instances:
  assumes "set is = set js"
  shows "set (consumers is) = set (consumers js)" "set (intervals is) = set (intervals js)" "created t is = created t js"
  using assms by (auto simp: consumers_def intervals_def created_def)

lemma module_classes:
  "classes (library_module lb n g ds) = [nest_class (Options n) ds]" "classes (ConfigModule lb) = [nest_class (Options ''ConfigModule'') []]"
  "classes RedisModule = [nest_class REDIS [ConfigService_class]]" "classes KyselyModule = [nest_class KYSELY [ConfigService_class]]"
  "classes (LoggerModule lb) = []"
  "classes (HealthModule lb) = [nest_class HealthController_class [LibraryClass ''HealthCheckService'', KYSELY, REDIS]]"
  "classes MetricsModule = [guard_class, nest_class MetricsController_class []]"
  "classes ShotsModule = [nest_class ShotsService_class [KYSELY], guard_class, nest_class ShotsController_class [ShotsService_class]]"
  "classes StatsModule = [nest_class StatsService_class [KYSELY], guard_class, nest_class StatsController_class [StatsService_class]]"
  "classes IdentityModule =
     [nest_class IdentityService_class [KYSELY, REDIS, AuditLogService_class], nest_class AuditLogService_class [KYSELY],
      guard_class, nest_class IdempotencyInterceptor_class [REDIS], nest_class IdentityController_class [IdentityService_class]]"
  "classes (IngestionModule lb) = [nest_class ShotRepository_class [KYSELY], queue_class, processor_class]"
  "classes (WebhooksModule lb) =
     [webhook_guard_class, nest_class TrackproController_class [ShotIngestionQueue_class],
      nest_class SwingmetricController_class [ShotIngestionQueue_class],
      nest_class ProswingController_class [ShotIngestionQueue_class]]"
  "classes (AppModule lb) =
     [nest_class GlobalExceptionFilter_class [], nest_class RequestIdInterceptor_class [], webhook_guard_class, guard_class,
      nest_class ThrottlerGuard_class (lb_throttler_guard lb)]"
  "classes (WorkerModule lb) = [outbox_class]"
  by (simp_all add: classes_def module_defs)

lemma module_names:
  "md_name (library_module lb n g ds) = n" "md_name (ConfigModule lb) = ''ConfigModule''" "md_name RedisModule = ''RedisModule''"
  "md_name KyselyModule = ''KyselyModule''" "md_name (LoggerModule lb) = ''LoggerModule''"
  "md_name (HealthModule lb) = ''HealthModule''" "md_name MetricsModule = ''MetricsModule''" "md_name ShotsModule = ''ShotsModule''"
  "md_name StatsModule = ''StatsModule''" "md_name IdentityModule = ''IdentityModule''"
  "md_name (IngestionModule lb) = ''IngestionModule''" "md_name (WebhooksModule lb) = ''WebhooksModule''"
  "md_name (AppModule lb) = ''AppModule''" "md_name (WorkerModule lb) = ''WorkerModule''"
  by (simp_all add: module_defs)

lemma class_fields:
  "nc_token (nest_class t ds) = t" "nc_processor (nest_class t ds) = None" "nc_interval (nest_class t ds) = None"
  "nc_token guard_class = InternalApiGuard_class" "nc_processor guard_class = None" "nc_interval guard_class = None"
  "nc_token webhook_guard_class = WebhookAuthGuard_class" "nc_processor webhook_guard_class = None"
  "nc_interval webhook_guard_class = None" "nc_token processor_class = ShotIngestionProcessor_class"
  "nc_processor processor_class = Some 16" "nc_interval processor_class = None" "nc_token queue_class = ShotIngestionQueue_class"
  "nc_processor queue_class = None" "nc_interval queue_class = Some 10000" "nc_token outbox_class = OutboxPublisherService_class"
  "nc_processor outbox_class = None" "nc_interval outbox_class = Some 5000"
  by (simp_all add: class_defs)

lemmas instances_unfold = instances_def all_modules_step [of "AppModule lb" for lb] all_modules_step [of "WorkerModule lb" for lb]
  imports_unfold all_modules_unfold module_classes module_names

lemma process_lists:
  "consumers (instances (AppModule lb)) = [(ShotIngestionProcessor_class, 16)]"
  "consumers (instances (WorkerModule lb)) = [(ShotIngestionProcessor_class, 16)]"
  "intervals (instances (AppModule lb)) = [(ShotIngestionQueue_class, 10000)]"
  "intervals (instances (WorkerModule lb)) = [(OutboxPublisherService_class, 5000), (ShotIngestionQueue_class, 10000)]"
  by (simp_all add: consumers_def intervals_def instances_unfold class_fields)

lemma single_slot: "set (consumers is) = {(t, n)} \<Longrightarrow> job_slots is = n"
proof -
  assume "set (consumers is) = {(t, n)}"
  then have "set (remdups (consumers is)) = {(t, n)}" by simp
  then have "remdups (consumers is) = [(t, n)]"
    using distinct_remdups [of "consumers is"] by (cases "remdups (consumers is)"; cases "tl (remdups (consumers is))") auto
  then show "job_slots is = n" by (simp add: job_slots_def)
qed

lemma created_once:
  "created IdentityService_class (instances (AppModule lb)) = {''IdentityModule''}"
  "created IdentityService_class (instances (WorkerModule lb)) = {''IdentityModule''}"
  "created ShotRepository_class (instances (AppModule lb)) = {''IngestionModule''}"
  "created ShotRepository_class (instances (WorkerModule lb)) = {''IngestionModule''}"
  "created ShotIngestionQueue_class (instances (AppModule lb)) = {''IngestionModule''}"
  "created ShotIngestionQueue_class (instances (WorkerModule lb)) = {''IngestionModule''}"
  "created REDIS (instances (AppModule lb)) = {''RedisModule''}" "created REDIS (instances (WorkerModule lb)) = {''RedisModule''}"
  "created KYSELY (instances (AppModule lb)) = {''KyselyModule''}" "created KYSELY (instances (WorkerModule lb)) = {''KyselyModule''}"
  by (simp_all add: created_def instances_unfold class_fields)

lemma worker_within_api:
  "set (instances (WorkerModule lb)) - {(''WorkerModule'', outbox_class)} \<subseteq> set (instances (AppModule lb))"
  by (auto simp: instances_unfold)

lemma container_starts:
  assumes "nest_doc lb create" and "unresolved (lb_core lb) app = []"
  obtains cs where "create app = Inr cs" and "set cs = set (instances app)"
proof -
  have "case create app of Inl missing \<Rightarrow> missing \<in> set (unresolved (lb_core lb) app)
      | Inr is \<Rightarrow> unresolved (lb_core lb) app = [] \<and> set is = set (instances app)"
    using assms(1) by (simp add: nest_doc_def)
  with assms(2) that show thesis by (cases "create app") simp_all
qed

section \<open>What each process runs\<close>

text \<open>C7: Both processes start: every dependency that a class of theirs injects is visible in its module. Each has one
  connection pool, one Redis client, one repository, one queue and one identity service. The outbox is
  published by the worker alone. All else of the worker runs in the API as well: the API process, too, is
  a consumer of the queue with 16 jobs at a time, so that an API and two workers work on 48 jobs, and the
  concurrency is the same in every environment. (The hypotheses: the documentation of the libraries' modules
  and of the container.)\<close>

theorem process_modules:
  assumes "libraries_doc lb" and "nest_doc lb create"
  shows "\<exists>api worker. create (AppModule lb) = Inr api \<and> create (WorkerModule lb) = Inr worker
           \<and> set (consumers api) = {(ShotIngestionProcessor_class, 16)}
           \<and> set (consumers worker) = {(ShotIngestionProcessor_class, 16)}
           \<and> job_slots api + 2 * job_slots worker = 48
           \<and> set (intervals api) = {(ShotIngestionQueue_class, 10000)}
           \<and> set (intervals worker) = {(ShotIngestionQueue_class, 10000), (OutboxPublisherService_class, 5000)}
           \<and> set worker - {(''WorkerModule'', outbox_class)} \<subseteq> set api
           \<and> (\<forall>t \<in> {REDIS, KYSELY, ShotRepository_class, ShotIngestionQueue_class, IdentityService_class}.
                \<exists>m. created t api = {m} \<and> created t worker = {m})"
proof -
  note r = processes_resolve [OF assms(1)]
  obtain api where api: "create (AppModule lb) = Inr api" "set api = set (instances (AppModule lb))"
    by (rule container_starts [OF assms(2) r(1)])
  obtain worker where worker: "create (WorkerModule lb) = Inr worker" "set worker = set (instances (WorkerModule lb))"
    by (rule container_starts [OF assms(2) r(2)])
  note runs = same_instances [OF api(2)] same_instances [OF worker(2)]
  have c: "set (consumers api) = {(ShotIngestionProcessor_class, 16)}" "set (consumers worker) = {(ShotIngestionProcessor_class, 16)}"
    by (simp_all add: runs process_lists)
  then have "job_slots api = 16" "job_slots worker = 16" by (simp_all add: single_slot)
  moreover have "set (intervals worker) = {(ShotIngestionQueue_class, 10000), (OutboxPublisherService_class, 5000)}"
    "set (intervals api) = {(ShotIngestionQueue_class, 10000)}"
    by (auto simp: runs process_lists)
  ultimately show ?thesis
    using c worker_within_api [of lb] by (intro exI [of _ api] exI [of _ worker]) (simp add: api worker runs created_once)
qed

text \<open>Libraries that export what is asked of them and nothing else, and a container that checks all and
  creates every class once.\<close>

definition sample_libraries :: Libraries where
  "sample_libraries =
     \<lparr>lb_core = [LibraryClass ''Reflector''],
      lb_exports = (\<lambda>n. if n = ''ConfigModule'' then [ConfigService_class]
                        else if n = ''BullModule.registerQueue'' then [QueueOfShots]
                        else if n = ''EventEmitterModule'' then [LibraryClass ''EventEmitter2'']
                        else if n = ''TerminusModule'' then [LibraryClass ''HealthCheckService'']
                        else if n = ''ThrottlerModule'' then [LibraryClass ''ThrottlerStorage''] else []),
      lb_global = (\<lambda>n. n = ''EventEmitterModule''),
      lb_throttler_guard = [LibraryClass ''ThrottlerStorage'', LibraryClass ''Reflector'']\<rparr>"

definition sample_container :: "Libraries \<Rightarrow> container" where
  "sample_container lb app =
     (case unresolved (lb_core lb) app of [] \<Rightarrow> Inr (remdups (instances app)) | missing # _ \<Rightarrow> Inl missing)"

theorem process_modules_witness:
  "\<exists>api. sample_container sample_libraries (AppModule sample_libraries) = Inr api
     \<and> set (consumers api) = {(ShotIngestionProcessor_class, 16)}"
proof -
  have l: "libraries_doc sample_libraries" by (simp add: libraries_doc_def sample_libraries_def)
  have n: "nest_doc sample_libraries (sample_container sample_libraries)"
    by (auto simp: nest_doc_def sample_container_def split: list.splits)
  from process_modules [OF l n] show ?thesis by (elim exE conjE) (intro exI conjI)
qed

end
