(* ===== verification/Documentation.thy ===== *)
theory Documentation
  imports Api
begin

text \<open>
  The API documentation against the API: the \<open>@Api*\<close> decorators of the controllers and the document of
  \<open>shared/openapi/openapi.ts\<close> as data, and what they promise compared with what \<open>api\<close> does: the status of every
  answer, the query parameters, the parameters in the path and the security schemes. Descriptions, examples and
  headers of responses are left out.
\<close>

section \<open>Decorators\<close>

text \<open>One operation: its route, tag, the names of its \<open>@ApiBearerAuth\<close>, \<open>@ApiHeader\<close>, \<open>@ApiParam\<close> and \<open>@ApiQuery\<close>
  decorators, and the statuses of its \<open>@ApiResponse\<close> decorators.\<close>

record Operation =
  op_route :: Route
  op_tag :: js_string
  op_security :: "js_string list"
  op_headers :: "js_string list"
  op_params :: "js_string list"
  op_query :: "js_string list"
  op_responses :: "nat list"

definition liveness_operation :: Operation where
  "liveness_operation =
     \<lparr>op_route = healthz_route, op_tag = ''health'', op_security = [], op_headers = [], op_params = [], op_query = [],
      op_responses = [200]\<rparr>"

definition readiness_operation :: Operation where
  "readiness_operation =
     \<lparr>op_route = readyz_route, op_tag = ''health'', op_security = [], op_headers = [], op_params = [], op_query = [],
      op_responses = [200, 503]\<rparr>"

definition metrics_operation :: Operation where
  "metrics_operation =
     \<lparr>op_route = metrics_route, op_tag = ''metrics'', op_security = [''internal_api_key''], op_headers = [],
      op_params = [], op_query = [], op_responses = [200, 401]\<rparr>"

definition trackpro_operation :: Operation where
  "trackpro_operation =
     \<lparr>op_route = trackpro_route, op_tag = ''webhooks'', op_security = [''api_key''], op_headers = [''x-correlation-id''],
      op_params = [], op_query = [], op_responses = [202, 400, 422, 503]\<rparr>"

definition swingmetric_operation :: Operation where
  "swingmetric_operation =
     \<lparr>op_route = swingmetric_route, op_tag = ''webhooks'', op_security = [''api_key''], op_headers = [''x-correlation-id''],
      op_params = [], op_query = [], op_responses = [202, 400, 422, 503]\<rparr>"

definition proswing_operation :: Operation where
  "proswing_operation =
     \<lparr>op_route = proswing_route, op_tag = ''webhooks'', op_security = [''api_key''], op_headers = [''x-correlation-id''],
      op_params = [], op_query = [], op_responses = [202, 400, 422, 503]\<rparr>"

definition listByUser_operation :: Operation where
  "listByUser_operation =
     \<lparr>op_route = by_user ''shots'', op_tag = ''shots'', op_security = [''internal_api_key''], op_headers = [],
      op_params = [''user_id''],
      op_query = [''since'', ''until'', ''club'', ''cursor'', ''limit'', ''include_near_duplicates''], op_responses = [200]\<rparr>"

definition listByVendorUser_operation :: Operation where
  "listByVendorUser_operation =
     \<lparr>op_route = by_vendor ''shots'', op_tag = ''shots'', op_security = [''internal_api_key''], op_headers = [],
      op_params = [''vendor'', ''vendor_user_id''],
      op_query = [''since'', ''until'', ''club'', ''cursor'', ''limit'', ''include_near_duplicates''], op_responses = [200]\<rparr>"

definition getStats_operation :: Operation where
  "getStats_operation =
     \<lparr>op_route = by_user ''stats'', op_tag = ''stats'', op_security = [''internal_api_key''], op_headers = [],
      op_params = [''user_id''], op_query = [''since'', ''until'', ''club''], op_responses = [200]\<rparr>"

definition getStatsByVendorUser_operation :: Operation where
  "getStatsByVendorUser_operation =
     \<lparr>op_route = by_vendor ''stats'', op_tag = ''stats'', op_security = [''internal_api_key''], op_headers = [],
      op_params = [''vendor'', ''vendor_user_id''], op_query = [''since'', ''until'', ''club''], op_responses = [200]\<rparr>"

definition linkIdentity_operation :: Operation where
  "linkIdentity_operation =
     \<lparr>op_route = link_identity_route, op_tag = ''identity'', op_security = [''internal_api_key''],
      op_headers = [''Idempotency-Key''], op_params = [''canonical_user_id''], op_query = [], op_responses = [201, 400]\<rparr>"

definition listIdentities_operation :: Operation where
  "listIdentities_operation =
     \<lparr>op_route = list_identities_route, op_tag = ''identity'', op_security = [''internal_api_key''], op_headers = [],
      op_params = [''canonical_user_id''], op_query = [], op_responses = [200]\<rparr>"

definition unlinkIdentity_operation :: Operation where
  "unlinkIdentity_operation =
     \<lparr>op_route = unlink_identity_route, op_tag = ''identity'', op_security = [''internal_api_key''], op_headers = [],
      op_params = [''canonical_user_id'', ''vendor'', ''vendor_user_id''], op_query = [], op_responses = [204, 400, 404]\<rparr>"

definition operations :: "Operation list" where
  "operations =
     [liveness_operation, readiness_operation, metrics_operation, trackpro_operation, swingmetric_operation,
      proswing_operation, listByUser_operation, listByVendorUser_operation, getStats_operation,
      getStatsByVendorUser_operation, linkIdentity_operation, listIdentities_operation, unlinkIdentity_operation]"

lemmas operation_defs = liveness_operation_def readiness_operation_def metrics_operation_def trackpro_operation_def
  swingmetric_operation_def proswing_operation_def listByUser_operation_def listByVendorUser_operation_def
  getStats_operation_def getStatsByVendorUser_operation_def linkIdentity_operation_def listIdentities_operation_def
  unlinkIdentity_operation_def

lemma operations_cover: "map op_route operations = routes"
  by (simp add: operations_def operation_defs routes_def health_routes_def shots_routes_def stats_routes_def by_user_def
      by_vendor_def healthz_route_def readyz_route_def)

section \<open>The document\<close>

datatype security_scheme = ApiKeyHeader js_string | HttpBearer

record OpenApi =
  oa_title :: js_string
  oa_version :: js_string
  oa_security :: "(js_string \<times> security_scheme) list"
  oa_tags :: "js_string list"
  oa_path :: js_string
  oa_json :: js_string
  oa_yaml :: js_string
  oa_persist_authorization :: bool
  oa_try_it_out :: bool

definition setupOpenApi :: OpenApi where
  "setupOpenApi =
     \<lparr>oa_title = ''Pureplay Analytics Ingest'', oa_version = ''1.0.0'',
      oa_security = [(''webhook_api_key'', ApiKeyHeader ''X-Webhook-Auth''), (''internal_api_key'', HttpBearer)],
      oa_tags = [''webhooks'', ''shots'', ''stats'', ''identity'', ''health'', ''metrics''],
      oa_path = ''api/docs'', oa_json = ''api/docs-json'', oa_yaml = ''api/docs-yaml'',
      oa_persist_authorization = False, oa_try_it_out = False\<rparr>"

section \<open>What the document says of the inputs\<close>

definition path_params :: "Route \<Rightarrow> js_string list" where
  "path_params r = map tl (filter is_param (rt_path r))"

text \<open>Tags and path parameters agree with the routes. The internal routes name a scheme that the document
  declares; the webhooks name \<open>api_key\<close>, which it does not: it declares \<open>webhook_api_key\<close>, which no operation names.\<close>

definition inputs_documented :: "OpenApi \<Rightarrow> Operation \<Rightarrow> bool" where
  "inputs_documented doc o1 \<longleftrightarrow>
     op_params o1 = path_params (op_route o1) \<and> op_tag o1 \<in> set (oa_tags doc)
     \<and> (case rt_protection (op_route o1) of
          Unguarded \<Rightarrow> op_security o1 = []
        | InternalKey \<Rightarrow> op_security o1 = [''internal_api_key''] \<and> map_of (oa_security doc) ''internal_api_key'' = Some HttpBearer
        | VendorKey v \<Rightarrow> op_security o1 = [''api_key''] \<and> map_of (oa_security doc) ''api_key'' = None)"

lemma inputs_ok: "list_all (inputs_documented setupOpenApi) operations"
  by (simp add: operations_def operation_defs inputs_documented_def setupOpenApi_def path_params_def route_defs by_user_def
      by_vendor_def healthz_route_def readyz_route_def is_param_def startsWith_def)

section \<open>Query parameters\<close>

definition documented_query :: "Operation \<Rightarrow> HttpRequest \<Rightarrow> HttpRequest" where
  "documented_query o1 rq = rq\<lparr>hq_query := \<lambda>k. if k \<in> set (op_query o1) then hq_query rq k else None\<rparr>"

lemma documented_query_rest:
  "exchange mo (documented_query o1 rq) = exchange mo rq" "webhook_request mo (documented_query o1 rq) = webhook_request mo rq"
  "guard_request mo (documented_query o1 rq) = guard_request mo rq" "request_id mo (documented_query o1 rq) = request_id mo rq"
  "hq_path (documented_query o1 rq) = hq_path rq" "hq_verb (documented_query o1 rq) = hq_verb rq"
  "hq_headers (documented_query o1 rq) = hq_headers rq" "hq_body (documented_query o1 rq) = hq_body rq"
  by (simp_all add: documented_query_def exchange_def request_id_def webhook_request_def guard_request_def)

lemma handlers_at:
  "handler sc mo rq healthz_route = on_read healthz_route (Inr (liveness (mo_now mo)))"
  "handler sc mo rq readyz_route = on_ready sc mo"
  "handler sc mo rq metrics_route = on_read metrics_route (Inr (JStr (sc_exposition sc)))"
  "handler sc mo rq trackpro_route =
     on_queue trackpro_route (trackpro_receive (sc_platform sc) (sc_queue sc) (depth_setting sc) (webhook_request mo rq))"
  "handler sc mo rq swingmetric_route =
     on_queue swingmetric_route (swingmetric_receive (sc_platform sc) (sc_queue sc) (depth_setting sc) (webhook_request mo rq))"
  "handler sc mo rq proswing_route =
     on_queue proswing_route (proswing_receive (sc_platform sc) (sc_queue sc) (depth_setting sc) (webhook_request mo rq))"
  "handler sc mo rq (by_user ''shots'') = (\<lambda>app. on_read (by_user ''shots'') (map_sum id (page_json (query_of (shots_params rq)))
     (listByUser_endpoint (query_env sc mo) (hq_path rq ! 2) (shots_params rq) (ap_db app))) app)"
  "handler sc mo rq (by_vendor ''shots'') = (\<lambda>app. on_read (by_vendor ''shots'') (map_sum id (page_json (query_of (shots_params rq)))
     (listByVendorUser_endpoint (query_env sc mo) (hq_path rq ! 3) (hq_path rq ! 4) (shots_params rq) (ap_db app))) app)"
  "handler sc mo rq (by_user ''stats'') = (\<lambda>app. on_read (by_user ''stats'') (map_sum id stats_json
     (getStats (sc_row_order sc) (query_env sc mo) (hq_path rq ! 2) (stats_params rq) (ap_db app))) app)"
  "handler sc mo rq (by_vendor ''stats'') = (\<lambda>app. on_read (by_vendor ''stats'') (map_sum id stats_json
     (getStatsByVendorUser (sc_row_order sc) (query_env sc mo) (hq_path rq ! 3) (hq_path rq ! 4) (stats_params rq) (ap_db app))) app)"
  "handler sc mo rq link_identity_route = on_link sc mo rq"
  "handler sc mo rq list_identities_route = on_list sc mo rq"
  "handler sc mo rq unlink_identity_route = on_unlink sc rq"
  by (rule handler_at, simp add: handlers_def Let_def)+

lemma on_documented_query:
  "on_link sc mo (documented_query o1 rq) = on_link sc mo rq" "on_list sc mo (documented_query o1 rq) = on_list sc mo rq"
  "on_unlink sc (documented_query o1 rq) = on_unlink sc rq"
  by (simp_all add: fun_eq_iff on_link_def on_list_def on_unlink_def documented_query_rest)

lemma operation_routes:
  "op_route liveness_operation = healthz_route" "op_route readiness_operation = readyz_route"
  "op_route metrics_operation = metrics_route" "op_route trackpro_operation = trackpro_route"
  "op_route swingmetric_operation = swingmetric_route" "op_route proswing_operation = proswing_route"
  "op_route listByUser_operation = by_user ''shots''" "op_route listByVendorUser_operation = by_vendor ''shots''"
  "op_route getStats_operation = by_user ''stats''" "op_route getStatsByVendorUser_operation = by_vendor ''stats''"
  "op_route linkIdentity_operation = link_identity_route" "op_route listIdentities_operation = list_identities_route"
  "op_route unlinkIdentity_operation = unlink_identity_route"
  by (simp_all add: operation_defs)

lemma same_handler_query:
  assumes "o1 \<in> set operations"
  shows "handler sc mo (documented_query o1 rq) (op_route o1) = handler sc mo rq (op_route o1)"
proof -
  have params: "shots_params (documented_query listByUser_operation rq) = shots_params rq"
    "shots_params (documented_query listByVendorUser_operation rq) = shots_params rq"
    "stats_params (documented_query getStats_operation rq) = stats_params rq"
    "stats_params (documented_query getStatsByVendorUser_operation rq) = stats_params rq"
    by (simp_all add: shots_params_def stats_params_def documented_query_def operation_defs)
  have "list_all (\<lambda>o1. handler sc mo (documented_query o1 rq) (op_route o1) = handler sc mo rq (op_route o1)) operations"
    unfolding operations_def
    by (simp only: list.pred_inject operation_routes handlers_at documented_query_rest on_documented_query params simp_thms)
  with assms show ?thesis by (simp add: list_all_iff)
qed

lemma api_documented_query:
  assumes "o1 \<in> set operations" and "find_route (hq_verb rq) (hq_path rq) = Some (op_route o1)"
  shows "api sc mo (documented_query o1 rq) app = api sc mo rq app"
proof -
  have "serve h s e b v p g (handler sc mo (documented_query o1 rq)) app = serve h s e b v p g (handler sc mo rq) app"
    if "find_route v p = Some (op_route o1)" for h s e b v p g
    using same_handler_query [OF assms(1), of sc mo rq] that by (simp add: serve_def)
  moreover have "respond sc mo (documented_query o1 rq) res = respond sc mo rq res" for res
    by (simp add: respond_def reply_to_def documented_query_rest split: sum.splits option.splits)
  ultimately show ?thesis using assms(2) by (simp add: api_def documented_query_rest)
qed

section \<open>Statuses\<close>

text \<open>The status of a handler's result.\<close>

definition outcome :: "('q, 'r) Service \<Rightarrow> Moment \<Rightarrow> HttpRequest \<Rightarrow> (exn + answer) \<times> ('q, 'r) App \<Rightarrow> nat" where
  "outcome sc mo rq x = hr_status (respond sc mo rq (map_sum id Some (fst x)))"

lemma outcome_simps [simp]:
  "outcome sc mo rq (Inl e, app) = http_status e"
  "outcome sc mo rq (Inr (Inr (st, b)), app) = st"
  "outcome sc mo rq (Inr (Inl t), app) = hr_status (reply_to mo rq t)"
  by (simp_all add: outcome_def respond_def reply_problem)

lemma outcome_read: "outcome sc mo rq (on_read r result app) = (case result of Inl e \<Rightarrow> http_status e | Inr v \<Rightarrow> rt_status r)"
  by (simp add: on_read_def split: sum.splits)

lemma http_statuses:
  "http_status (Http st code retry) = st" "http_status RangeError = 500" "http_status DbError = 500"
  "http_status clock_skew_excessive = 422" "http_status at_capacity = 503" "http_status UnauthorizedException = 401"
  "http_status (Domain (InvalidDateError f v)) = 400" "http_status (Domain (UnknownClubCodeError c)) = 400"
  "http_status (Domain InvalidCursorError) = 400" "http_status (Domain (UnknownVendorError v)) = 400"
  "http_status (Domain (IdentityNotFoundError v u c)) = 404"
  by (simp_all add: http_status_def domainErrorToHttp_cases clock_skew_excessive_def at_capacity_def UnauthorizedException_def)

subsection \<open>Webhooks\<close>

lemma receive_single_error:
  assumes "bullmq B" and "receive_single P B c corr r (Inr [s]) q = (Inl e, q')"
  shows "http_status e \<in> {422, 503}"
  by (rule enqueue_cases [OF assms(1), of c q s corr r])
    (use assms(2) in \<open>auto simp: receive_single_def http_statuses split: if_splits\<close>)

lemma trackpro_error:
  assumes "bullmq B" and "datetime_sound P" and "trackpro_receive P B c rq q = (Inl e, q')"
  shows "http_status e \<in> {400, 422, 503}"
proof (cases "TrackproPayloadSchema P (rq_body rq)")
  case None
  then show ?thesis using assms(3) by (auto simp: trackpro_receive_def ZodValidationPipe_def http_statuses)
next
  case (Some p)
  then obtain t where "date_parse (legacy_date P) (tp_captured_at p) = Some t"
    using schema_accepts_ok [OF Some] assms(2) by (auto simp: trackpro_ok_def datetime_sound_def)
  then obtain s where "parseTrackpro P (rq_ulid rq) p (iso_format (rq_now rq)) = Inr [s]"
    by (auto simp: parseTrackpro_simps)
  then show ?thesis
    using assms(3) Some receive_single_error [OF assms(1)] by (fastforce simp: trackpro_receive_def ZodValidationPipe_def Let_def)
qed

lemma proswing_error:
  assumes "bullmq B" and "datetime_sound P" and "proswing_receive P B c rq q = (Inl e, q')"
  shows "http_status e \<in> {400, 422, 503}"
proof (cases "proswing_pipe P (rq_body rq)")
  case (Inl x)
  then show ?thesis using assms(3) by (auto simp: proswing_receive_def proswing_pipe_def http_statuses split: option.splits)
next
  case (Inr p)
  then have ok: "canonical_ok P p" using parse_raw_ok by (auto simp: proswing_pipe_def split: option.splits)
  then obtain t where "date_parse (legacy_date P) (ps_occurred_at (ps_shot p)) = Some t"
    using assms(2) by (auto simp: datetime_sound_def canonical_ok_def canonical_shot_ok_def)
  then obtain s where "parseProswing P (rq_ulid rq) p (iso_format (rq_now rq)) = Inr [s]"
    using parseProswing_total [OF ok] by blast
  then show ?thesis
    using assms(3) Inr receive_single_error [OF assms(1)] by (fastforce simp: proswing_receive_def Let_def)
qed

lemma swingmetric_error:
  assumes "bullmq B" and "swingmetric_receive P B c rq q = (Inl e, q')"
  shows "http_status e \<in> {400, 422, 503, 500}"
proof (cases "SwingmetricPayloadSchema P (rq_body rq)")
  case None
  then show ?thesis using assms(2) by (auto simp: swingmetric_receive_def ZodValidationPipe_def http_statuses)
next
  case (Some p)
  from swingmetric_receive_ok [OF assms(1) this, of c q] show ?thesis
    by (auto simp: receive_ok_def assms(2) http_statuses)
qed

subsection \<open>Queries\<close>

lemma executeQuery_status: "executeQuery env f q d = Inl e \<Longrightarrow> http_status e \<in> {400, 500}"
  using executeQuery_error [of env f q d e] window_error [of env q e] club_error [of q e] cursor_error [of env "q_cursor q" e]
  by (auto simp: http_statuses)

lemma shots_error:
  "listByUser_endpoint env u p d = Inl e \<Longrightarrow> http_status e \<in> {400, 500}"
  "listByVendorUser_endpoint env v u p d = Inl e \<Longrightarrow> http_status e \<in> {400, 500}"
  using executeQuery_status
  by (auto simp: listByUser_endpoint_def listByVendorUser_endpoint_def listByCanonicalUser_shots_def listByVendorUser_def
      http_statuses split: option.splits)

lemma stats_error:
  "getStats order env u q d = Inl e \<Longrightarrow> http_status e \<in> {400, 500}"
  "getStatsByVendorUser order env v u q d = Inl e \<Longrightarrow> http_status e \<in> {400, 500}"
  by (auto simp: getStats_def getStatsByVendorUser_def executeStatsQuery_def window_date_def parseWindowDate_def http_statuses
      split: option.splits sum.splits if_splits)

subsection \<open>Identities\<close>

text \<open>The status of the entry stored for a request's idempotency key, which a replay sends again.\<close>

definition replayed :: "('q, 'r) Service \<Rightarrow> Moment \<Rightarrow> HttpRequest \<Rightarrow> ('q, 'r) App \<Rightarrow> nat set" where
  "replayed sc mo rq app =
     (case header_key (hq_headers rq ''idempotency-key'') (link_path (hq_path rq ! 2)) of
        Inr (Some k) \<Rightarrow>
          (case cached_response (sc_redis sc) (sc_json sc) (mo_now mo) k (ap_redis app) of
             Some (st, row) \<Rightarrow> {st} | None \<Rightarrow> {})
      | _ \<Rightarrow> {})"

lemma link_handler_status:
  "link_handler R now cid body s = (Inl e, s') \<Longrightarrow> http_status e \<in> {400, 500}"
  "link_handler R now cid body s = (Inr (st, row), s') \<Longrightarrow> st = 201"
  by (cases s; auto simp: link_handler_def link_endpoint_def ZodValidationPipe_def linkIdentity_def upsert_identity_def
      audit_record_def Let_def http_statuses split: sum.splits option.splits if_splits prod.splits)+

lemma header_key_error: "header_key k path = Inl e \<Longrightarrow> http_status e = 400"
  by (auto simp: header_key_def http_statuses split: option.splits if_splits)

lemma link_status:
  "outcome sc mo rq (on_link sc mo rq app) \<in> {201, 400, 500} \<union> replayed sc mo rq app"
proof -
  let ?hk = "header_key (hq_headers rq ''idempotency-key'') (link_path (hq_path rq ! 2))"
  obtain res s' where h: "link_handler (sc_redis sc) (mo_now mo) (hq_path rq ! 2) (hq_body rq) (ap_db app, ap_redis app) = (res, s')"
    by (metis prod.exhaust)
  note st = link_handler_status [of "sc_redis sc" "mo_now mo" "hq_path rq ! 2" "hq_body rq" "(ap_db app, ap_redis app)"]
  show ?thesis
  proof (cases ?hk)
    case (Inl e)
    then show ?thesis using header_key_error [OF Inl] by (simp add: on_link_def link_route_def intercept_def)
  next
    case (Inr k)
    then show ?thesis
      using st(1) [of _ s'] st(2) [of _ _ s'] h
      by (cases s'; cases k; cases res)
        (auto simp: on_link_def link_route_def intercept_def executeAndCache_def replayed_def split: option.splits)
  qed
qed

lemma list_status: "outcome sc mo rq (on_list sc mo rq app) = 200"
  by (simp add: on_list_def split: prod.splits)

text \<open>The rows of \<open>user_identities\<close> fit their columns.\<close>

definition identity_rows_ok :: "Db \<Rightarrow> bool" where
  "identity_rows_ok d \<longleftrightarrow> list_all (\<lambda>u. identities_check (ui_vendor_user_id u) (ui_canonical_user_id u)) (user_identities d)"

lemma upsert_rows_ok:
  assumes "identity_rows_ok d" and "upsert_identity now v u c d = Inr (row, d')"
  shows "identity_rows_ok d'"
  using assms
  by (auto simp: identity_rows_ok_def upsert_identity_def identities_check_def Let_def list_all_iff update_where_set
      split: option.splits if_splits)

lemma unlink_error:
  assumes "identity_rows_ok d" and "unlink_endpoint R c v u (d, r) = Inl e"
  shows "http_status e \<in> {400, 404}"
proof -
  have "audit_check (identity_audit ''IDENTITY_UNLINK'' ''internal-api'' c w u)"
    if "x \<in> set (user_identities d)" "identity_key x = (w, u)" "ui_canonical_user_id x = c" for x w
    using assms(1) that
    by (auto simp: identity_rows_ok_def list_all_iff identities_check_def audit_check_def identity_audit_def identity_key_def
        varchar_def)
  then show ?thesis
    using assms(2) by (auto simp: unlink_endpoint_def unlinkIdentity_def audit_record_def Let_def list_ex_iff http_statuses
        split: option.splits if_splits)
qed

lemma unlink_status:
  "identity_rows_ok (ap_db app) \<Longrightarrow> outcome sc mo rq (on_unlink sc rq app) \<in> {204, 400, 404}"
  using unlink_error [of "ap_db app" "sc_redis sc" "hq_path rq ! 2" "hq_path rq ! 4" "hq_path rq ! 5" "ap_redis app"]
  by (auto simp: on_unlink_def split: sum.splits prod.splits)

subsection \<open>Probes\<close>

lemma ready_status:
  assumes "terminus_doc (sc_health sc)" and "wraps_rejections (sc_health sc) \<or> rethrows_objects (sc_health sc)"
  shows "outcome sc mo rq (on_ready sc mo app) \<in> {200, 503, 500}"
proof (cases "readiness (sc_health sc) (mo_query_ok mo) (mo_pong mo)")
  case (Inl t)
  then have n: "\<not> (mo_query_ok mo \<and> mo_pong mo = Some ''PONG'')" using readiness_ready [OF assms(1)] by (metis sum.disc(1))
  show ?thesis
    using readiness_unready [OF n Inl] assms(2)
    by (cases "catch_exception (hq_headers rq) (Some (request_id mo rq)) t")
      (auto simp: on_ready_def Inl reply_to_def)
qed (simp add: on_ready_def)

section \<open>The interface\<close>

text \<open>The statuses an operation answers with that its decorators do not mention.\<close>

definition undocumented :: "Operation \<Rightarrow> nat set" where
  "undocumented o1 =
     (if op_tag o1 \<in> {''shots'', ''stats''} then {400, 500}
      else if op_route o1 \<in> {readyz_route, swingmetric_route, link_identity_route} then {500} else {})"

lemma guard_error: "route_guard hmac e r rq = Inl x \<Longrightarrow> x = UnauthorizedException \<and> rt_protection r \<noteq> Unguarded"
  by (auto simp: route_guard_def InternalApiGuard_def WebhookAuthGuard_def hmac_branch_def api_key_branch_def Let_def
      split: protection.splits option.splits if_splits AuthMode.splits sum.splits)

lemma statuses:
  "rt_status trackpro_route = 202" "rt_status swingmetric_route = 202" "rt_status proswing_route = 202"
  "rt_status (by_user w) = 200" "rt_status (by_vendor w) = 200" "rt_status healthz_route = 200" "rt_status metrics_route = 200"
  by (simp_all add: route_defs by_user_def by_vendor_def healthz_route_def)

lemma operation_statuses:
  "set (op_responses liveness_operation) \<union> undocumented liveness_operation = {200}"
  "set (op_responses readiness_operation) \<union> undocumented readiness_operation = {200, 503, 500}"
  "set (op_responses metrics_operation) \<union> undocumented metrics_operation = {200, 401}"
  "set (op_responses trackpro_operation) \<union> undocumented trackpro_operation = {202, 400, 422, 503}"
  "set (op_responses swingmetric_operation) \<union> undocumented swingmetric_operation = {202, 400, 422, 503, 500}"
  "set (op_responses proswing_operation) \<union> undocumented proswing_operation = {202, 400, 422, 503}"
  "set (op_responses listByUser_operation) \<union> undocumented listByUser_operation = {200, 400, 500}"
  "set (op_responses listByVendorUser_operation) \<union> undocumented listByVendorUser_operation = {200, 400, 500}"
  "set (op_responses getStats_operation) \<union> undocumented getStats_operation = {200, 400, 500}"
  "set (op_responses getStatsByVendorUser_operation) \<union> undocumented getStatsByVendorUser_operation = {200, 400, 500}"
  "set (op_responses linkIdentity_operation) \<union> undocumented linkIdentity_operation = {201, 400, 500}"
  "set (op_responses listIdentities_operation) \<union> undocumented listIdentities_operation = {200}"
  "set (op_responses unlinkIdentity_operation) \<union> undocumented unlinkIdentity_operation = {204, 400, 404}"
  by (auto simp: operation_defs undocumented_def route_defs healthz_route_def readyz_route_def)

lemma outcome_queue_in:
  assumes "\<And>e q'. receive (ap_queue app) = (Inl e, q') \<Longrightarrow> http_status e \<in> S"
  shows "outcome sc mo rq (on_queue r receive app) \<in> insert (rt_status r) S"
  using assms by (cases "receive (ap_queue app)") (auto simp: on_queue_def split: sum.splits)

lemma outcome_read_in:
  assumes "\<And>e. result = Inl e \<Longrightarrow> http_status e \<in> S"
  shows "outcome sc mo rq (on_read r (map_sum id f result) app) \<in> insert (rt_status r) S"
  using assms by (cases result) (auto simp: on_read_def)

lemma operation_outcomes:
  assumes "bullmq (sc_queue sc)" and "datetime_sound (sc_platform sc)" and "terminus_doc (sc_health sc)"
    and "wraps_rejections (sc_health sc) \<or> rethrows_objects (sc_health sc)" and "identity_rows_ok (ap_db app)"
    and "o1 \<in> set operations"
  shows "outcome sc mo rq (handler sc mo rq (op_route o1) app)
           \<in> set (op_responses o1) \<union> undocumented o1 \<union> (if op_headers o1 = [''Idempotency-Key''] then replayed sc mo rq app else {})"
proof -
  note queue = trackpro_error [OF assms(1,2)] proswing_error [OF assms(1,2)] swingmetric_error [OF assms(1)]
  have webhooks: "outcome sc mo rq (handler sc mo rq trackpro_route app) \<in> {202, 400, 422, 503}"
    "outcome sc mo rq (handler sc mo rq proswing_route app) \<in> {202, 400, 422, 503}"
    "outcome sc mo rq (handler sc mo rq swingmetric_route app) \<in> {202, 400, 422, 503, 500}"
    unfolding handlers_at
    by (rule outcome_queue_in [where r = trackpro_route, unfolded statuses] outcome_queue_in [where r = proswing_route, unfolded statuses]
        outcome_queue_in [where r = swingmetric_route, unfolded statuses], erule queue)+
  have queries: "outcome sc mo rq (handler sc mo rq (by_user ''shots'') app) \<in> {200, 400, 500}"
    "outcome sc mo rq (handler sc mo rq (by_vendor ''shots'') app) \<in> {200, 400, 500}"
    "outcome sc mo rq (handler sc mo rq (by_user ''stats'') app) \<in> {200, 400, 500}"
    "outcome sc mo rq (handler sc mo rq (by_vendor ''stats'') app) \<in> {200, 400, 500}"
    using outcome_read_in [where S = "{400, 500}"] shots_error stats_error unfolding handlers_at by (metis statuses(4,5))+
  have probes: "outcome sc mo rq (handler sc mo rq healthz_route app) \<in> {200}"
    "outcome sc mo rq (handler sc mo rq metrics_route app) \<in> {200, 401}"
    unfolding handlers_at outcome_read by (simp_all add: statuses)
  have rest: "outcome sc mo rq (handler sc mo rq readyz_route app) \<in> {200, 503, 500}"
    "outcome sc mo rq (handler sc mo rq list_identities_route app) \<in> {200}"
    "outcome sc mo rq (handler sc mo rq unlink_identity_route app) \<in> {204, 400, 404}"
    unfolding handlers_at using ready_status [OF assms(3,4)] unlink_status [OF assms(5)] by (simp_all add: list_status)
  have link: "outcome sc mo rq (handler sc mo rq link_identity_route app)
      \<in> {201, 400, 500} \<union> (if op_headers linkIdentity_operation = [''Idempotency-Key''] then replayed sc mo rq app else {})"
    unfolding handlers_at using link_status [of sc mo rq app] by (simp add: linkIdentity_operation_def)
  have "list_all (\<lambda>o1. outcome sc mo rq (handler sc mo rq (op_route o1) app)
      \<in> set (op_responses o1) \<union> undocumented o1 \<union> (if op_headers o1 = [''Idempotency-Key''] then replayed sc mo rq app else {}))
      operations"
    unfolding operations_def list.pred_inject operation_routes operation_statuses
    by (intro conjI TrueI link UnI1 [OF webhooks(1)] UnI1 [OF webhooks(2)] UnI1 [OF webhooks(3)] UnI1 [OF queries(1)]
        UnI1 [OF queries(2)] UnI1 [OF queries(3)] UnI1 [OF queries(4)] UnI1 [OF probes(1)] UnI1 [OF probes(2)]
        UnI1 [OF rest(1)] UnI1 [OF rest(2)] UnI1 [OF rest(3)]) simp
  with assms(6) show ?thesis by (simp add: list_all_iff)
qed

lemma api_status:
  assumes "find_route (hq_verb rq) (hq_path rq) = Some r" and "api sc mo rq app = (resp, app')"
  shows "hr_status resp = outcome sc mo rq (handler sc mo rq r app)
       \<or> hr_status resp = 429 \<and> THROTTLE_ENABLED (sc_env sc)
       \<or> hr_status resp = 401 \<and> rt_protection r \<noteq> Unguarded"
proof -
  note route = find_route_Some [OF assms(1)]
  have serve: "serve (sc_hmac sc) (sc_skips sc) (sc_env sc) (mo_below mo) (hq_verb rq) (hq_path rq) (guard_request mo rq)
      (handler sc mo rq) app =
    (if throttled (sc_skips sc) (sc_env sc) (mo_below mo) r then (Inl (Http 429 None None), app)
     else case route_guard (sc_hmac sc) (sc_env sc) r (guard_request mo rq) of
            Inl x \<Rightarrow> (Inl x, app)
          | Inr b \<Rightarrow> (map_sum id Some (fst (handler sc mo rq r app)), snd (handler sc mo rq r app)))"
    using assms(1) route no_options_route by (auto simp: serve_def behind_def split: sum.splits prod.splits)
  show ?thesis
  proof (cases "throttled (sc_skips sc) (sc_env sc) (mo_below mo) r")
    case True
    then show ?thesis
      using assms(2) by (auto simp: api_def serve respond_def reply_problem http_statuses throttled_def)
  next
    case False
    then show ?thesis
      using assms(2) guard_error [of "sc_hmac sc" "sc_env sc" r "guard_request mo rq"]
      by (cases "route_guard (sc_hmac sc) (sc_env sc) r (guard_request mo rq)")
        (auto simp: api_def serve respond_def reply_problem http_statuses outcome_def)
  qed
qed

text \<open>The undocumented statuses occur: a limit below \<open>-1\<close>, an empty club, a canonical user id longer than its column,
  a date beyond the calendar in a batch.\<close>

lemma shots_500:
  assumes "hq_query rq = (\<lambda>k. None)(''limit'' \<mapsto> ''-5'')"
  shows "outcome sc mo rq (handler sc mo rq (by_user ''shots'') app) = 500"
proof -
  let ?q = "query_of (shots_params rq)"
  have q: "?q = \<lparr>q_since = None, q_until = None, q_club = None, q_cursor = None, q_limit = Some (- 5),
      q_include_near_duplicates = False\<rparr>"
    unfolding shots_params_def assms by code_simp
  have "executeQuery env f ?q d = Inl DbError" for env f d
    by (simp add: q executeQuery_def window_date_def truthy_def club_param_def cursor_key_def effective_limit_def MAX_LIMIT_def)
  then show ?thesis
    by (simp add: handlers_at outcome_read listByUser_endpoint_def listByCanonicalUser_shots_def http_statuses)
qed

lemma stats_500:
  assumes "window_date (query_env sc mo) (hq_query rq ''since'') ''since'' (default_since (query_env sc mo)) = Inr since"
    and "window_date (query_env sc mo) (hq_query rq ''until'') ''until'' (qe_now (query_env sc mo)) = Inr until_utc"
    and "\<not> until_utc \<le> since" and "hq_query rq ''club'' = Some []"
  shows "outcome sc mo rq (handler sc mo rq (by_user ''stats'') app) = 500"
  using assms
  by (simp add: handlers_at outcome_read getStats_def executeStatsQuery_def stats_params_def truthy_def http_statuses)

lemma link_500:
  assumes "LinkBodySchema (hq_body rq) = Some (v, u)" and "hq_headers rq ''idempotency-key'' = None" and "26 < length (hq_path rq ! 2)"
  shows "outcome sc mo rq (on_link sc mo rq app) = 500"
  using assms
  by (simp add: on_link_def link_route_def intercept_def header_key_def given_def link_handler_def link_endpoint_def
      ZodValidationPipe_def linkIdentity_def upsert_identity_def identities_check_def varchar_def http_statuses)

lemma swingmetric_500:
  assumes "SwingmetricPayloadSchema (sc_platform sc) (hq_body rq) = Some p"
    and "parseSwingmetric (sc_platform sc) (mo_ulid mo) p (iso_format (mo_now mo)) = Inl e"
  shows "outcome sc mo rq (handler sc mo rq swingmetric_route app) = 500"
  using assms parseSwingmetric_error [OF assms(2)]
  by (simp add: handlers_at on_queue_def swingmetric_receive_def webhook_request_def ZodValidationPipe_def Let_def http_statuses)


text \<open>An unknown club: a 400 that the documentation of the shots does not mention.\<close>

definition sample_club_query :: HttpRequest where
  "sample_club_query =
     \<lparr>hq_verb = GET, hq_path = [''v1'', ''users'', ''c1'', ''shots''], hq_query = (\<lambda>k. None)(''club'' \<mapsto> ''9X''),
      hq_headers = (\<lambda>h. None)(''authorization'' \<mapsto> ''Bearer fedcba9876543210fedcba9876543210''),
      hq_body = JUndefined, hq_raw_body = None\<rparr>"

definition sample_documented :: "((js_string \<times> ShotJob) list, map_store) Service" where
  "sample_documented = sample_service\<lparr>sc_platform := sample_platform\<rparr>"

end
