(* ===== verification/Club_Table.thy ===== *)
theory Club_Table
  imports Club_Code
begin

text \<open>
  The club tables of \<open>migrations/002_club_data.sql\<close> with their seed, and the alias map of
  \<open>shared/domain/club-code.ts\<close> against them. The migration announces that aliases are managed in the
  database; \<open>normaliseClub\<close> reads its own map, which knows a part of them.
\<close>

section \<open>The tables\<close>

datatype club_category = Wood | Hybrid | Iron | Wedge | Putter | Uncategorised

text \<open>Lofts in tenths of a degree, as \<open>NUMERIC(4,1)\<close> stores them.\<close>

record ClubCodesRow =
  cc_club_code :: js_string
  cc_display_name :: js_string
  cc_category :: club_category
  cc_loft_deg_min :: "nat option"
  cc_loft_deg_max :: "nat option"
  cc_excluded_from_distance_stats :: bool

datatype alias_source = Seed | Ops | Auto_suggested

record ClubAliasesRow =
  ca_alias :: js_string
  ca_club_code :: js_string
  ca_source :: alias_source
  ca_confirmed_by :: "js_string option"
  ca_confirmed_at_utc :: "js_string option"

definition club_row ::
    "js_string \<Rightarrow> js_string \<Rightarrow> club_category \<Rightarrow> nat option \<Rightarrow> nat option \<Rightarrow> bool \<Rightarrow> ClubCodesRow" where
  "club_row code name category lo hi excluded =
     \<lparr>cc_club_code = code, cc_display_name = name, cc_category = category, cc_loft_deg_min = lo,
      cc_loft_deg_max = hi, cc_excluded_from_distance_stats = excluded\<rparr>"

definition seed_club_codes :: "ClubCodesRow list" where
  "seed_club_codes =
     [club_row ''DR'' ''Driver'' Wood (Some 70) (Some 120) False,
      club_row ''3W'' ''3 Wood'' Wood (Some 130) (Some 170) False,
      club_row ''4W'' ''4 Wood'' Wood (Some 150) (Some 190) False,
      club_row ''5W'' ''5 Wood'' Wood (Some 180) (Some 220) False,
      club_row ''7W'' ''7 Wood'' Wood (Some 200) (Some 240) False,
      club_row ''2H'' ''2 Hybrid'' Hybrid (Some 170) (Some 200) False,
      club_row ''3H'' ''3 Hybrid'' Hybrid (Some 190) (Some 220) False,
      club_row ''4H'' ''4 Hybrid'' Hybrid (Some 220) (Some 250) False,
      club_row ''5H'' ''5 Hybrid'' Hybrid (Some 240) (Some 280) False,
      club_row ''1I'' ''1 Iron'' Iron (Some 150) (Some 180) False,
      club_row ''2I'' ''2 Iron'' Iron (Some 170) (Some 210) False,
      club_row ''3I'' ''3 Iron'' Iron (Some 200) (Some 230) False,
      club_row ''4I'' ''4 Iron'' Iron (Some 230) (Some 260) False,
      club_row ''5I'' ''5 Iron'' Iron (Some 250) (Some 290) False,
      club_row ''6I'' ''6 Iron'' Iron (Some 290) (Some 330) False,
      club_row ''7I'' ''7 Iron'' Iron (Some 330) (Some 370) False,
      club_row ''8I'' ''8 Iron'' Iron (Some 370) (Some 410) False,
      club_row ''9I'' ''9 Iron'' Iron (Some 410) (Some 450) False,
      club_row ''PW'' ''Pitching Wedge'' Wedge (Some 430) (Some 480) False,
      club_row ''GW'' ''Gap Wedge'' Wedge (Some 490) (Some 530) False,
      club_row ''AW'' ''Approach Wedge'' Wedge (Some 490) (Some 530) False,
      club_row ''SW'' ''Sand Wedge'' Wedge (Some 540) (Some 580) False,
      club_row ''LW'' ''Lob Wedge'' Wedge (Some 590) (Some 640) False,
      club_row ''PT'' ''Putter'' Putter (Some 20) (Some 60) True,
      club_row ''UNKNOWN'' ''Unknown'' Uncategorised (None) (None) False]"

text \<open>The aliases, in the order of the seed: driver and woods, hybrids, irons, wedges and putter.\<close>

definition wood_aliases :: "(js_string \<times> js_string) list" where
  "wood_aliases =
     [(''driver'', ''DR''), (''dr'', ''DR''), (''1w'', ''DR''), (''1 wood'', ''DR''), (''1wood'', ''DR''),
      (''3w'', ''3W''), (''3 wood'', ''3W''), (''3wood'', ''3W''), (''3-wood'', ''3W''),
      (''fairway 3'', ''3W''), (''4w'', ''4W''), (''4 wood'', ''4W''), (''4wood'', ''4W''),
      (''4-wood'', ''4W''), (''5w'', ''5W''), (''5 wood'', ''5W''), (''5wood'', ''5W''), (''5-wood'', ''5W''),
      (''fairway 5'', ''5W''), (''7w'', ''7W''), (''7 wood'', ''7W''), (''7wood'', ''7W''), (''7-wood'', ''7W'')]"

definition hybrid_aliases :: "(js_string \<times> js_string) list" where
  "hybrid_aliases =
     [(''2h'', ''2H''), (''2 hybrid'', ''2H''), (''2hybrid'', ''2H''), (''2-hybrid'', ''2H''),
      (''hybrid 2'', ''2H''), (''3h'', ''3H''), (''3 hybrid'', ''3H''), (''3hybrid'', ''3H''),
      (''3-hybrid'', ''3H''), (''hybrid 3'', ''3H''), (''4h'', ''4H''), (''4 hybrid'', ''4H''),
      (''4hybrid'', ''4H''), (''4-hybrid'', ''4H''), (''hybrid 4'', ''4H''), (''5h'', ''5H''),
      (''5 hybrid'', ''5H''), (''5hybrid'', ''5H''), (''5-hybrid'', ''5H''), (''hybrid 5'', ''5H'')]"

definition short_iron_aliases :: "(js_string \<times> js_string) list" where
  "short_iron_aliases =
     [(''1i'', ''1I''), (''2i'', ''2I''), (''3i'', ''3I''), (''4i'', ''4I''), (''5i'', ''5I''),
      (''6i'', ''6I''), (''7i'', ''7I''), (''8i'', ''8I''), (''9i'', ''9I''), (''i1'', ''1I''),
      (''i2'', ''2I''), (''i3'', ''3I''), (''i4'', ''4I''), (''i5'', ''5I''), (''i6'', ''6I''),
      (''i7'', ''7I''), (''i8'', ''8I''), (''i9'', ''9I'')]"

definition iron_aliases :: "(js_string \<times> js_string) list" where
  "iron_aliases =
     [(''1 iron'', ''1I''), (''2 iron'', ''2I''), (''3 iron'', ''3I''), (''4 iron'', ''4I''),
      (''5 iron'', ''5I''), (''6 iron'', ''6I''), (''7 iron'', ''7I''), (''8 iron'', ''8I''),
      (''9 iron'', ''9I''), (''1iron'', ''1I''), (''2iron'', ''2I''), (''3iron'', ''3I''), (''4iron'', ''4I''),
      (''5iron'', ''5I''), (''6iron'', ''6I''), (''7iron'', ''7I''), (''8iron'', ''8I''), (''9iron'', ''9I''),
      (''1-iron'', ''1I''), (''2-iron'', ''2I''), (''3-iron'', ''3I''), (''4-iron'', ''4I''),
      (''5-iron'', ''5I''), (''6-iron'', ''6I''), (''7-iron'', ''7I''), (''8-iron'', ''8I''),
      (''9-iron'', ''9I''), (''iron 1'', ''1I''), (''iron 2'', ''2I''), (''iron 3'', ''3I''),
      (''iron 4'', ''4I''), (''iron 5'', ''5I''), (''iron 6'', ''6I''), (''iron 7'', ''7I''),
      (''iron 8'', ''8I''), (''iron 9'', ''9I'')]"

definition wedge_aliases :: "(js_string \<times> js_string) list" where
  "wedge_aliases =
     [(''pw'', ''PW''), (''pitching wedge'', ''PW''), (''pitching-wedge'', ''PW''),
      (''pitchingwedge'', ''PW''), (''p wedge'', ''PW''), (''gw'', ''GW''), (''gap wedge'', ''GW''),
      (''gap-wedge'', ''GW''), (''gapwedge'', ''GW''), (''aw'', ''AW''), (''approach wedge'', ''AW''),
      (''approach-wedge'', ''AW''), (''approachwedge'', ''AW''), (''a wedge'', ''AW''), (''sw'', ''SW''),
      (''sand wedge'', ''SW''), (''sand-wedge'', ''SW''), (''sandwedge'', ''SW''), (''lw'', ''LW''),
      (''lob wedge'', ''LW''), (''lob-wedge'', ''LW''), (''lobwedge'', ''LW''), (''pt'', ''PT''),
      (''putter'', ''PT''), (''putt'', ''PT'')]"

definition seed_alias_pairs :: "(js_string \<times> js_string) list" where
  "seed_alias_pairs = wood_aliases @ hybrid_aliases @ short_iron_aliases @ iron_aliases @ wedge_aliases"

definition seed_club_aliases :: "ClubAliasesRow list" where
  "seed_club_aliases =
     map (\<lambda>(a, c). \<lparr>ca_alias = a, ca_club_code = c, ca_source = Seed, ca_confirmed_by = None, ca_confirmed_at_utc = None\<rparr>)
       seed_alias_pairs"

text \<open>\<open>INSERT \<dots> ON CONFLICT (key) DO NOTHING\<close>, row by row.\<close>

fun insert_missing :: "('r \<Rightarrow> 'k) \<Rightarrow> 'r list \<Rightarrow> 'r list \<Rightarrow> 'r list" where
  "insert_missing key [] table = table"
| "insert_missing key (r # rows) table =
     insert_missing key rows (if key r \<in> key ` set table then table else table @ [r])"

section \<open>Lemmas\<close>

lemma insert_missing_prefix: "\<exists>new. insert_missing key rows table = table @ new \<and> set new \<subseteq> set rows"
proof (induction rows arbitrary: table)
  case (Cons r rows)
  show ?case
    using Cons [of table] Cons [of "table @ [r]"] by (cases "key r \<in> key ` set table") auto
qed simp

lemma insert_missing_keys: "key ` set (insert_missing key rows table) = key ` set table \<union> key ` set rows"
  by (induction rows arbitrary: table) auto

lemma insert_missing_none: "key ` set rows \<subseteq> key ` set table \<Longrightarrow> insert_missing key rows table = table"
  by (induction rows) auto

lemma insert_missing_again: "insert_missing key rows (insert_missing key rows table) = insert_missing key rows table"
  by (rule insert_missing_none) (auto simp: insert_missing_keys)

lemma insert_missing_distinct: "distinct (map key table) \<Longrightarrow> distinct (map key (insert_missing key rows table))"
  by (induction rows arbitrary: table) auto

text \<open>The aliases that \<open>normaliseClub\<close> reads as another club than the seed, with what it reads.\<close>

definition unread_of :: "(js_string \<times> js_string) list \<Rightarrow> (js_string \<times> club_code) list" where
  "unread_of pairs =
     concat (map (\<lambda>(a, c). let n = normaliseClub a in if n = Club c then [] else [(a, n)]) pairs)"

lemma wood_reading: "unread_of wood_aliases =
     [(''1w'', Club ''UNKNOWN''), (''1 wood'', Club ''UNKNOWN''), (''1wood'', Club ''UNKNOWN''),
      (''3-wood'', Club ''UNKNOWN''), (''fairway 3'', Club ''UNKNOWN''), (''4-wood'', Club ''UNKNOWN''),
      (''5-wood'', Club ''UNKNOWN''), (''fairway 5'', Club ''UNKNOWN''), (''7-wood'', Club ''UNKNOWN'')]"
  by code_simp

lemma hybrid_reading: "unread_of hybrid_aliases =
     [(''2-hybrid'', Club ''UNKNOWN''), (''hybrid 2'', Club ''UNKNOWN''), (''3-hybrid'', Club ''UNKNOWN''),
      (''hybrid 3'', Club ''UNKNOWN''), (''4-hybrid'', Club ''UNKNOWN''), (''hybrid 4'', Club ''UNKNOWN''),
      (''5-hybrid'', Club ''UNKNOWN''), (''hybrid 5'', Club ''UNKNOWN'')]"
  by code_simp

lemma short_iron_reading: "unread_of short_iron_aliases =
     []"
  by code_simp

lemma iron_reading: "unread_of iron_aliases =
     [(''1-iron'', Club ''UNKNOWN''), (''2-iron'', Club ''UNKNOWN''), (''3-iron'', Club ''UNKNOWN''),
      (''4-iron'', Club ''UNKNOWN''), (''5-iron'', Club ''UNKNOWN''), (''6-iron'', Club ''UNKNOWN''),
      (''7-iron'', Club ''UNKNOWN''), (''8-iron'', Club ''UNKNOWN''), (''9-iron'', Club ''UNKNOWN''),
      (''iron 1'', Club ''UNKNOWN''), (''iron 2'', Club ''UNKNOWN''), (''iron 3'', Club ''UNKNOWN''),
      (''iron 4'', Club ''UNKNOWN''), (''iron 5'', Club ''UNKNOWN''), (''iron 6'', Club ''UNKNOWN''),
      (''iron 7'', Club ''UNKNOWN''), (''iron 8'', Club ''UNKNOWN''), (''iron 9'', Club ''UNKNOWN'')]"
  by code_simp

lemma wedge_reading: "unread_of wedge_aliases =
     [(''pitching-wedge'', Club ''UNKNOWN''), (''pitchingwedge'', Club ''UNKNOWN''),
      (''p wedge'', Club ''UNKNOWN''), (''gap-wedge'', Club ''UNKNOWN''), (''gapwedge'', Club ''UNKNOWN''),
      (''approach-wedge'', Club ''UNKNOWN''), (''approachwedge'', Club ''UNKNOWN''),
      (''a wedge'', Club ''UNKNOWN''), (''sand-wedge'', Club ''UNKNOWN''), (''sandwedge'', Club ''UNKNOWN''),
      (''lob-wedge'', Club ''UNKNOWN''), (''lobwedge'', Club ''UNKNOWN''), (''putt'', Club ''UNKNOWN'')]"
  by code_simp

lemma seed_keys: "list_all (\<lambda>(a, c). c \<in> set VALID_CLUB_CODES \<and> c \<noteq> ''UNKNOWN'') seed_alias_pairs"
  by code_simp

lemma seed_covers_map: "list_all (\<lambda>(a, c). (a, c) \<in> set seed_alias_pairs) ALIAS_MAP"
  by code_simp

lemma normaliseClub_key: "normaliseClub raw = normaliseClub (toLowerCase (trim raw))"
  using normaliseClub_cases [of raw] normaliseClub_cases [of "toLowerCase (trim raw)"] by simp

lemma unread_of_append: "unread_of (xs @ ys) = unread_of xs @ unread_of ys"
  by (simp add: unread_of_def)

lemma unread_of_iff: "(a, n) \<in> set (unread_of pairs) \<longleftrightarrow> n = normaliseClub a \<and> (\<exists>c. (a, c) \<in> set pairs \<and> normaliseClub a \<noteq> Club c)"
  by (auto simp: unread_of_def Let_def)

lemmas readings = wood_reading hybrid_reading short_iron_reading iron_reading wedge_reading

lemma unread_of_seed:
  "length (unread_of seed_alias_pairs) = 48" "length seed_alias_pairs = 122"
  "snd ` set (unread_of seed_alias_pairs) = {Club ''UNKNOWN''}"
  by (simp_all add: seed_alias_pairs_def unread_of_append readings)
    (simp_all add: wood_aliases_def hybrid_aliases_def short_iron_aliases_def iron_aliases_def wedge_aliases_def)

lemma seed_codes:
  "map cc_club_code seed_club_codes = VALID_CLUB_CODES"
  "map cc_club_code (filter cc_excluded_from_distance_stats seed_club_codes) = [''PT'']"
  by (simp_all add: seed_club_codes_def club_row_def VALID_CLUB_CODES_def)

section \<open>The seed and the code\<close>

text \<open>C30: The seed of the club tables against the code. Their club codes are the codes of the domain, in the same
  order, and the putter is the one they exclude from distance statistics, as the statistics do. Every alias the
  code knows is in the seed, for the same club. Not so the other way: of the 122 aliases, however a vendor
  spells their case and surrounding space, 48 are read as an unknown club, a hyphenated \<open>3-wood\<close> among them, and the
  others as the club they stand for. Seeding is repeatable: a second run changes nothing, and rows that are there already stay as
  they are, those that operations added too.\<close>

theorem club_seed:
  assumes "(toLowerCase (trim raw), c) \<in> set seed_alias_pairs"
  shows "normaliseClub raw \<in> {Club c, Club ''UNKNOWN''} \<and> c \<in> set VALID_CLUB_CODES
       \<and> (normaliseClub raw = Club ''UNKNOWN'' \<longleftrightarrow> toLowerCase (trim raw) \<in> fst ` set (unread_of seed_alias_pairs))
       \<and> length (unread_of seed_alias_pairs) = 48 \<and> length seed_alias_pairs = 122
       \<and> set ALIAS_MAP \<subseteq> set seed_alias_pairs
       \<and> map cc_club_code seed_club_codes = VALID_CLUB_CODES
       \<and> map cc_club_code (filter cc_excluded_from_distance_stats seed_club_codes) = [''PT'']
       \<and> (let seed = insert_missing ca_alias seed_club_aliases
          in seed (seed table) = seed table \<and> take (length table) (seed table) = table
             \<and> (distinct (map ca_alias table) \<longrightarrow> distinct (map ca_alias (seed table))))"
proof -
  let ?a = "toLowerCase (trim raw)"
  have key: "normaliseClub raw = normaliseClub ?a" by (rule normaliseClub_key)
  have "(\<lambda>(a, c). c \<in> set VALID_CLUB_CODES \<and> c \<noteq> ''UNKNOWN'') (?a, c)"
    using seed_keys assms unfolding list_all_iff by (rule bspec)
  then have valid: "c \<in> set VALID_CLUB_CODES" "c \<noteq> ''UNKNOWN''" by simp_all
  have unread: "n = Club ''UNKNOWN''" if "(a, n) \<in> set (unread_of seed_alias_pairs)" for a n
    using imageI [OF that, of snd] unfolding unread_of_seed(3) by simp
  have read: "(?a, normaliseClub ?a) \<in> set (unread_of seed_alias_pairs)" if "normaliseClub ?a \<noteq> Club c"
    using assms that unfolding unread_of_iff by blast
  have "normaliseClub raw \<in> {Club c, Club ''UNKNOWN''}"
    using read unread unfolding key by blast
  moreover have "normaliseClub raw = Club ''UNKNOWN'' \<longleftrightarrow> ?a \<in> fst ` set (unread_of seed_alias_pairs)"
  proof
    assume "normaliseClub raw = Club ''UNKNOWN''"
    then show "?a \<in> fst ` set (unread_of seed_alias_pairs)"
      using read valid(2) unfolding key by (intro image_eqI [where x = "(?a, normaliseClub ?a)"]) simp_all
  next
    assume "?a \<in> fst ` set (unread_of seed_alias_pairs)"
    then obtain n where n: "(?a, n) \<in> set (unread_of seed_alias_pairs)" by auto
    then show "normaliseClub raw = Club ''UNKNOWN''"
      using unread [OF n] unfolding key unread_of_iff by blast
  qed
  moreover have "set ALIAS_MAP \<subseteq> set seed_alias_pairs"
    using seed_covers_map by (auto simp: list_all_iff)
  moreover have "take (length table) (insert_missing ca_alias seed_club_aliases table) = table"
    using insert_missing_prefix [of ca_alias seed_club_aliases table] by auto
  ultimately show ?thesis
    using valid unread_of_seed(1,2) seed_codes insert_missing_again [of ca_alias seed_club_aliases table]
      insert_missing_distinct [of ca_alias table seed_club_aliases] by (simp add: Let_def)
qed

theorem club_seed_witness:
  "normaliseClub '' 3-Wood '' = Club ''UNKNOWN'' \<and> (toLowerCase (trim '' 3-Wood ''), ''3W'') \<in> set seed_alias_pairs"
proof -
  have k: "toLowerCase (trim '' 3-Wood '') = ''3-wood''" by code_simp
  have m: "(toLowerCase (trim '' 3-Wood ''), ''3W'') \<in> set seed_alias_pairs"
    unfolding k by (simp add: seed_alias_pairs_def wood_aliases_def)
  have "toLowerCase (trim '' 3-Wood '') \<in> fst ` set (unread_of seed_alias_pairs)"
    unfolding k by (simp add: seed_alias_pairs_def unread_of_append readings)
  with club_seed [OF m] m show ?thesis by blast
qed

end
