(* ===== verification/Spec2Isabelle.thy ===== *)
theory Spec2Isabelle
  imports Processor Metrics Load_Journey App_Modules Documentation Club_Table
begin

text \<open>
  A model of the ingestion service for golf shots: three launch-monitor vendors post
  shots to webhooks, a queue hands them to workers, the workers store them in PostgreSQL with an
  outbox of events, and clients read pages of shots and statistics per club. Paths below are
  relative to \<open>src/\<close>, the TypeScript sources; \<open>migrations/\<close> holds the SQL.

  \<^bold>\<open>The parts and how they interact.\<close> A request passes the hooks of \<open>main.api.ts\<close>, the throttlers
  and the guard of its route, and reaches a handler. A webhook's handler validates the body
  with a schema, parses it to normalised shots in SI units, refuses shots outside the clock
  window, and adds one job per shot to the queue under the shot's idempotency key. The worker
  takes a job: it resolves the vendor user to a canonical user (with a Redis cache in front of the table),
  inserts the shot and its outbox event in one transaction unless the key is known, looks for a
  near duplicate, and counts the outcome. A poller hands the outbox to listeners. The identity
  endpoints change the mapping from vendor users to canonical users, back-fill stored shots and keep an audit log.
  The query endpoints read pages by cursor, and statistics. Whatever is thrown on the way becomes a
  problem document in the exception filter.

  \<^bold>\<open>Theories, in the order of the imports.\<close>
  \<^item> \<open>Prelude\<close>: lemma collections, JavaScript string operations, decimal numerals. \<open>Js_Number\<close>,
    \<open>Js_Date\<close>, \<open>Js_Value\<close>, \<open>Js_Sqrt\<close>: the parts of the language the sources use: binary64 arithmetic,
    dates, request bodies with the zod combinators, square roots.
  \<^item> \<open>Units\<close>, \<open>Club_Code\<close>, \<open>Content_Hash\<close>, \<open>Shot\<close>: \<open>shared/domain\<close>, \<open>shared/errors\<close> and
    \<open>ingestion/content-hash.ts\<close>. \<open>Shot\<close> also holds the contract of a vendor's parser.
  \<^item> \<open>Club_Table\<close>: the club tables and their seed, \<open>migrations/002_club_data.sql\<close>, against \<open>Club_Code\<close>.
  \<^item> \<open>Trackpro\<close>, \<open>Swingmetric\<close>, \<open>Proswing\<close>: schema, wire formats and parser of each
    vendor (\<open>webhooks/*\<close>).
  \<^item> \<open>Queue\<close>: \<open>ingestion/shot-ingestion.queue.ts\<close>. \<open>Webhooks\<close>: the three \<open>receive\<close> handlers.
  \<^item> \<open>Database\<close>: the tables and their constraints (\<open>migrations/001_init.sql\<close>,
    \<open>shared/kysely/types.ts\<close>). \<open>Repository\<close>, \<open>Outbox\<close>, \<open>Redaction\<close>, \<open>Identity\<close>, \<open>Processor\<close>: the
    worker's side, \<open>ingestion/*\<close>, \<open>shared/pii-redact.ts\<close>, \<open>identity/*\<close> and \<open>shared/audit/*\<close>.
  \<^item> \<open>Shots_Query\<close>, \<open>Stats\<close>: the query endpoints, \<open>shots/*\<close> and \<open>stats/*\<close>.
  \<^item> \<open>Env_Schema\<close>, \<open>Guards\<close>, \<open>Routes\<close>, \<open>Http_Edge\<close>, \<open>Idempotency\<close>, \<open>Metrics\<close>, \<open>Migrations\<close>: the
    service's edge: configuration, authentication, route table and throttlers, request ids
    and problem documents, replay of identity links, the metrics registry, and the migration runner.
  \<^item> \<open>Startup\<close>: \<open>main.api.ts\<close> and \<open>main.worker.ts\<close>: what each process sets up before it serves, its
    hooks, its pool and logger settings, and the readiness probe.
  \<^item> \<open>Api\<close>: the whole API as one function from a request and the state of the service to an answer and
    the state it leaves: hooks, throttlers, guard, handler and exception filter composed.
  \<^item> \<open>App_Modules\<close>: the \<open>*.module.ts\<close> files: the tree of modules of both processes, what their classes inject, and the
    consumers and intervals that run in each process.
  \<^item> \<open>Documentation\<close>: the \<open>@Api*\<close> decorators of the controllers and \<open>shared/openapi/openapi.ts\<close>, compared with \<open>Api\<close>.
  \<^item> \<open>Load_Test\<close>: the payload builders of \<open>k6-load-test.js\<close>, which the webhooks accept. \<open>Load_Journey\<close>: its
    scenarios, budgets and scripts run against \<open>Api\<close>, with the checks on every answer.
  \<^item> This theory: what spans several of them, from the webhook to the table and to a page of shots.

  \<^bold>\<open>How state and operations correspond to the code.\<close> An object of the code is a record with
  its field names (prefixed where two records share one), an enumeration is a datatype, an
  operation is a function of the state it reads that returns the state it leaves, and everything that
  is thrown is a constructor of \<open>exn\<close> in the left part of a sum. An \<open>async\<close> function whose awaits matter is cut
  at them: \<open>process_step\<close> (the worker's handler), \<open>batch_step\<close> (the calls of a batch), \<open>resolve_read\<close> and
  \<open>resolve_write\<close>, \<open>intercept\<close> and \<open>executeAndCache\<close>; the step relations \<open>batch_step\<close> and \<open>sys_step\<close> then allow every
  interleaving, with crashes and retries.

  \<^bold>\<open>Interfaces.\<close> \<open>unit_conversion\<close> (zero, order, sign), interpreted on the seven conversions of
  \<open>Units\<close>; \<open>vendor_parser\<close> (what a parser accepts yields fresh shots), interpreted on the three
  parsers; \<open>shot_store\<close> (the first shot under a key wins and stays), interpreted on the repository;
  \<open>guard\<close> (a request passes exactly with its credential), interpreted on both guards.

  \<^bold>\<open>What the lemmas show.\<close>
  \<^item> The pipeline: constraints and the outbox invariant hold in every reachable state; each outcome of a
    job and what it leaves; at-least-once publication and draining; near duplicates found
    exactly as specified; the resolve cache never contradicts the table.
  \<^item> The vendors: accepted payloads parse to fresh shots within bounds, wire formats are
    recognised and translated without loss, keys and hashes identify what they should.
  \<^item> The API: a refused request changes nothing, batches never overflow the queue in any interleaving, cursors
    visit every matching shot once, statistics are ordered and partition the shots,
    production admits no request without a credential.
  \<^item> The processes: a request that is not answered with success has changed nothing; nothing listens before the
    environment is validated and the migrations have run; every dependency of both processes resolves; the
    documented statuses and parameters are those of the API, up to a short list; the checks of the load test fail only when the
    queue is full.
  \<^item> Where the code falls short of its intent the theorem states what it does: a shot at a limit of
    its schema that the table refuses, duplicates missed across a minute, a starved outbox, stale
    identity lists, retried links that run twice, probes that are throttled, a readiness failure answered
    with 500 where 503 is documented, an API process that works on jobs, statuses no one documented.

  \<^bold>\<open>Parameters.\<close> SHA-256 and HMAC-SHA-256; the format checks zod implements itself and \<open>Date.parse\<close> on
  strings outside the standard format (\<open>Platform\<close>); ULIDs and UUIDs; BullMQ (\<open>bullmq\<close>); Redis
  (\<open>redis_ok\<close>); base64url, JSON text and PostgreSQL's cast of a client's time stamp (\<open>codec_ok\<close>);
  the order of rows with equal times; the listeners of the outbox; prom-client (\<open>prom_ok\<close>); the
  throttler library's reading of its decorators (\<open>throttler_doc\<close>) and its storage; Terminus, which runs
  the readiness indicators (\<open>terminus_doc\<close>); the container of NestJS and the exports of library modules
  (\<open>nest_doc\<close>, \<open>libraries_doc\<close>); the platform, libraries and settings of a running service, as the
  fields of one record (\<open>Service\<close>); the file
  system and the database of the migration runner. Each has a concrete instance in a witness.

  \<^bold>\<open>Bounds and fuel.\<close> Numbers are binary64, as rationals rounded by \<open>fl\<close> after every operation, without
  infinities; NaN is \<open>None\<close>. Strings hold 8-bit characters, and case mapping is that of the ASCII letters.
  Dates range over 8640000000000000 milliseconds around the epoch. \<open>run_stages\<close> has fuel four, one per await of
  the handler, enough by \<open>run_stages_ends\<close>; \<open>follow\<close> counts the requests of a client, one more than there
  are shots suffices. Every other loop recurses structurally or on a measure.

  \<^bold>\<open>Not modelled.\<close> The construction of clients (Redis, tracing, compression): configuration of libraries with no
  logic of its own; the settings of the database pool and the logger are values in \<open>Startup\<close>. Texts of
  messages, descriptions and log lines, which no caller reads, and response headers other than those \<open>Http_Edge\<close>
  and \<open>Startup\<close> name. When timers fire is left open: \<open>App_Modules\<close> says which there are, \<open>Queue\<close> and \<open>Outbox\<close> what they
  start. Indexes, partitions and grants of the schema, and tables that no code reads. The runner of the load test,
  which schedules its users and measures time: its scenarios and budgets are data. The test suites.
\<close>

section \<open>From the TrackPro webhook to the table\<close>

text \<open>The ranges the table demands beyond what the schema already guarantees.\<close>

definition within_table :: "NormalisedShot \<Rightarrow> bool" where
  "within_table s \<longleftrightarrow>
     ball_speed_mps s < 120 \<and> pred_option (\<lambda>x. x < 100) (club_head_speed_mps s)
     \<and> pred_option (\<lambda>i. i < 15000) (spin_rpm s) \<and> carry_m s < 450 \<and> pred_option (\<lambda>x. x < 500) (total_m s)"

lemma shot_uid_length: "shot_uid_format u \<Longrightarrow> length u = 22"
  by (simp add: shot_uid_format_def match_classes_def)

lemma trackpro_checks:
  assumes "trackpro_ok P p" and "parseTrackpro P ids p (iso_format now) = Inr [s]"
    and "\<bar>now\<bar> \<le> 8640000000000000" and "length (ids 0) \<le> 26" and "\<And>x. length (sha256 P x) \<le> 64"
    and "toLowerCase (trim (tp_club p)) \<notin> set inherited_names" and "pred_option (varchar 26) c"
  shows "shots_check (s\<lparr>canonical_user_id := c\<rparr>) \<longleftrightarrow> within_table s"
proof -
  obtain t where t: "\<bar>t\<bar> \<le> 8640000000000000" and s: "captured_at_utc s = iso_format t"
    using parseTrackpro_fresh [OF assms(1,2)] by (auto simp: fresh_shot_def)
  have ts: "timestamptz (captured_at_utc s)" "timestamptz (iso_format now)"
    using iso_parse_format [OF t] iso_parse_format [OF assms(3)] by (simp_all add: timestamptz_def s)
  have club: "valid_club (normaliseClub (tp_club p))" by (rule normaliseClub_code [OF assms(6)])
  have uid: "length (tp_shot_uid p) = 22" using assms(1) by (simp add: trackpro_ok_def shot_uid_length)
  have ids: "pred_option (varchar 255) (tp_device_id p)" "pred_option (varchar 255) (tp_session_id p)"
    using assms(1) by (auto simp: trackpro_ok_def varchar_def elim: option.pred_mono_strong)
  show ?thesis
    using assms(1,2,4,5,7) ts club uid ids
    by (auto simp: parseTrackpro_simps shots_check_def within_table_def trackpro_ok_def varchar_def computeContentHash_def
        split: option.splits elim: option.pred_mono_strong)
qed

text \<open>C21: A shot that the TrackPro schema accepts and the parser returns meets every constraint of the table
  exactly when its speeds, spin, carry and total are strictly below the table's limits: the schema
  admits the limits themselves. A shot on a limit has been answered 202, and every
  attempt of its job fails and leaves the database as it was. (The hypotheses bound what is not
  the payload: the length of a ULID and of a SHA-256, the clock, and a club name that is no
  inherited member.)\<close>

theorem trackpro_insertable:
  assumes "TrackproPayloadSchema P v = Some p" and "parseTrackpro P ids p (iso_format now) = Inr [s]"
    and "\<bar>now\<bar> \<le> 8640000000000000" and "length (ids 0) \<le> 26" and "\<And>x. length (sha256 P x) \<le> 64"
    and "toLowerCase (trim (tp_club p)) \<notin> set inherited_names"
  shows "(shots_check s \<longleftrightarrow> within_table s)
       \<and> (\<not> within_table s \<and> j_normalisedShot job = s \<and> nows \<noteq> []
            \<and> \<not> hasExcessiveClockSkew (we_platform env) (captured_at_utc s) (j_receivedAtUtc job) \<longrightarrow>
          (case run_job env nows job w of (res, w') \<Rightarrow> res = Some (Inl DbError) \<and> w_db w' = w_db w))"
proof -
  note ok = schema_accepts_ok [OF assms(1)]
  note ch = trackpro_checks [OF ok assms(2-6)]
  have "canonical_user_id s = None" using parseTrackpro_fresh [OF ok assms(2)] by (simp add: fresh_shot_def)
  then have "s\<lparr>canonical_user_id := None\<rparr> = s" by simp
  then have "shots_check s \<longleftrightarrow> within_table s" using ch [of None] by simp
  moreover have "\<not> shots_check (s\<lparr>canonical_user_id := c\<rparr>)" if "\<not> within_table s" for c
    using ch [of c] that by (cases "pred_option (varchar 26) c") (simp_all add: shots_check_def)
  ultimately show ?thesis using refused_run [of job nows env w] by auto
qed

theorem trackpro_insertable_witness:
  "\<exists>s. parseTrackpro (sample_platform\<lparr>sha256 := \<lambda>x. ''h''\<rparr>) (\<lambda>i. ''01J'') sample_trackpro (iso_format 0) = Inr [s]
     \<and> shots_check s \<and> within_table s"
proof -
  let ?P = "sample_platform\<lparr>sha256 := \<lambda>x. ''h''\<rparr>"
  have "trackpro_ok ?P sample_trackpro"
    using sample_trackpro_ok by (simp add: trackpro_ok_def sample_platform_def)
  note v = schema_of_json [OF this]
  obtain s where s: "parseTrackpro ?P (\<lambda>i. ''01J'') sample_trackpro (iso_format 0) = Inr [s]"
    by (auto simp: parseTrackpro_simps sample_trackpro_def sample_platform_def date_parse_def sample_trackpro_time TimeClip_def)
  then have w: "within_table s"
    by (auto simp: parseTrackpro_simps within_table_def sample_trackpro_def split: option.splits)
  have "toLowerCase (trim (tp_club sample_trackpro)) \<notin> set inherited_names"
    unfolding sample_trackpro_def by code_simp
  then have "shots_check s"
    using trackpro_insertable [OF v s] w by simp
  with s w show ?thesis by blast
qed

section \<open>From the webhook to the page of shots\<close>

text \<open>An accepted single shot whose key the queue does not know is queued as parsed.\<close>

lemma receive_queues:
  assumes "bullmq B" and "receive_single P B c corr received (Inr [s]) q = (Inr a, q')"
    and "\<not> isJobIdKnown B (idempotency_key s) q"
  shows "getJob B (idempotency_key s) q' =
           Some \<lparr>j_vendor = vendor s, j_normalisedShot = s, j_correlationId = corr, j_receivedAtUtc = received\<rparr>"
    and "\<not> hasExcessiveClockSkew P (captured_at_utc s) received"
proof -
  let ?job = "\<lparr>j_vendor = vendor s, j_normalisedShot = s, j_correlationId = corr, j_receivedAtUtc = received\<rparr>"
  show skew: "\<not> hasExcessiveClockSkew P (captured_at_utc s) received"
    using assms(2) by (auto simp: receive_single_def split: if_splits)
  have q': "q' = fst (add_shot B s corr received q)"
    using assms(2) skew by (auto simp: receive_single_def enqueue_def split: option.splits prod.splits sum.splits)
  have k: "o_jobId (job_options s) = idempotency_key s" by (simp add: job_options_def)
  then show "getJob B (idempotency_key s) q' = Some ?job"
    using assms(1,3) unfolding q' add_shot_def bullmq_def isJobIdKnown_def by metis
qed

text \<open>A run of the handler on a shot that is new to the database.\<close>

lemma process_stores:
  assumes "db_inv (w_db w)" and "outbox_inv (w_db w)"
    and "\<not> hasExcessiveClockSkew (we_platform env) (captured_at_utc (j_normalisedShot job)) (j_receivedAtUtc job)"
    and "fst (resolveCanonicalUserId (we_redis env) now (vendor_string (vendor (j_normalisedShot job)))
           (vendor_user_id (j_normalisedShot job)) (w_db w, w_redis w)) = c"
    and s: "s = resolved_shot c (j_normalisedShot job)" and "shots_check s" and "duplicate_of s = None"
    and "shot_key s \<notin> shot_key ` set (shots (w_db w))"
    and "canonical_shot_id s \<notin> canonical_shot_id ` set (shots (w_db w))"
    and "captured_at_utc s = iso_format t" and "\<bar>t\<bar> \<le> 8640000000000000 - 60000"
  obtains oc w' row where "process env now job w = (Some (Inr oc), w')" and "db_inv (w_db w')"
    and "row \<in> set (shots (w_db w'))" and "row = s\<lparr>duplicate_of := duplicate_of row\<rparr>"
    and "oc = Accepted \<and> duplicate_of row = None \<or> oc = Duplicate_near \<and> duplicate_of row \<noteq> None"
    and "set (shots (w_db w')) = insert row (set (shots (w_db w)))"
proof -
  obtain r where cr: "resolveCanonicalUserId (we_redis env) now (vendor_string (vendor (j_normalisedShot job)))
      (vendor_user_id (j_normalisedShot job)) (w_db w, w_redis w) = (c, r)"
    using assms(4) by (metis prod.collapse)
  let ?P = "we_platform env"
  let ?u = "\<lparr>up_inserted = True, up_canonical_shot_id = canonical_shot_id s\<rparr>"
  obtain d where u: "upsertIfNew now s (w_db w) = Inr (?u, d)" and d: "shots d = shots (w_db w) @ [s]"
    using assms(6-9) by (auto simp: upsertIfNew_Inr)
  have inv: "db_inv d \<and> outbox_inv d"
    using upsert_db_inv [OF assms(1) u] upsert_outbox_inv [OF assms(2) u] by simp
  note run = process_no_skew [OF assms(3) cr, folded s]
  note res = check_result [OF assms(10,11), of ?P d]
  show ?thesis
  proof (cases "first_captured (near_rows ?P s t d)")
    case None
    then have "checkAndFlagNearDuplicates ?P s d = Inr (None, d)" using res by simp
    then show ?thesis
      using that [of Accepted "inc [count_shot (j_normalisedShot job) Accepted, lag_metric env now job]
          ((w\<lparr>w_redis := r\<rparr>)\<lparr>w_db := d\<rparr>)" s] run u d inv assms(7)
      by (simp add: run_from_upsert inc_def)
  next
    case (Some origin)
    let ?d1 = "flag_duplicate (canonical_shot_id s) (canonical_shot_id origin) d"
    let ?d2 = "updateOutboxEventDuplicateOf (canonical_shot_id s) (canonical_shot_id origin) ?d1"
    have check: "checkAndFlagNearDuplicates ?P s d = Inr (Some (canonical_shot_id origin), ?d1)"
      using res Some by simp
    have "db_inv ?d2" using update_event_inv [OF check_flag_inv [OF inv check]] by blast
    moreover have "\<forall>x \<in> set (shots (w_db w)). canonical_shot_id x \<noteq> canonical_shot_id s"
      using assms(9) by (metis imageI)
    then have "shots ?d2 = shots (w_db w) @ [s\<lparr>duplicate_of := Some (canonical_shot_id origin)\<rparr>]"
      using d by (auto simp: updateOutboxEventDuplicateOf_def flag_duplicate_def update_where_def intro!: map_idI)
    moreover have "process env now job w = (Some (Inr Duplicate_near),
        inc [NearDuplicates (vendor_string (vendor (j_normalisedShot job))),
             count_shot (j_normalisedShot job) Duplicate_near, lag_metric env now job]
          ((w\<lparr>w_redis := r\<rparr>)\<lparr>w_db := ?d2\<rparr>))"
      using run u check by (simp add: run_from_upsert)
    ultimately show ?thesis
      using that [of Duplicate_near _ "s\<lparr>duplicate_of := Some (canonical_shot_id origin)\<rparr>"] by (simp add: inc_def)
  qed
qed

text \<open>A fresh shot inside the clock window was taken near the time of the request.\<close>

lemma accepted_time:
  assumes "fresh_shot v h (iso_format now) s" and "\<bar>now\<bar> \<le> 8640000000000000 - 86460000"
    and "\<not> hasExcessiveClockSkew P (captured_at_utc s) (iso_format now)"
  obtains t where "captured_at_utc s = iso_format t" and "\<bar>t\<bar> \<le> 8640000000000000 - 60000"
proof -
  obtain t where t: "\<bar>t\<bar> \<le> 8640000000000000" "captured_at_utc s = iso_format t"
    using assms(1) by (auto simp: fresh_shot_def)
  have "\<bar>now\<bar> \<le> 8640000000000000" using assms(2) by arith
  then have "now - 86400000 \<le> t \<and> t \<le> now + 300000"
    using assms(3) date_parse_iso [OF t(1), of "legacy_date P"] date_parse_iso [of now "legacy_date P"]
    by (auto simp: t(2) hasExcessiveClockSkew_def hasExcessiveClockSkew_within_def Let_def split: if_splits)
  then have "\<bar>t\<bar> \<le> 8640000000000000 - 60000" using assms(2) by arith
  with t(2) show ?thesis by (rule that)
qed

text \<open>Whether a client that asks for a user's shots finds a stored row.\<close>

lemma listed_iff:
  assumes "codec_ok (qe_codec qenv)" and "db_inv d" and "plain_shots d" and "row \<in> set (shots d)"
    and "canonical_user_id row = Some u" and "u \<noteq> []"
    and "window qenv sq = Inr (since, until_utc)" and "instant since \<le> instant (captured_at_utc row)"
    and "instant (captured_at_utc row) \<le> instant until_utc" and "q_club sq = None" and "q_cursor sq = None"
    and "1 \<le> effective_limit sq" and "length (shots d) < n"
  shows "\<exists>data. follow n qenv \<lparr>f_canonical_user_id = Some u, f_vendor = None, f_vendor_user_id = None\<rparr> sq d = Inr data
           \<and> (ShotCore.truncate row \<in> set data \<longleftrightarrow> q_include_near_duplicates sq \<or> duplicate_of row = None)"
proof -
  let ?f = "\<lparr>f_canonical_user_id = Some u, f_vendor = None, f_vendor_user_id = None\<rparr>"
  have "club_param sq = Inr ()" using assms(10) by (simp add: club_param_def)
  then obtain rows where rows: "follow n qenv ?f sq d = Inr (map ShotCore.truncate rows)"
    "set rows = {r \<in> set (shots d). matches ?f sq since until_utc r}"
    using follow_all [OF assms(1-3,7) _ assms(11-13), of ?f] by blast
  have A: "row \<in> set rows \<longleftrightarrow> q_include_near_duplicates sq \<or> duplicate_of row = None"
    using assms(4-6,8-10) by (simp add: rows(2) matches_def truthy_nonempty)
  have B: "q_include_near_duplicates sq \<or> duplicate_of row = None"
    if "x \<in> set rows" "ShotCore.truncate x = ShotCore.truncate row" for x
  proof -
    have "duplicate_of x = duplicate_of row" using that(2) by (simp add: ShotCore.truncate_def)
    then show ?thesis using that(1) by (simp add: rows(2) matches_def)
  qed
  have "ShotCore.truncate row \<in> ShotCore.truncate ` set rows \<longleftrightarrow> q_include_near_duplicates sq \<or> duplicate_of row = None"
    using A B by (metis imageE imageI)
  then show ?thesis using rows(1) by simp
qed

text \<open>C3: From the webhook to the page. A TrackPro shot that is answered 202, whose key is new to the queue
  and to the table, within the table's limits, and whose vendor user is linked: its job is in the
  queue, one run of the worker's handler stores it under the linked user, either as accepted or
  as a near duplicate, and a client that pages through that user's shots over a window with the
  shot's time gets it, a near duplicate only when it asks for those.\<close>

theorem shot_reaches_user:
  assumes "bullmq B" and "TrackproPayloadSchema (we_platform env) (rq_body rq) = Some p"
    and "parseTrackpro (we_platform env) (rq_ulid rq) p (iso_format (rq_now rq)) = Inr [s]"
    and "trackpro_receive (we_platform env) B c rq q = (Inr a, q')" and "\<not> isJobIdKnown B (idempotency_key s) q"
    and "outbox_inv (w_db w)" and "coherent (we_redis env) now (w_db w, w_redis w)"
    and "shot_key s \<notin> shot_key ` set (shots (w_db w))"
    and "canonical_shot_id s \<notin> canonical_shot_id ` set (shots (w_db w))"
    and "lookup_identity Trackpro (tp_user_external_id p) (w_db w) = Some u" and "length u \<le> 26"
    and "within_table s" and "\<bar>rq_now rq\<bar> \<le> 8640000000000000 - 86460000" and "length (rq_ulid rq 0) \<le> 26"
    and "\<And>x. length (sha256 (we_platform env) x) \<le> 64" and "toLowerCase (trim (tp_club p)) \<notin> set inherited_names"
  shows "\<exists>job oc w' row. getJob B (idempotency_key s) q' = Some job \<and> process env now job w = (Some (Inr oc), w')
           \<and> row \<in> set (shots (w_db w')) \<and> row = s\<lparr>canonical_user_id := Some u, duplicate_of := duplicate_of row\<rparr>
           \<and> (oc = Accepted \<and> duplicate_of row = None \<or> oc = Duplicate_near \<and> duplicate_of row \<noteq> None)
           \<and> (\<forall>n qenv sq since until_utc.
                codec_ok (qe_codec qenv) \<and> plain_shots (w_db w') \<and> window qenv sq = Inr (since, until_utc)
                \<and> instant since \<le> instant (captured_at_utc s) \<and> instant (captured_at_utc s) \<le> instant until_utc
                \<and> q_club sq = None \<and> q_cursor sq = None \<and> 1 \<le> effective_limit sq \<and> length (shots (w_db w')) < n \<longrightarrow>
                (\<exists>data. follow n qenv \<lparr>f_canonical_user_id = Some u, f_vendor = None, f_vendor_user_id = None\<rparr> sq (w_db w')
                          = Inr data
                   \<and> (ShotCore.truncate row \<in> set data \<longleftrightarrow> q_include_near_duplicates sq \<or> oc = Accepted)))"
proof -
  let ?P = "we_platform env" and ?received = "iso_format (rq_now rq)"
  let ?job = "\<lparr>j_vendor = vendor s, j_normalisedShot = s,
    j_correlationId = correlation_id (rq_correlation rq) (rq_uuid rq), j_receivedAtUtc = ?received\<rparr>"
  let ?s = "s\<lparr>canonical_user_id := Some u\<rparr>"
  note ok = schema_accepts_ok [OF assms(2)]
  have fresh: "fresh_shot Trackpro (sha256 ?P) ?received s" using parseTrackpro_fresh [OF ok assms(3)] by simp
  then have vd: "vendor s = Trackpro" "duplicate_of s = None" by (simp_all add: fresh_shot_def)
  have user: "vendor_user_id s = tp_user_external_id p"
    using assms(3) by (auto simp: parseTrackpro_simps split: option.splits)
  have recv: "receive_single ?P B c (correlation_id (rq_correlation rq) (rq_uuid rq)) ?received (Inr [s]) q = (Inr a, q')"
    using assms(2-4) by (simp add: trackpro_receive_def ZodValidationPipe_def)
  note job = receive_queues [OF assms(1) recv assms(5)]
  have now: "\<bar>rq_now rq\<bar> \<le> 8640000000000000" using assms(13) by arith
  obtain t where t: "captured_at_utc s = iso_format t" "\<bar>t\<bar> \<le> 8640000000000000 - 60000"
    by (rule accepted_time [OF fresh assms(13) job(2)])
  have check: "shots_check ?s"
    using trackpro_checks [OF ok assms(3) now assms(14,15,16), of "Some u"] assms(11,12) by (simp add: varchar_def)
  have u: "u \<noteq> []" using assms(7,10) by (auto simp: coherent_def)
  have res: "fst (resolveCanonicalUserId (we_redis env) now (vendor_string (vendor s)) (vendor_user_id s)
      (w_db w, w_redis w)) = Some u"
    using resolve_coherent_result [OF assms(7), of Trackpro "vendor_user_id s"] assms(10) by (simp add: vd user)
  have inv: "db_inv (w_db w)" using assms(7) by (simp add: coherent_def)
  have s': "?s = resolved_shot (Some u) (j_normalisedShot ?job)" using u by (simp add: resolved_shot_def)
  have cond: "\<not> hasExcessiveClockSkew ?P (captured_at_utc (j_normalisedShot ?job)) (j_receivedAtUtc ?job)"
    "fst (resolveCanonicalUserId (we_redis env) now (vendor_string (vendor (j_normalisedShot ?job)))
       (vendor_user_id (j_normalisedShot ?job)) (w_db w, w_redis w)) = Some u"
    "duplicate_of ?s = None" "shot_key ?s \<notin> shot_key ` set (shots (w_db w))"
    "canonical_shot_id ?s \<notin> canonical_shot_id ` set (shots (w_db w))" "captured_at_utc ?s = iso_format t"
    using job(2) res vd(2) assms(8,9) t(1) by (simp_all add: shot_key_def)
  obtain oc w' row where run: "process env now ?job w = (Some (Inr oc), w')" "db_inv (w_db w')"
    "row \<in> set (shots (w_db w'))" "row = ?s\<lparr>duplicate_of := duplicate_of row\<rparr>"
    "oc = Accepted \<and> duplicate_of row = None \<or> oc = Duplicate_near \<and> duplicate_of row \<noteq> None"
    "set (shots (w_db w')) = insert row (set (shots (w_db w)))"
    by (rule process_stores [OF inv assms(6) cond(1,2) s' check cond(3-6) t(2)])
  have row: "canonical_user_id row = Some u" "captured_at_utc row = captured_at_utc s"
    by (subst run(4), simp)+
  have acc: "oc = Accepted \<longleftrightarrow> duplicate_of row = None" using run(5) by auto
  note listed = listed_iff [OF _ run(2) _ run(3) row(1) u, unfolded row(2)]
  show ?thesis
    by (intro exI conjI, rule job(1), rule run(1), rule run(3), rule run(4), rule run(5)) (unfold acc, use listed in blast)
qed

text \<open>A platform, a request with the sample payload, and a database with one linked user.\<close>

definition sample_hashing :: Platform where
  "sample_hashing = sample_platform\<lparr>sha256 := \<lambda>x. ''h''\<rparr>"

definition sample_webhook :: Request where
  "sample_webhook =
     \<lparr>rq_body = trackpro_json sample_trackpro, rq_correlation = Some ''c-1'', rq_uuid = ''u-1'',
      rq_now = 1705307400000, rq_ulid = (\<lambda>i. ''01J'')\<rparr>"

definition sample_linked :: "map_store World" where
  "sample_linked =
     \<lparr>w_db = empty_db\<lparr>user_identities := [\<lparr>ui_id = 0, ui_vendor = Trackpro, ui_vendor_user_id = ''user-1'',
                       ui_canonical_user_id = ''01HUSER'',
                       ui_created_at = 0, ui_updated_at = 0\<rparr>], identity_seq := 1\<rparr>,
      w_redis = (\<lambda>k. None), w_metrics = []\<rparr>"

lemma sample_hashing_schema:
  "TrackproPayloadSchema sample_hashing (trackpro_json sample_trackpro) = Some sample_trackpro"
proof -
  have "trackpro_ok sample_hashing sample_trackpro"
    using sample_trackpro_ok by (simp add: trackpro_ok_def sample_hashing_def sample_platform_def)
  then show ?thesis by (rule schema_of_json)
qed

lemma sample_hashing_parse:
  obtains s where "parseTrackpro sample_hashing ids sample_trackpro received = Inr [s]"
    and "captured_at_utc s = iso_format 1705307400000" and "within_table s"
    and "idempotency_key s = ''tp|tp-2024-01-15-00a1b2c3''"
proof -
  obtain s where "parseTrackpro sample_hashing ids sample_trackpro received = Inr [s]"
    by (auto simp: parseTrackpro_simps sample_trackpro_def sample_hashing_def sample_platform_def date_parse_def
        sample_trackpro_time TimeClip_def)
  then show ?thesis using that [of s]
    by (auto simp: parseTrackpro_simps within_table_def sample_trackpro_def sample_hashing_def sample_platform_def
        date_parse_def sample_trackpro_time TimeClip_def split: option.splits)
qed

lemma sample_club_plain: "toLowerCase (trim (tp_club sample_trackpro)) \<notin> set inherited_names"
  unfolding sample_trackpro_def by code_simp

lemma sample_linked_facts:
  "outbox_inv (w_db sample_linked)" "coherent map_redis 0 (w_db sample_linked, w_redis sample_linked)"
  "lookup_identity Trackpro ''user-1'' (w_db sample_linked) = Some ''01HUSER''" "shots (w_db sample_linked) = []"
  by (auto simp: sample_linked_def empty_db_def outbox_inv_def coherent_def db_inv_def lookup_identity_def
      identity_key_def map_redis_empty)

theorem shot_reaches_user_witness:
  "\<exists>q' job oc w' row.
     trackpro_receive sample_hashing list_queue None sample_webhook [] = (Inr (''accepted'', ''c-1''), q')
     \<and> getJob list_queue ''tp|tp-2024-01-15-00a1b2c3'' q' = Some job
     \<and> process (sample_env\<lparr>we_platform := sample_hashing\<rparr>) 0 job sample_linked = (Some (Inr oc), w')
     \<and> row \<in> set (shots (w_db w')) \<and> canonical_user_id row = Some ''01HUSER''"
proof -
  let ?env = "sample_env\<lparr>we_platform := sample_hashing\<rparr>"
  let ?received = "iso_format (rq_now sample_webhook)"
  obtain s where s: "parseTrackpro sample_hashing (rq_ulid sample_webhook) sample_trackpro ?received = Inr [s]"
    "captured_at_utc s = ?received" "within_table s" "idempotency_key s = ''tp|tp-2024-01-15-00a1b2c3''"
    by (rule sample_hashing_parse [of "rq_ulid sample_webhook" ?received]) (simp add: sample_webhook_def)
  have v: "TrackproPayloadSchema (we_platform ?env) (rq_body sample_webhook) = Some sample_trackpro"
    using sample_hashing_schema by (simp add: sample_webhook_def)
  obtain q' where r: "trackpro_receive sample_hashing list_queue None sample_webhook [] = (Inr (''accepted'', ''c-1''), q')"
  proof -
    have "receive_single sample_hashing list_queue None ''c-1'' ?received (Inr [s]) []
        = (Inr (''accepted'', ''c-1''), fst (add_shot list_queue s ''c-1'' ?received []))"
      by (simp add: receive_single_def s(2) no_skew_self enqueue_def depth_check_def list_queue_def max_depth_def
          split: prod.splits)
    then show ?thesis using that s(1) v
      by (simp add: trackpro_receive_def ZodValidationPipe_def sample_webhook_def correlation_id_def)
  qed
  note w = sample_linked_facts
  have e: "we_platform ?env = sample_hashing" "we_redis ?env = map_redis" by (simp_all add: sample_env_def)
  have parsed: "parseTrackpro (we_platform ?env) (rq_ulid sample_webhook) sample_trackpro ?received = Inr [s]"
    and received: "trackpro_receive (we_platform ?env) list_queue None sample_webhook [] = (Inr (''accepted'', ''c-1''), q')"
    and linked: "coherent (we_redis ?env) 0 (w_db sample_linked, w_redis sample_linked)"
    unfolding e by (rule s(1), rule r, rule w(2))
  have known: "\<not> isJobIdKnown list_queue (idempotency_key s) []" by (simp add: isJobIdKnown_def list_queue_def)
  have new: "shot_key s \<notin> shot_key ` set (shots (w_db sample_linked))"
    "canonical_shot_id s \<notin> canonical_shot_id ` set (shots (w_db sample_linked))"
    by (simp_all add: w(4))
  have user: "lookup_identity Trackpro (tp_user_external_id sample_trackpro) (w_db sample_linked) = Some ''01HUSER''"
    using w(3) by (simp add: sample_trackpro_def)
  have small: "length ''01HUSER'' \<le> 26" "\<bar>rq_now sample_webhook\<bar> \<le> 8640000000000000 - 86460000"
    "length (rq_ulid sample_webhook 0) \<le> 26" "\<And>x. length (sha256 (we_platform ?env) x) \<le> 64"
    unfolding e by (simp_all add: sample_webhook_def sample_hashing_def)
  obtain job oc w' row where o: "getJob list_queue (idempotency_key s) q' = Some job"
    "process ?env 0 job sample_linked = (Some (Inr oc), w')" "row \<in> set (shots (w_db w'))"
    and row: "row = s\<lparr>canonical_user_id := Some ''01HUSER'', duplicate_of := duplicate_of row\<rparr>"
    using shot_reaches_user [OF list_queue_ok v parsed received known w(1) linked new user small(1) s(3) small(2-4)
        sample_club_plain]
    by (elim exE conjE) (rule that)
  have "canonical_user_id row = Some ''01HUSER''" by (subst row) simp
  with r o show ?thesis unfolding s(4) [symmetric] by (intro exI conjI)
qed

end
